(* ===== verification/Prelude.thy ===== *)
theory Prelude
  imports Main "HOL-Library.Word" "HOL-Library.Multiset"
begin

text \<open>
  Shared vocabulary of the development: the widths of Rust's integers, the value a Rust
  function ends with (a result, an error or a panic), the saturating operations of \<^verbatim>\<open>u64\<close>
  with their reading as natural numbers, and the list lemmas the components share.

  The target is a 64-bit machine, so \<^verbatim>\<open>usize\<close> has 64 bits.
\<close>

type_synonym u32 = "32 word"
type_synonym u64 = "64 word"
type_synonym usize = "64 word"

text \<open>
  How a call ends. \<open>Ok\<close> and \<open>Err\<close> are the constructors of \<^verbatim>\<open>std::result::Result\<close>;
  \<open>Panic\<close> carries the message of a failed \<^verbatim>\<open>assert!\<close>, \<^verbatim>\<open>expect\<close>, \<^verbatim>\<open>unreachable!\<close>
  or of an arithmetic panic.
\<close>

datatype ('a, 'e) outcome = Ok 'a | Err 'e | Panic string

abbreviation is_ok :: "('a, 'e) outcome \<Rightarrow> bool" where
  "is_ok r \<equiv> (\<exists>a. r = Ok a)"

named_theorems word_ops \<open>saturating arithmetic read as natural numbers\<close>

subsection \<open>Saturating arithmetic\<close>

definition saturating_sub :: "'a::len word \<Rightarrow> 'a word \<Rightarrow> 'a word" where
  "saturating_sub a b = (if a < b then 0 else a - b)"

definition saturating_add :: "'a::len word \<Rightarrow> 'a word \<Rightarrow> 'a word" where
  "saturating_add a b = (if unat a + unat b < 2 ^ LENGTH('a) then a + b else - 1)"

definition u64_MAX :: u64 where
  "u64_MAX = - 1"

lemma unat_saturating_sub [word_ops]: "unat (saturating_sub a b) = unat a - unat b"
  by (auto simp: saturating_sub_def word_less_nat_alt unat_sub word_le_nat_alt)

lemma unat_max_word [word_ops]: "unat (- 1 :: 'a::len word) = 2 ^ LENGTH('a) - 1"
  by (simp add: unat_arith_simps unsigned_minus_1_eq_mask mask_eq_exp_minus_1)

lemma unat_saturating_add [word_ops]:
  "unat (saturating_add a (b::'a::len word)) = min (unat a + unat b) (2 ^ LENGTH('a) - 1)"
proof (cases "unat a + unat b < 2 ^ LENGTH('a)")
  case True
  then have "unat (a + b) = unat a + unat b"
    by (simp add: unat_word_ariths)
  with True show ?thesis by (simp add: saturating_add_def)
next
  case False
  then show ?thesis by (simp add: saturating_add_def unat_max_word)
qed

lemma saturating_sub_eq_0 [simp]: "saturating_sub a b = 0 \<longleftrightarrow> a \<le> b"
  by (simp add: unat_eq_zero [symmetric] unat_saturating_sub word_le_nat_alt)

lemma saturating_add_ge: "b \<le> saturating_add a (b::'a::len word)"
proof -
  have "unat b \<le> 2 ^ LENGTH('a) - 1"
    using unsigned_less [of b, where ?'a = nat] by linarith
  then show ?thesis by (simp add: word_le_nat_alt unat_saturating_add)
qed

subsection \<open>Lists\<close>

lemma sorted_wrt_less_distinct:
  "sorted_wrt (<) (xs :: 'a::linorder list) \<Longrightarrow> distinct xs"
  by (simp add: strict_sorted_iff)

lemma mset_concat_update:
  assumes "i < length ws"
  shows "mset (concat (map f (ws[i := w]))) + mset (f (ws ! i)) =
    mset (concat (map f ws)) + mset (f w)"
  using assms
proof (induction ws arbitrary: i)
  case (Cons v ws)
  show ?case
  proof (cases i)
    case (Suc j)
    with Cons show ?thesis by (simp add: add.assoc)
  qed (simp add: ac_simps)
qed simp

lemma map_update_same: "f w = f (ws ! i) \<Longrightarrow> map f (ws[i := w]) = map f ws"
  by (metis list_update_id map_update)

text \<open>Starting anywhere and going round, every residue is visited.\<close>

lemma round_robin_covers:
  fixes s n i :: nat
  assumes "i < n"
  shows "\<exists>k < n. (s + k) mod n = i"
proof -
  let ?k = "(i + (n - s mod n)) mod n"
  have "(s + ?k) mod n = (s mod n + (i + (n - s mod n))) mod n"
    by (simp add: mod_simps)
  also have "s mod n + (i + (n - s mod n)) = i + n"
    using assms mod_less_divisor [of n s] by linarith
  also have "(i + n) mod n = i" using assms by simp
  finally show ?thesis using assms by (intro exI [of _ ?k]) auto
qed

end
