(* ===== verification/Rand.thy ===== *)
theory Rand
  imports Prelude
begin

text \<open>
  The pseudo random numbers of \<^verbatim>\<open>open-coroutine-queue/src/rand.rs\<close>: two 32-bit xorshift
  sequences added together, seeds derived from a generator, and the multiply-shift reduction
  that picks the sibling where stealing starts. The 64-bit hash that seeds the process is the
  parameter \<open>seed\<close> of \<open>rng_seed_from_u64\<close>.
\<close>

unbundle bit_operations_syntax

record rng_seed =
  seed_s :: u32
  seed_r :: u32

record fast_rand =
  one :: u32
  two :: u32

definition rng_seed_from_pair :: "u32 \<Rightarrow> u32 \<Rightarrow> rng_seed" where
  "rng_seed_from_pair s r = \<lparr>seed_s = s, seed_r = r\<rparr>"

definition rng_seed_from_u64 :: "u64 \<Rightarrow> rng_seed" where
  "rng_seed_from_u64 seed =
     (let one = ucast (drop_bit 32 seed); two = ucast seed;
          two = (if two = 0 then 1 else two)
      in rng_seed_from_pair one two)"

definition fast_rand_new :: "rng_seed \<Rightarrow> fast_rand" where
  "fast_rand_new seed = \<lparr>one = seed_s seed, two = seed_r seed\<rparr>"

definition replace_seed :: "rng_seed \<Rightarrow> fast_rand \<Rightarrow> rng_seed \<times> fast_rand" where
  "replace_seed seed g =
     (rng_seed_from_pair (one g) (two g), g\<lparr>one := seed_s seed, two := seed_r seed\<rparr>)"

definition fastrand :: "fast_rand \<Rightarrow> u32 \<times> fast_rand" where
  "fastrand g =
     (let s1 = one g; s0 = two g;
          s1 = s1 XOR push_bit 17 s1;
          s1 = s1 XOR s0 XOR drop_bit 7 s1 XOR drop_bit 16 s0
      in (s0 + s1, g\<lparr>one := s0, two := s1\<rparr>))"

definition fastrand_n :: "u32 \<Rightarrow> fast_rand \<Rightarrow> u32 \<times> fast_rand" where
  "fastrand_n n g =
     (let (r, g') = fastrand g; mul = (ucast r :: u64) * ucast n
      in (ucast (drop_bit 32 mul), g'))"

text \<open>The generator of seeds keeps a \<open>fast_rand\<close> behind a mutex.\<close>

record rng_seed_generator =
  gen_state :: fast_rand

definition rng_seed_generator_new :: "rng_seed \<Rightarrow> rng_seed_generator" where
  "rng_seed_generator_new seed = \<lparr>gen_state = fast_rand_new seed\<rparr>"

definition next_seed :: "rng_seed_generator \<Rightarrow> rng_seed \<times> rng_seed_generator" where
  "next_seed gen =
     (let (s, g1) = fastrand (gen_state gen); (r, g2) = fastrand g1
      in (rng_seed_from_pair s r, gen\<lparr>gen_state := g2\<rparr>))"

definition next_generator :: "rng_seed_generator \<Rightarrow> rng_seed_generator \<times> rng_seed_generator" where
  "next_generator gen = (let (s, gen') = next_seed gen in (rng_seed_generator_new s, gen'))"

subsection \<open>The reduction stays below its bound\<close>

lemma fastrand_n_less:
  assumes "0 < n"
  shows "fst (fastrand_n n g) < n"
proof -
  obtain r g' where r: "fastrand g = (r, g')" by force
  have n: "0 < unat n" "unat n < 2 ^ 32" and rb: "unat r < 2 ^ 32"
    using assms unsigned_less [of n, where ?'a = nat] unsigned_less [of r, where ?'a = nat]
    by (auto simp: word_less_nat_alt)
  have prod: "unat r * unat n < 2 ^ 32 * unat n" using rb n by simp
  also have "\<dots> < 2 ^ 64" using n(2) by simp
  finally have fits: "unat r * unat n < 2 ^ 64" .
  have up: "unat (ucast r :: u64) = unat r" "unat (ucast n :: u64) = unat n"
    using rb n(2) by (simp_all add: unsigned_ucast_eq take_bit_nat_eq_self)
  have "unat ((ucast r :: u64) * ucast n) = unat r * unat n"
    by (subst unat_word_ariths(2)) (use fits up in simp)
  then have "unat (drop_bit 32 ((ucast r :: u64) * ucast n)) = unat r * unat n div 2 ^ 32"
    by (simp only: unat_drop_bit_eq) (simp only: drop_bit_eq_div)
  moreover have "unat r * unat n div 2 ^ 32 < unat n"
    using prod by (simp add: less_mult_imp_div_less mult.commute)
  ultimately show ?thesis using r n(2)
    by (simp add: fastrand_n_def word_less_nat_alt unsigned_ucast_eq take_bit_eq_mod)
qed

subsection \<open>The state never becomes zero\<close>

lemma xor_word_eq_0: "(x::u32) XOR y = 0 \<longleftrightarrow> x = y"
  by (auto simp: bit_eq_iff bit_simps)

lemma xor_push_bit_eq_0: "(x::u32) XOR push_bit 17 x = 0 \<longleftrightarrow> x = 0"
proof
  assume "x XOR push_bit 17 x = 0"
  then have eq: "x = push_bit 17 x"
    by (simp add: xor_word_eq_0)
  have "\<not> bit x n" for n
  proof (induction n rule: less_induct)
    case (less n)
    have "bit x n \<longleftrightarrow> bit (push_bit 17 x) n" using eq by simp
    with less show ?case by (auto simp: bit_simps)
  qed
  then show "x = 0" by (auto intro: bit_eqI)
qed simp

lemma xor_drop_bit_eq_0: "(x::u32) XOR drop_bit 7 x = 0 \<longleftrightarrow> x = 0"
proof
  assume "x XOR drop_bit 7 x = 0"
  then have "x = drop_bit 7 x"
    by (simp add: xor_word_eq_0)
  then have "unat x = unat (drop_bit 7 x)" by (rule arg_cong)
  then have "unat x = unat x div 2 ^ 7"
    by (simp only: unat_drop_bit_eq) (simp only: drop_bit_eq_div)
  then have "unat x = 0" by simp
  then show "x = 0" by (simp add: unat_eq_zero)
qed simp

definition rand_live :: "fast_rand \<Rightarrow> bool" where
  "rand_live g \<longleftrightarrow> one g \<noteq> 0 \<or> two g \<noteq> 0"

lemma rand_live_fastrand: "rand_live g \<Longrightarrow> rand_live (snd (fastrand g))"
proof -
  define t where "t = one g XOR push_bit 17 (one g)"
  assume "rand_live g"
  then have "two g = 0 \<Longrightarrow> t XOR drop_bit 7 t \<noteq> 0"
    by (simp add: rand_live_def t_def xor_push_bit_eq_0 xor_drop_bit_eq_0 del: drop_bit_xor)
  then show ?thesis
    by (auto simp: rand_live_def fastrand_def Let_def t_def [symmetric] simp del: drop_bit_xor)
qed

lemma rand_live_seeded: "rand_live (fast_rand_new (rng_seed_from_u64 seed))"
  by (auto simp: rand_live_def fast_rand_new_def rng_seed_from_u64_def rng_seed_from_pair_def Let_def)


lemma rand_live_fastrand_n: "rand_live g \<Longrightarrow> rand_live (snd (fastrand_n n g))"
  using rand_live_fastrand [of g] by (auto simp: fastrand_n_def split: prod.splits)

text \<open>
  C31: A generator made from a 64-bit seed never falls into the absorbing zero state of the xorshift,
  however many numbers were drawn before, and the next number drawn below \<open>n\<close> is below \<open>n\<close>.
\<close>

theorem fastrand_n_sound:
  assumes "0 < n"
  shows "let g = ((\<lambda>g. snd (fastrand_n n g)) ^^ k) (fast_rand_new (rng_seed_from_u64 seed))
    in rand_live g \<and> fst (fastrand_n n g) < n"
proof -
  have "rand_live (((\<lambda>g. snd (fastrand_n n g)) ^^ k) (fast_rand_new (rng_seed_from_u64 seed)))"
    by (induction k) (simp_all add: rand_live_seeded rand_live_fastrand_n)
  then show ?thesis using fastrand_n_less [OF assms] by (simp add: Let_def)
qed

theorem fastrand_n_sound_witness:
  "rand_live ((\<lambda>g. snd (fastrand_n 5 g)) (fast_rand_new (rng_seed_from_u64 0)))"
  using fastrand_n_sound [of 5 1 0] by (simp add: Let_def)

end
