(* ===== verification/WorkSteal.thy ===== *)
theory WorkSteal
  imports Rand
begin

text \<open>
  The work stealing queue of \<^verbatim>\<open>open-coroutine-queue/src/work_steal.rs\<close>.

  Two third-party containers are parameters of every operation: the global queue
  (\<^verbatim>\<open>crossbeam_deque::Injector\<close>, the record \<open>injector_ops\<close>) and the bounded local queues
  (\<^verbatim>\<open>st3::fifo::Worker\<close>, the record \<open>worker_ops\<close>). What their documentation promises to one
  caller at a time is stated by the locales \<open>crossbeam_injector\<close> and \<open>st3_worker\<close>; the
  locale \<open>work_steal\<close> joins them and holds the lemmas about the queue.

  An operation of a local queue acts on the shared queue \<open>q\<close> and on the handle \<open>l\<close>, which
  names its worker by position. A call that may spin forever on \<^verbatim>\<open>Steal::Retry\<close> has an
  \<open>option\<close> result, \<open>None\<close> for not returning.
\<close>

subsection \<open>The containers\<close>

datatype 'a steal = Empty | Success 'a | Retry

record ('i, 'a) injector_ops =
  inj_new :: 'i
  inj_push :: "'a \<Rightarrow> 'i \<Rightarrow> 'i"
  inj_steal :: "'i \<Rightarrow> 'a steal \<times> 'i"

text \<open>\<open>w_push\<close> gives the item back when the worker is full; \<open>w_steal src dst count_fn\<close>
  moves items from the head of \<open>src\<close> to the tail of \<open>dst\<close>.\<close>

record ('w, 'a) worker_ops =
  w_new :: "nat \<Rightarrow> 'w"
  w_push :: "'a \<Rightarrow> 'w \<Rightarrow> 'a option \<times> 'w"
  w_pop :: "'w \<Rightarrow> 'a option \<times> 'w"
  w_is_empty :: "'w \<Rightarrow> bool"
  w_capacity :: "'w \<Rightarrow> nat"
  w_spare_capacity :: "'w \<Rightarrow> nat"
  w_steal :: "'w \<Rightarrow> 'w \<Rightarrow> (nat \<Rightarrow> nat) \<Rightarrow> (nat, unit) outcome \<times> 'w \<times> 'w"

subsection \<open>The shared queue\<close>

record ('i, 'w) work_steal_queue =
  shared_queue :: 'i
  wsq_len :: nat
  local_queues :: "'w list"
  wsq_index :: usize
  seed_generator :: rng_seed_generator

definition wsq_new :: "('i, 'a) injector_ops \<Rightarrow> ('w, 'a) worker_ops \<Rightarrow> rng_seed \<Rightarrow> nat \<Rightarrow> nat
    \<Rightarrow> ('i, 'w) work_steal_queue" where
  "wsq_new I W seed local_queues_size local_capacity =
     \<lparr>shared_queue = inj_new I, wsq_len = 0,
      local_queues = map (\<lambda>_. w_new W local_capacity) [0..<local_queues_size],
      wsq_index = 0, seed_generator = rng_seed_generator_new seed\<rparr>"

definition wsq_default :: "('i, 'a) injector_ops \<Rightarrow> ('w, 'a) worker_ops \<Rightarrow> rng_seed \<Rightarrow> nat
    \<Rightarrow> ('i, 'w) work_steal_queue" where
  "wsq_default I W seed num_cpus = wsq_new I W seed num_cpus 256"

definition wsq_is_empty :: "('i, 'w) work_steal_queue \<Rightarrow> bool" where
  "wsq_is_empty q \<longleftrightarrow> wsq_len q = 0"

definition wsq_push :: "('i, 'a) injector_ops \<Rightarrow> 'a \<Rightarrow> ('i, 'w) work_steal_queue
    \<Rightarrow> ('i, 'w) work_steal_queue" where
  "wsq_push I item q =
     (let q = q\<lparr>shared_queue := inj_push I item (shared_queue q)\<rparr>
      in q\<lparr>wsq_len := wsq_len q + 1\<rparr>)"

partial_function (option) wsq_pop_loop :: "('i, 'a) injector_ops \<Rightarrow> ('i, 'w) work_steal_queue
    \<Rightarrow> ('a option \<times> ('i, 'w) work_steal_queue) option" where
  "wsq_pop_loop I q =
     (case inj_steal I (shared_queue q) of
        (Success item, i) \<Rightarrow> Some (Some item, q\<lparr>shared_queue := i, wsq_len := wsq_len q - 1\<rparr>)
      | (Retry, i) \<Rightarrow> wsq_pop_loop I (q\<lparr>shared_queue := i\<rparr>)
      | (Empty, i) \<Rightarrow> Some (None, q\<lparr>shared_queue := i\<rparr>))"

definition wsq_pop :: "('i, 'a) injector_ops \<Rightarrow> ('i, 'w) work_steal_queue
    \<Rightarrow> ('a option \<times> ('i, 'w) work_steal_queue) option" where
  "wsq_pop I q = (if wsq_is_empty q then Some (None, q) else wsq_pop_loop I q)"

text \<open>Dropping the shared queue asserts that every local queue and the global one are empty.\<close>

definition wsq_drop :: "('i, 'a) injector_ops \<Rightarrow> ('w, 'a) worker_ops
    \<Rightarrow> ('i, 'w) work_steal_queue \<Rightarrow> (unit, unit) outcome option" where
  "wsq_drop I W q =
     (if list_ex (\<lambda>w. fst (w_pop W w) \<noteq> None) (local_queues q)
      then Some (Panic ''local queue not empty'')
      else case wsq_pop I q of
             None \<Rightarrow> None
           | Some (None, _) \<Rightarrow> Some (Ok ())
           | Some (Some _, _) \<Rightarrow> Some (Panic ''global queue not empty''))"

subsection \<open>The local queue\<close>

record local_queue =
  lq_tick :: u32
  lq_stealing :: bool
  lq_queue :: nat
  lq_rand :: fast_rand

definition lq_new :: "nat \<Rightarrow> fast_rand \<Rightarrow> local_queue" where
  "lq_new worker g = \<lparr>lq_tick = 0, lq_stealing = False, lq_queue = worker, lq_rand = g\<rparr>"

text \<open>\<^verbatim>\<open>index %= self.local_queues.len()\<close> panics on an empty list of local queues.\<close>

definition wsq_local_queue :: "('i, 'w) work_steal_queue
    \<Rightarrow> (local_queue, unit) outcome \<times> ('i, 'w) work_steal_queue" where
  "wsq_local_queue q =
     (let ix = wsq_index q;
          q = q\<lparr>wsq_index := ix + 1\<rparr>;
          q = (if ix = - 1 then q\<lparr>wsq_index := 0\<rparr> else q)
      in if length (local_queues q) = 0
         then (Panic ''attempt to calculate the remainder with a divisor of zero'', q)
         else let ix = unat ix mod length (local_queues q);
                  (seed, gen) = next_seed (seed_generator q)
              in (Ok (lq_new ix (fast_rand_new seed)), q\<lparr>seed_generator := gen\<rparr>))"

definition own :: "local_queue \<Rightarrow> ('i, 'w) work_steal_queue \<Rightarrow> 'w" where
  "own l q = local_queues q ! lq_queue l"

definition set_own :: "local_queue \<Rightarrow> 'w \<Rightarrow> ('i, 'w) work_steal_queue \<Rightarrow> ('i, 'w) work_steal_queue" where
  "set_own l w q = q\<lparr>local_queues := (local_queues q)[lq_queue l := w]\<rparr>"

definition lq_is_empty :: "('w, 'a) worker_ops \<Rightarrow> local_queue \<Rightarrow> ('i, 'w) work_steal_queue \<Rightarrow> bool" where
  "lq_is_empty W l q = w_is_empty W (own l q)"

definition lq_is_full :: "('w, 'a) worker_ops \<Rightarrow> local_queue \<Rightarrow> ('i, 'w) work_steal_queue \<Rightarrow> bool" where
  "lq_is_full W l q \<longleftrightarrow> w_spare_capacity W (own l q) = 0"

definition lq_len :: "('w, 'a) worker_ops \<Rightarrow> local_queue \<Rightarrow> ('i, 'w) work_steal_queue \<Rightarrow> nat" where
  "lq_len W l q = w_capacity W (own l q) - w_spare_capacity W (own l q)"

definition try_lock :: "local_queue \<Rightarrow> bool \<times> local_queue" where
  "try_lock l = (if lq_stealing l then (False, l) else (True, l\<lparr>lq_stealing := True\<rparr>))"

definition release_lock :: "local_queue \<Rightarrow> local_queue" where
  "release_lock l = l\<lparr>lq_stealing := False\<rparr>"

definition lq_drop :: "('w, 'a) worker_ops \<Rightarrow> local_queue \<Rightarrow> ('i, 'w) work_steal_queue
    \<Rightarrow> (unit, unit) outcome" where
  "lq_drop W l q =
     (case fst (w_pop W (own l q)) of None \<Rightarrow> Ok () | Some _ \<Rightarrow> Panic ''local queue not empty'')"

text \<open>The loop of \<open>push_back\<close> that moves half of the items to the global queue.\<close>

fun push_half :: "('i, 'a) injector_ops \<Rightarrow> ('w, 'a) worker_ops \<Rightarrow> local_queue \<Rightarrow> nat
    \<Rightarrow> ('i, 'w) work_steal_queue \<Rightarrow> ('i, 'w) work_steal_queue" where
  "push_half I W l 0 q = q"
| "push_half I W l (Suc n) q =
     (case w_pop W (own l q) of
        (Some item, w) \<Rightarrow> push_half I W l n (wsq_push I item (set_own l w q))
      | (None, w) \<Rightarrow> push_half I W l n (set_own l w q))"

definition push_back :: "('i, 'a) injector_ops \<Rightarrow> ('w, 'a) worker_ops \<Rightarrow> 'a \<Rightarrow> local_queue
    \<Rightarrow> ('i, 'w) work_steal_queue \<Rightarrow> ('i, 'w) work_steal_queue" where
  "push_back I W item l q =
     (case w_push W item (own l q) of
        (None, w) \<Rightarrow> set_own l w q
      | (Some item, w) \<Rightarrow>
          let q = set_own l w q; cnt = lq_len W l q div 2
          in wsq_push I item (push_half I W l cnt q))"

definition do_tick :: "local_queue \<Rightarrow> u32 \<times> local_queue" where
  "do_tick l =
     (let val = lq_tick l; l = l\<lparr>lq_tick := val + 1\<rparr>
      in if val = - 1 then (0, l\<lparr>lq_tick := 0\<rparr>) else (val + 1, l))"

text \<open>
  \<^verbatim>\<open>std::ptr::eq(&another, &self.queue)\<close> compares two references to references: the address
  of the loop variable \<^verbatim>\<open>another\<close> with the address of the field \<^verbatim>\<open>self.queue\<close>, two
  different places, whatever workers they point to.
\<close>

datatype place = Another_variable | Queue_field

definition std_ptr_eq :: "place \<Rightarrow> place \<Rightarrow> bool" where
  "std_ptr_eq p p' \<longleftrightarrow> p = p'"

definition steal_count :: "('w, 'a) worker_ops \<Rightarrow> 'w \<Rightarrow> 'w \<Rightarrow> nat \<Rightarrow> nat" where
  "steal_count W self another n =
     min (min n (w_spare_capacity W self))
       (((w_capacity W another - w_spare_capacity W another) + 1) div 2)"

text \<open>
  The loop over the siblings. The first component is \<open>Some v\<close> when the body returned \<open>v\<close>,
  \<open>None\<close> when the loop ran out.
\<close>

fun steal_loop :: "('w, 'a) worker_ops \<Rightarrow> nat \<Rightarrow> nat \<Rightarrow> nat list \<Rightarrow> local_queue
    \<Rightarrow> ('i, 'w) work_steal_queue \<Rightarrow> 'a option option \<times> local_queue \<times> ('i, 'w) work_steal_queue" where
  "steal_loop W start num [] l q = (None, l, q)"
| "steal_loop W start num (k # ks) l q =
     (let i = (start + k) mod num in
      if i \<ge> length (local_queues q) then steal_loop W start num ks l q
      else let another = local_queues q ! i in
      if std_ptr_eq Another_variable Queue_field then steal_loop W start num ks l q
      else if w_is_empty W another then steal_loop W start num ks l q
      else if w_spare_capacity W (own l q) = 0 then steal_loop W start num ks l q
      else case w_steal W another (own l q) (steal_count W (own l q) another) of
        (r, another', self') \<Rightarrow>
          let q = set_own l self' (q\<lparr>local_queues := (local_queues q)[i := another']\<rparr>) in
          (case r of
             Ok _ \<Rightarrow> let l = release_lock l; (v, w) = w_pop W (own l q) in (Some v, l, set_own l w q)
           | _ \<Rightarrow> steal_loop W start num ks l q))"

text \<open>What \<open>pop_front\<close> does after the periodic look at the global queue.\<close>

definition pop_local :: "('i, 'a) injector_ops \<Rightarrow> ('w, 'a) worker_ops \<Rightarrow> local_queue
    \<Rightarrow> ('i, 'w) work_steal_queue
    \<Rightarrow> ('a option \<times> local_queue \<times> ('i, 'w) work_steal_queue) option" where
  "pop_local I W l q =
     (case w_pop W (own l q) of
        (Some val, w) \<Rightarrow> Some (Some val, l, set_own l w q)
      | (None, w) \<Rightarrow>
          let q = set_own l w q; (locked, l) = try_lock l;
              (r, l, q) =
                (if locked then
                   let num = length (local_queues q);
                       (start, rand') = fastrand_n (of_nat num) (lq_rand l);
                       l = l\<lparr>lq_rand := rand'\<rparr>;
                       (r, l, q) = steal_loop W (unat start) num [0..<num] l q
                   in (case r of Some v \<Rightarrow> (Some v, l, q) | None \<Rightarrow> (None, release_lock l, q))
                 else (None, l, q))
          in (case r of
                Some v \<Rightarrow> Some (v, l, q)
              | None \<Rightarrow> map_option (\<lambda>(v, q). (v, l, q)) (wsq_pop I q)))"

definition pop_front :: "('i, 'a) injector_ops \<Rightarrow> ('w, 'a) worker_ops \<Rightarrow> local_queue
    \<Rightarrow> ('i, 'w) work_steal_queue
    \<Rightarrow> ('a option \<times> local_queue \<times> ('i, 'w) work_steal_queue) option" where
  "pop_front I W l q =
     (let (t, l) = do_tick l in
      if t mod 61 = 0 then
        (case wsq_pop I q of
           None \<Rightarrow> None
         | Some (Some val, q) \<Rightarrow> Some (Some val, l, q)
         | Some (None, q) \<Rightarrow> pop_local I W l q)
      else pop_local I W l q)"

text \<open>Only the position of the worker matters to the access functions.\<close>

lemma own_frame [simp]:
  "own (release_lock l) q = own l q" "own (l\<lparr>lq_stealing := b\<rparr>) q = own l q"
  "own (l\<lparr>lq_tick := t\<rparr>) q = own l q" "own (l\<lparr>lq_rand := g\<rparr>) q = own l q"
  "set_own (release_lock l) w q = set_own l w q" "set_own (l\<lparr>lq_stealing := b\<rparr>) w q = set_own l w q"
  by (simp_all add: own_def set_own_def release_lock_def)

subsection \<open>Contents and invariant\<close>

text \<open>
  Everything the queue holds, given what the two containers hold (\<open>contents\<close>, \<open>items\<close>); the
  invariant ties the counter to the global queue; a handle names an existing worker and does
  not hold its lock between calls.
\<close>

definition ws_items :: "('i \<Rightarrow> 'a list) \<Rightarrow> ('w \<Rightarrow> 'a list) \<Rightarrow> ('i, 'w) work_steal_queue \<Rightarrow> 'a multiset" where
  "ws_items contents items q =
     mset (contents (shared_queue q)) + mset (concat (map items (local_queues q)))"

definition ws_inv :: "('i \<Rightarrow> 'a list) \<Rightarrow> ('w \<Rightarrow> bool) \<Rightarrow> ('i, 'w) work_steal_queue \<Rightarrow> bool" where
  "ws_inv contents wok q \<longleftrightarrow>
     wsq_len q = length (contents (shared_queue q)) \<and> (\<forall>w \<in> set (local_queues q). wok w)"

definition handle_ok :: "local_queue \<Rightarrow> ('i, 'w) work_steal_queue \<Rightarrow> bool" where
  "handle_ok l q \<longleftrightarrow> lq_queue l < length (local_queues q) \<and> \<not> lq_stealing l"

text \<open>\<open>v\<close> was taken out between two states: nothing, or exactly one item.\<close>

definition takes :: "'a multiset \<Rightarrow> 'a option \<Rightarrow> 'a multiset \<Rightarrow> bool" where
  "takes M v M' \<longleftrightarrow> (case v of None \<Rightarrow> M' = M | Some x \<Rightarrow> M = add_mset x M')"

subsection \<open>What the containers promise\<close>

text \<open>
  \<^verbatim>\<open>Injector\<close> is a FIFO queue. \<^verbatim>\<open>Retry\<close> is answered only when the call lost a race; the
  number \<open>contention\<close> bounds how many such answers are still to come.
\<close>

locale crossbeam_injector =
  fixes I :: "('i, 'a) injector_ops"
    and contents :: "'i \<Rightarrow> 'a list"
    and contention :: "'i \<Rightarrow> nat"
  assumes contents_new: "contents (inj_new I) = []"
    and contents_push: "contents (inj_push I x i) = contents i @ [x]"
    and steal_Success: "inj_steal I i = (Success x, i') \<Longrightarrow> contents i = x # contents i'"
    and steal_Empty: "inj_steal I i = (Empty, i') \<Longrightarrow> contents i = [] \<and> contents i' = []"
    and steal_Retry: "inj_steal I i = (Retry, i') \<Longrightarrow>
           contents i' = contents i \<and> contention i' < contention i"

text \<open>\<^verbatim>\<open>Worker\<close> is a bounded FIFO queue; a successful steal moves a non-empty prefix.\<close>

locale st3_worker =
  fixes W :: "('w, 'a) worker_ops"
    and items :: "'w \<Rightarrow> 'a list"
    and wok :: "'w \<Rightarrow> bool"
  assumes new_worker: "wok (w_new W c)" "items (w_new W c) = []" "c \<le> w_capacity W (w_new W c)"
    and capacity_pos: "wok w \<Longrightarrow> 0 < w_capacity W w"
    and bounded: "wok w \<Longrightarrow> length (items w) \<le> w_capacity W w"
    and spare: "wok w \<Longrightarrow> w_spare_capacity W w = w_capacity W w - length (items w)"
    and is_empty_items: "wok w \<Longrightarrow> w_is_empty W w \<longleftrightarrow> items w = []"
    and push_keeps: "wok w \<Longrightarrow> wok (snd (w_push W x w)) \<and>
           w_capacity W (snd (w_push W x w)) = w_capacity W w"
    and push_room: "wok w \<Longrightarrow> length (items w) < w_capacity W w \<Longrightarrow>
           fst (w_push W x w) = None \<and> items (snd (w_push W x w)) = items w @ [x]"
    and push_full: "wok w \<Longrightarrow> length (items w) = w_capacity W w \<Longrightarrow>
           fst (w_push W x w) = Some x \<and> items (snd (w_push W x w)) = items w"
    and pop_keeps: "wok w \<Longrightarrow> wok (snd (w_pop W w)) \<and>
           w_capacity W (snd (w_pop W w)) = w_capacity W w"
    and pop_items: "wok w \<Longrightarrow> fst (w_pop W w) = (case items w of [] \<Rightarrow> None | x # xs \<Rightarrow> Some x) \<and>
           items (snd (w_pop W w)) = tl (items w)"
    and steal_keeps: "wok src \<Longrightarrow> wok dst \<Longrightarrow> w_steal W src dst f = (r, src', dst') \<Longrightarrow>
           wok src' \<and> wok dst' \<and> w_capacity W src' = w_capacity W src \<and>
           w_capacity W dst' = w_capacity W dst"
    and steal_Ok: "wok src \<Longrightarrow> wok dst \<Longrightarrow> w_steal W src dst f = (Ok k, src', dst') \<Longrightarrow>
           0 < k \<and> k \<le> f (length (items src)) \<and> k \<le> length (items src) \<and>
           items src' = drop k (items src) \<and> items dst' = items dst @ take k (items src)"
    and steal_not_Ok: "wok src \<Longrightarrow> wok dst \<Longrightarrow> w_steal W src dst f = (r, src', dst') \<Longrightarrow>
           \<not> is_ok r \<Longrightarrow> items src' = items src \<and> items dst' = items dst"

text \<open>With no other thread stealing at the same time, a steal with something to take succeeds.\<close>

locale st3_worker_quiet = st3_worker +
  assumes steal_succeeds: "wok src \<Longrightarrow> wok dst \<Longrightarrow> items src \<noteq> [] \<Longrightarrow>
    0 < w_spare_capacity W dst \<Longrightarrow> 0 < f (length (items src)) \<Longrightarrow> is_ok (fst (w_steal W src dst f))"

locale work_steal = crossbeam_injector I contents contention + st3_worker W items wok
  for I :: "('i, 'a) injector_ops" and contents :: "'i \<Rightarrow> 'a list" and contention :: "'i \<Rightarrow> nat"
    and W :: "('w, 'a) worker_ops" and items :: "'w \<Rightarrow> 'a list" and wok :: "'w \<Rightarrow> bool"
begin

abbreviation all_items :: "('i, 'w) work_steal_queue \<Rightarrow> 'a multiset" where
  "all_items \<equiv> ws_items contents items"

abbreviation wsq_inv :: "('i, 'w) work_steal_queue \<Rightarrow> bool" where
  "wsq_inv \<equiv> ws_inv contents wok"

abbreviation pops :: "'a option \<Rightarrow> ('i, 'w) work_steal_queue \<Rightarrow> ('i, 'w) work_steal_queue \<Rightarrow> bool" where
  "pops v q q' \<equiv> takes (all_items q) v (all_items q')"

abbreviation pop_ok :: "local_queue \<Rightarrow> ('i, 'w) work_steal_queue
    \<Rightarrow> 'a option \<Rightarrow> local_queue \<Rightarrow> ('i, 'w) work_steal_queue \<Rightarrow> bool" where
  "pop_ok l q v l' q' \<equiv> wsq_inv q' \<and> handle_ok l' q' \<and> lq_queue l' = lq_queue l \<and>
     length (local_queues q') = length (local_queues q) \<and> pops v q q'"

lemma wsq_inv_new: "wsq_inv (wsq_new I W seed n c)" "all_items (wsq_new I W seed n c) = {#}"
  by (auto simp: ws_inv_def wsq_new_def ws_items_def contents_new new_worker)

lemma wsq_push_spec:
  "wsq_inv q \<Longrightarrow> wsq_inv (wsq_push I x q)"
  "contents (shared_queue (wsq_push I x q)) = contents (shared_queue q) @ [x]"
  "local_queues (wsq_push I x q) = local_queues q"
  "all_items (wsq_push I x q) = add_mset x (all_items q)"
  by (auto simp: wsq_push_def ws_inv_def ws_items_def contents_push Let_def)

text \<open>The loop of \<open>pop\<close> returns, with the oldest item of the global queue.\<close>

lemma wsq_pop_loop_spec:
  "\<exists>i'. wsq_pop_loop I q =
     (case contents (shared_queue q) of
        [] \<Rightarrow> Some (None, q\<lparr>shared_queue := i'\<rparr>)
      | x # xs \<Rightarrow> Some (Some x, q\<lparr>shared_queue := i', wsq_len := wsq_len q - 1\<rparr>))
     \<and> contents i' = tl (contents (shared_queue q))"
proof (induction "contention (shared_queue q)" arbitrary: q rule: less_induct)
  case less
  obtain r i where st: "inj_steal I (shared_queue q) = (r, i)" by force
  show ?case
  proof (cases r)
    case Empty
    with st steal_Empty [of "shared_queue q" i] show ?thesis
      by (intro exI [of _ i]) (simp add: wsq_pop_loop.simps [of I q])
  next
    case (Success x)
    with st steal_Success [of "shared_queue q" x i] show ?thesis
      by (intro exI [of _ i]) (simp add: wsq_pop_loop.simps [of I q])
  next
    case Retry
    with st have i: "contents i = contents (shared_queue q)" "contention i < contention (shared_queue q)"
      by (auto dest: steal_Retry)
    with less [of "q\<lparr>shared_queue := i\<rparr>"] st Retry show ?thesis
      by (auto simp: wsq_pop_loop.simps [of I q] split: list.splits)
  qed
qed

lemma wsq_pop_spec:
  assumes "wsq_inv q"
  obtains v q' where "wsq_pop I q = Some (v, q')" "wsq_inv q'" "local_queues q' = local_queues q"
    "v = (case contents (shared_queue q) of [] \<Rightarrow> None | x # xs \<Rightarrow> Some x)"
    "contents (shared_queue q') = tl (contents (shared_queue q))"
proof (cases "wsq_len q = 0")
  case True
  with assms have "contents (shared_queue q) = []" by (simp add: ws_inv_def)
  with True assms show thesis by (intro that [of None q]) (auto simp: wsq_pop_def wsq_is_empty_def)
next
  case False
  then obtain x xs where c: "contents (shared_queue q) = x # xs"
    using assms by (cases "contents (shared_queue q)") (auto simp: ws_inv_def)
  obtain i' where "wsq_pop_loop I q = Some (Some x, q\<lparr>shared_queue := i', wsq_len := wsq_len q - 1\<rparr>)"
    "contents i' = xs"
    using wsq_pop_loop_spec [of q] c by auto
  with False assms c show thesis
    by (intro that [of "Some x" "q\<lparr>shared_queue := i', wsq_len := wsq_len q - 1\<rparr>"]) (auto simp: wsq_pop_def wsq_is_empty_def ws_inv_def)
qed

lemma set_own_spec:
  assumes "lq_queue l < length (local_queues q)"
  shows "own l (set_own l w q) = w"
    "all_items (set_own l w q) + mset (items (own l q)) = all_items q + mset (items w)"
    "wsq_inv q \<Longrightarrow> wok w \<Longrightarrow> wsq_inv (set_own l w q)"
    "length (local_queues (set_own l w q)) = length (local_queues q)"
    "shared_queue (set_own l w q) = shared_queue q"
  using assms mset_concat_update [of "lq_queue l" "local_queues q" items w]
  by (auto simp: set_own_def own_def ws_items_def ws_inv_def ac_simps
      dest: set_update_subset_insert [THEN subsetD])

lemma wok_own: "wsq_inv q \<Longrightarrow> lq_queue l < length (local_queues q) \<Longrightarrow> wok (own l q)"
  by (simp add: ws_inv_def own_def)

lemma lq_len_items:
  "wsq_inv q \<Longrightarrow> lq_queue l < length (local_queues q) \<Longrightarrow> lq_len W l q = length (items (own l q))"
  using wok_own [of q l] bounded [of "own l q"] by (simp add: lq_len_def spare)

text \<open>Moving \<open>n\<close> items of the local queue to the global one keeps their order.\<close>

lemma push_half_spec:
  assumes "wsq_inv q" "lq_queue l < length (local_queues q)" "n \<le> length (items (own l q))"
  shows "wsq_inv (push_half I W l n q) \<and>
    length (local_queues (push_half I W l n q)) = length (local_queues q) \<and>
    items (own l (push_half I W l n q)) = drop n (items (own l q)) \<and>
    w_capacity W (own l (push_half I W l n q)) = w_capacity W (own l q) \<and>
    contents (shared_queue (push_half I W l n q)) =
       contents (shared_queue q) @ take n (items (own l q)) \<and>
    all_items (push_half I W l n q) = all_items q"
  using assms
proof (induction n arbitrary: q)
  case (Suc n)
  obtain x xs where xs: "items (own l q) = x # xs" "n \<le> length xs"
    using Suc.prems(3) by (cases "items (own l q)") auto
  obtain w where w: "w_pop W (own l q) = (Some x, w)" "items w = xs" "wok w"
    "w_capacity W w = w_capacity W (own l q)"
    using pop_items [OF wok_own, of q l] pop_keeps [OF wok_own, of q l] Suc.prems(1,2) xs
    by (cases "w_pop W (own l q)") auto
  define q1 where "q1 = wsq_push I x (set_own l w q)"
  note so = set_own_spec [OF Suc.prems(2), of w]
  have q1: "wsq_inv q1" "length (local_queues q1) = length (local_queues q)" "own l q1 = w"
    "contents (shared_queue q1) = contents (shared_queue q) @ [x]" "all_items q1 = all_items q"
    using so w xs Suc.prems(1) wsq_push_spec [where q = "set_own l w q" and x = x]
    by (auto simp: q1_def own_def)
  have eq: "push_half I W l (Suc n) q = push_half I W l n q1"
    using w by (simp add: q1_def)
  show ?case unfolding eq using Suc.IH [of q1] q1 w xs Suc.prems by simp
qed simp

text \<open>
  \<open>push_back\<close> on each branch: room in the worker, or half of a full worker and then the item
  moved behind the global queue.
\<close>

lemma push_back_room:
  assumes "wsq_inv q" "handle_ok l q" "length (items (own l q)) < w_capacity W (own l q)"
  shows "wsq_inv (push_back I W x l q) \<and> handle_ok l (push_back I W x l q) \<and>
    items (own l (push_back I W x l q)) = items (own l q) @ [x] \<and>
    contents (shared_queue (push_back I W x l q)) = contents (shared_queue q) \<and>
    all_items (push_back I W x l q) = add_mset x (all_items q)"
proof -
  from assms(2) have h: "lq_queue l < length (local_queues q)" by (simp add: handle_ok_def)
  note ok = wok_own [OF assms(1) h]
  obtain w where w: "w_push W x (own l q) = (None, w)" "items w = items (own l q) @ [x]" "wok w"
    using push_room [OF ok assms(3), of x] push_keeps [OF ok, of x]
    by (cases "w_push W x (own l q)") auto
  then show ?thesis
    using set_own_spec [OF h, of w] assms(1,2) by (simp add: push_back_def handle_ok_def)
qed

lemma push_back_full:
  assumes "wsq_inv q" "handle_ok l q" "length (items (own l q)) = w_capacity W (own l q)"
  defines "half \<equiv> length (items (own l q)) div 2"
  shows "wsq_inv (push_back I W x l q) \<and> handle_ok l (push_back I W x l q) \<and>
    items (own l (push_back I W x l q)) = drop half (items (own l q)) \<and>
    contents (shared_queue (push_back I W x l q)) =
      contents (shared_queue q) @ take half (items (own l q)) @ [x] \<and>
    all_items (push_back I W x l q) = add_mset x (all_items q)"
proof -
  from assms(2) have h: "lq_queue l < length (local_queues q)" by (simp add: handle_ok_def)
  note ok = wok_own [OF assms(1) h]
  obtain w where w: "w_push W x (own l q) = (Some x, w)" "items w = items (own l q)" "wok w"
    using push_full [OF ok assms(3), of x] push_keeps [OF ok, of x]
    by (cases "w_push W x (own l q)") auto
  define q1 where "q1 = set_own l w q"
  have q1: "wsq_inv q1" "lq_queue l < length (local_queues q1)" "items (own l q1) = items (own l q)"
    "shared_queue q1 = shared_queue q" "all_items q1 = all_items q"
    using set_own_spec [OF h, of w] w assms(1) h by (simp_all add: q1_def)
  have eq: "push_back I W x l q = wsq_push I x (push_half I W l half q1)"
    using w q1 lq_len_items [OF q1(1,2)] by (simp add: push_back_def q1_def half_def)
  show ?thesis
    using push_half_spec [OF q1(1,2), of half] q1 wsq_push_spec [where q = "push_half I W l half q1" and x = x]
      assms(2) by (simp add: eq half_def handle_ok_def own_def)
qed

text \<open>
  Stealing. The guard that compares addresses never holds, so the loop also looks at the
  thief's own worker; that worker is empty, which is what skips it.
\<close>

lemma steal_move:
  assumes inv: "wsq_inv q" and h: "lq_queue l < length (local_queues q)"
    and i: "i < length (local_queues q)" "i \<noteq> lq_queue l"
    and st: "w_steal W (local_queues q ! i) (own l q) f = (r, a, s)"
  defines "q' \<equiv> set_own l s (q\<lparr>local_queues := (local_queues q)[i := a]\<rparr>)"
  shows "wsq_inv q'" "own l q' = s" "length (local_queues q') = length (local_queues q)"
    "shared_queue q' = shared_queue q"
    "mset (items a) + mset (items s) = mset (items (local_queues q ! i)) + mset (items (own l q))
       \<Longrightarrow> all_items q' = all_items q"
    "items a = items (local_queues q ! i) \<Longrightarrow> items s = items (own l q)
       \<Longrightarrow> map items (local_queues q') = map items (local_queues q)"
proof -
  let ?ws = "local_queues q" let ?j = "lq_queue l"
  have oks: "wok (?ws ! i)" "wok (own l q)" using inv i(1) wok_own [OF inv h] by (auto simp: ws_inv_def)
  have a: "wok a" "wok s" using steal_keeps [OF oks st] by auto
  show "wsq_inv q'" using inv a
    by (auto simp: q'_def set_own_def ws_inv_def dest!: set_update_subset_insert [THEN subsetD])
  show "own l q' = s" using h by (simp add: q'_def own_def set_own_def)
  show "length (local_queues q') = length ?ws" "shared_queue q' = shared_queue q"
    by (simp_all add: q'_def set_own_def)
  show "all_items q' = all_items q"
    if "mset (items a) + mset (items s) = mset (items (?ws ! i)) + mset (items (own l q))"
  proof -
    have 1: "mset (concat (map items (?ws[i := a]))) + mset (items (?ws ! i)) =
        mset (concat (map items ?ws)) + mset (items a)"
      by (rule mset_concat_update [OF i(1)])
    have 2: "mset (concat (map items (?ws[i := a, ?j := s]))) + mset (items (own l q)) =
        mset (concat (map items (?ws[i := a]))) + mset (items s)"
      using mset_concat_update [of ?j "?ws[i := a]" items s] h i(2) by (simp add: own_def)
    have "mset (concat (map items (?ws[i := a, ?j := s]))) = mset (concat (map items ?ws))"
    proof (rule add_right_imp_eq)
      have "mset (concat (map items (?ws[i := a, ?j := s]))) +
          (mset (items (?ws ! i)) + mset (items (own l q))) =
          mset (concat (map items (?ws[i := a]))) + mset (items (?ws ! i)) + mset (items s)"
        using 2 by (metis add.assoc add.commute)
      also have "\<dots> = mset (concat (map items ?ws)) + (mset (items a) + mset (items s))"
        using 1 by (simp add: ac_simps)
      finally show "mset (concat (map items (?ws[i := a, ?j := s]))) +
          (mset (items (?ws ! i)) + mset (items (own l q))) =
          mset (concat (map items ?ws)) + (mset (items (?ws ! i)) + mset (items (own l q)))"
        using that by simp
    qed
    then show ?thesis by (simp add: q'_def set_own_def ws_items_def)
  qed
  show "map items (local_queues q') = map items ?ws"
    if "items a = items (?ws ! i)" "items s = items (own l q)"
    using that i(2) by (simp add: q'_def set_own_def own_def map_update_same)
qed

text \<open>Popping from the own worker when it holds an item.\<close>

lemma own_pop_takes:
  assumes "wsq_inv q" "lq_queue l < length (local_queues q)" "items (own l q) \<noteq> []"
  shows "\<exists>x w. w_pop W (own l q) = (Some x, w) \<and> wsq_inv (set_own l w q) \<and> all_items q = add_mset x (all_items (set_own l w q))"
proof -
  obtain x xs where xs: "items (own l q) = x # xs" using assms(3) by (cases "items (own l q)") auto
  let ?w = "snd (w_pop W (own l q))"
  have wok: "wok (own l q)" by (rule wok_own [OF assms(1,2)])
  have w: "w_pop W (own l q) = (Some x, ?w)" "items ?w = xs" "wok ?w"
    using xs wok pop_items [of "own l q"] pop_keeps [of "own l q"] by (simp_all add: prod_eq_iff)
  note so = set_own_spec [OF assms(2), of ?w]
  have "all_items (set_own l ?w q) + mset (items (own l q)) = all_items q + mset xs" using so(2) w by simp
  then have "all_items q = add_mset x (all_items (set_own l ?w q))" by (simp add: xs)
  with w so assms(1) show ?thesis by blast
qed

lemma steal_loop_spec:
  assumes "wsq_inv q" "lq_queue l < length (local_queues q)" "items (own l q) = []"
    "steal_loop W st num ks l q = (r, l', q')"
  shows "wsq_inv q' \<and> lq_queue l' = lq_queue l \<and> lq_tick l' = lq_tick l \<and>
    length (local_queues q') = length (local_queues q) \<and> shared_queue q' = shared_queue q \<and>
    (case r of
       None \<Rightarrow> l' = l \<and> map items (local_queues q') = map items (local_queues q)
     | Some v \<Rightarrow> \<not> lq_stealing l' \<and> v \<noteq> None \<and> pops v q q')"
  using assms
proof (induction ks arbitrary: q)
  case (Cons k ks)
  let ?i = "(st + k) mod num" let ?ws = "local_queues q"
  note inv = Cons.prems(1) and h = Cons.prems(2) and emp = Cons.prems(3) and run = Cons.prems(4)
  show ?case
  proof (cases "?i < length ?ws \<and> \<not> w_is_empty W (?ws ! ?i) \<and> w_spare_capacity W (own l q) \<noteq> 0")
    case False
    then have "steal_loop W st num ks l q = (r, l', q')"
      using run by (auto simp: Let_def std_ptr_eq_def split: if_splits)
    then show ?thesis by (rule Cons.IH [OF inv h emp])
  next
    case True
    then have wok: "wok (?ws ! ?i)" using inv by (simp add: ws_inv_def)
    with True have ne: "items (?ws ! ?i) \<noteq> []" by (simp add: is_empty_items)
    with emp have i: "?i < length ?ws" "?i \<noteq> lq_queue l" using True by (auto simp: own_def)
    obtain r1 a s where st: "w_steal W (?ws ! ?i) (own l q) (steal_count W (own l q) (?ws ! ?i)) = (r1, a, s)"
      by (metis prod_cases3)
    define q1 where "q1 = set_own l s (q\<lparr>local_queues := ?ws[?i := a]\<rparr>)"
    note mv = steal_move [OF inv h i st, folded q1_def]
    show ?thesis
    proof (cases "is_ok r1")
      case False
      then have its: "items a = items (?ws ! ?i)" "items s = items (own l q)"
        using steal_not_Ok [OF wok wok_own [OF inv h] st] by auto
      have "steal_loop W st num ks l q1 = (r, l', q')"
        using run True st False
        by (auto simp: Let_def std_ptr_eq_def q1_def split: outcome.splits)
      moreover have "map items (local_queues q1) = map items ?ws" "all_items q1 = all_items q"
        using mv(5,6) its by auto
      ultimately show ?thesis
        using Cons.IH [of q1] mv(1-4) h emp its by (simp add: takes_def split: option.splits)
    next
      case True
      then obtain n where n: "r1 = Ok n" by blast
      note ok = steal_Ok [OF wok wok_own [OF inv h] st [unfolded n]]
      have "items s \<noteq> []" using ok emp ne by simp
      moreover have h1: "lq_queue l < length (local_queues q1)" using h mv(3) by simp
      moreover have "own l q1 = s" by (rule mv(2))
      ultimately obtain x w where x: "w_pop W s = (Some x, w)" "wsq_inv (set_own l w q1)"
        "all_items q1 = add_mset x (all_items (set_own l w q1))"
        using own_pop_takes [OF mv(1) h1] by auto
      have run': "q' = set_own l w q1" "r = Some (Some x)" "l' = release_lock l"
        using run \<open>?i < length ?ws \<and> _\<close> st n x(1) mv(2)
        by (auto simp: Let_def std_ptr_eq_def q1_def [symmetric] split: prod.splits)
      have "all_items q1 = all_items q"
        using ok emp mv(5) by (metis append_Nil append_take_drop_id add.commute mset_append)
      with run' x(2,3) mv(3,4) set_own_spec [OF h1, of w] show ?thesis
        by (simp add: release_lock_def takes_def)
    qed
  qed
qed simp

text \<open>When the own worker is empty, \<open>pop_local\<close> runs the stealing loop under the lock and falls
  back on the global queue.\<close>

lemma pop_local_Nil:
  assumes inv: "wsq_inv q" and h: "handle_ok l q" and emp: "items (own l q) = []"
  obtains st q1 l2 r l3 q3 where
    "steal_loop W st (length (local_queues q)) [0..<length (local_queues q)] l2 q1 = (r, l3, q3)"
    "pop_local I W l q = (case r of Some v \<Rightarrow> Some (v, l3, q3)
       | None \<Rightarrow> map_option (\<lambda>(v, q). (v, release_lock l3, q)) (wsq_pop I q3))"
    "wsq_inv q1" "lq_queue l2 = lq_queue l" "lq_tick l2 = lq_tick l"
    "map items (local_queues q1) = map items (local_queues q)" "shared_queue q1 = shared_queue q"
    "items (own l2 q1) = []" "w_capacity W (own l2 q1) = w_capacity W (own l q)"
proof -
  from h have hq: "lq_queue l < length (local_queues q)" by (simp add: handle_ok_def)
  note ok = wok_own [OF inv hq]
  obtain v0 w where w: "w_pop W (own l q) = (v0, w)" by force
  have wp: "v0 = None" "items w = []" "wok w" "w_capacity W w = w_capacity W (own l q)"
    using pop_items [OF ok] pop_keeps [OF ok] w emp by auto
  define q1 where "q1 = set_own l w q"
  note q1 = set_own_spec [OF hq, of w, folded q1_def]
  define l1 where "l1 = l\<lparr>lq_stealing := True\<rparr>"
  obtain start g where g: "fastrand_n (of_nat (length (local_queues q))) (lq_rand l1) = (start, g)" by force
  define l2 where "l2 = l1\<lparr>lq_rand := g\<rparr>"
  obtain r l3 q3 where sl: "steal_loop W (unat start) (length (local_queues q))
      [0..<length (local_queues q)] l2 q1 = (r, l3, q3)"
    by (metis prod_cases3)
  have "try_lock l = (True, l1)" using h by (simp add: try_lock_def l1_def handle_ok_def)
  then have "pop_local I W l q = (case r of Some v \<Rightarrow> Some (v, l3, q3)
      | None \<Rightarrow> map_option (\<lambda>(v, q). (v, release_lock l3, q)) (wsq_pop I q3))"
    using w wp g sl q1(4) by (simp add: pop_local_def q1_def Let_def l2_def split: option.splits)
  moreover have "map items (local_queues q1) = map items (local_queues q)"
    using wp emp by (simp add: q1_def set_own_def own_def map_update_same)
  ultimately show thesis
    by (intro that [OF sl]) (use q1 wp inv in \<open>auto simp: l2_def l1_def\<close>)
qed

lemma pop_local_spec:
  assumes inv: "wsq_inv q" and h: "handle_ok l q"
  shows "\<exists>v l' q'. pop_local I W l q = Some (v, l', q') \<and> pop_ok l q v l' q' \<and> lq_tick l' = lq_tick l"
proof (cases "items (own l q)")
  case (Cons x xs)
  from h have hq: "lq_queue l < length (local_queues q)" by (simp add: handle_ok_def)
  note ok = wok_own [OF inv hq]
  obtain w where w: "w_pop W (own l q) = (Some x, w)" "items w = xs" "wok w"
    using pop_items [OF ok] pop_keeps [OF ok] Cons by (cases "w_pop W (own l q)") auto
  with set_own_spec [OF hq, of w] Cons inv h show ?thesis
    by (auto simp: pop_local_def handle_ok_def takes_def)
next
  case Nil
  from h have hq: "lq_queue l < length (local_queues q)" by (simp add: handle_ok_def)
  obtain st q1 l2 r l3 q3 where sl:
    "steal_loop W st (length (local_queues q)) [0..<length (local_queues q)] l2 q1 = (r, l3, q3)"
    and run: "pop_local I W l q = (case r of Some v \<Rightarrow> Some (v, l3, q3)
       | None \<Rightarrow> map_option (\<lambda>(v, q). (v, release_lock l3, q)) (wsq_pop I q3))"
    and q1: "wsq_inv q1" "lq_queue l2 = lq_queue l" "lq_tick l2 = lq_tick l"
      "map items (local_queues q1) = map items (local_queues q)" "shared_queue q1 = shared_queue q"
      "items (own l2 q1) = []" "w_capacity W (own l2 q1) = w_capacity W (own l q)"
    by (rule pop_local_Nil [OF inv h Nil])
  have len1: "length (local_queues q1) = length (local_queues q)"
    using q1(4) by (metis length_map)
  have tot: "all_items q1 = all_items q" using q1(4,5) by (simp add: ws_items_def)
  note sp = steal_loop_spec [OF q1(1) _ q1(6) sl]
  show ?thesis
  proof (cases r)
    case (Some v)
    with run sp q1 tot hq len1 show ?thesis by (auto simp: handle_ok_def takes_def)
  next
    case None
    with sp q1 hq len1 have sp': "wsq_inv q3" "l3 = l2" "length (local_queues q3) = length (local_queues q)"
      "all_items q3 = all_items q"
      using tot by (auto simp: ws_items_def)
    obtain v q4 where p: "wsq_pop I q3 = Some (v, q4)" "wsq_inv q4" "local_queues q4 = local_queues q3"
      "v = (case contents (shared_queue q3) of [] \<Rightarrow> None | x # xs \<Rightarrow> Some x)"
      "contents (shared_queue q4) = tl (contents (shared_queue q3))"
      using wsq_pop_spec sp'(1) by blast
    have "pops v q3 q4" using p(3-5) by (auto simp: takes_def ws_items_def split: list.splits)
    with p(1-3) None run sp' q1 hq show ?thesis
      by (auto simp: handle_ok_def takes_def release_lock_def split: option.splits)
  qed
qed

lemma do_tick_spec:
  assumes "do_tick l = (t, l')"
  shows "t = lq_tick l + 1" "l' = l\<lparr>lq_tick := lq_tick l + 1\<rparr>"
  using assms by (auto simp: do_tick_def Let_def split: if_splits)

lemma pop_front_spec:
  assumes inv: "wsq_inv q" and h: "handle_ok l q"
  shows "\<exists>v l' q'. pop_front I W l q = Some (v, l', q') \<and> pop_ok l q v l' q' \<and>
    lq_tick l' = lq_tick l + 1"
proof -
  define l1 where "l1 = l\<lparr>lq_tick := lq_tick l + 1\<rparr>"
  have t: "do_tick l = (lq_tick l + 1, l1)"
    using do_tick_spec [of l] by (cases "do_tick l") (auto simp: l1_def)
  have h1: "handle_ok l1 q" using h by (simp add: handle_ok_def l1_def)
  note loc = pop_local_spec [OF inv h1]
  have via_local: ?thesis if "pop_front I W l q = pop_local I W l1 q"
    using loc that by (auto simp: l1_def)
  obtain v q4 where p: "wsq_pop I q = Some (v, q4)" "wsq_inv q4" "local_queues q4 = local_queues q"
    "v = (case contents (shared_queue q) of [] \<Rightarrow> None | x # xs \<Rightarrow> Some x)"
    "contents (shared_queue q4) = tl (contents (shared_queue q))"
    using wsq_pop_spec inv by blast
  show ?thesis
  proof (cases "(lq_tick l + 1) mod 61 = 0")
    case False
    with t show ?thesis by (intro via_local) (simp add: pop_front_def)
  next
    case True
    have h4: "handle_ok l1 q4" using h1 p(3) by (simp add: handle_ok_def)
    show ?thesis
    proof (cases v)
      case (Some x)
      with p have "pops v q q4" by (auto simp: takes_def ws_items_def split: list.splits)
      with Some p True t h4 show ?thesis
        by (simp add: pop_front_def l1_def)
    next
      case None
      with p(4) have nil: "contents (shared_queue q) = []" by (simp split: list.splits)
      have "all_items q4 = all_items q" using p(3,5) nil by (simp add: ws_items_def)
      moreover have "pop_front I W l q = pop_local I W l1 q4" using None p t True by (simp add: pop_front_def)
      ultimately show ?thesis
        using pop_local_spec [OF p(2) h4] p(3)
        by (auto simp: takes_def l1_def split: option.splits)
    qed
  qed
qed

text \<open>Every 61st call looks at the global queue first, the others at the own worker.\<close>

lemma pop_front_global_turn:
  assumes "wsq_inv q" "(lq_tick l + 1) mod 61 = 0" "contents (shared_queue q) = x # xs"
  shows "\<exists>l' q'. pop_front I W l q = Some (Some x, l', q') \<and> local_queues q' = local_queues q
    \<and> contents (shared_queue q') = xs"
proof -
  obtain l1 where t: "do_tick l = (lq_tick l + 1, l1)"
    using do_tick_spec [of l] by (cases "do_tick l") auto
  show ?thesis
    by (rule wsq_pop_spec [OF assms(1)]) (use assms(2,3) t in \<open>auto simp: pop_front_def\<close>)
qed

lemma pop_front_own_turn:
  assumes inv: "wsq_inv q" and h: "handle_ok l q" and own: "items (own l q) = x # xs"
    and turn: "(lq_tick l + 1) mod 61 \<noteq> 0"
  shows "\<exists>l' q'. pop_front I W l q = Some (Some x, l', q') \<and> items (own l' q') = xs
    \<and> shared_queue q' = shared_queue q"
proof -
  from h have hq: "lq_queue l < length (local_queues q)" by (simp add: handle_ok_def)
  define l1 where "l1 = l\<lparr>lq_tick := lq_tick l + 1\<rparr>"
  have t: "do_tick l = (lq_tick l + 1, l1)" "own l1 q = own l q" "lq_queue l1 < length (local_queues q)"
    using do_tick_spec [of l] hq by (cases "do_tick l"; auto simp: l1_def)+
  obtain w where w: "w_pop W (own l1 q) = (Some x, w)" "items w = xs"
    using pop_items [OF wok_own [OF inv hq]] own t(2) by (cases "w_pop W (own l1 q)") auto
  then have "pop_front I W l q = Some (Some x, l1, set_own l1 w q)"
    using turn t(1) by (simp add: pop_front_def pop_local_def)
  with w set_own_spec [OF t(3), of w] show ?thesis by auto
qed

end

locale work_steal_quiet = work_steal I contents contention W items wok + st3_worker_quiet W items wok
  for I :: "('i, 'a) injector_ops" and contents :: "'i \<Rightarrow> 'a list" and contention :: "'i \<Rightarrow> nat"
    and W :: "('w, 'a) worker_ops" and items :: "'w \<Rightarrow> 'a list" and wok :: "'w \<Rightarrow> bool"
begin

lemma steal_count_pos:
  assumes "wok src" "items src \<noteq> []" "0 < w_spare_capacity W dst"
  shows "0 < steal_count W dst src (length (items src))"
proof -
  have "w_capacity W src - w_spare_capacity W src = length (items src)"
    using assms(1) bounded [of src] by (simp add: spare)
  with assms show ?thesis by (simp add: steal_count_def)
qed

lemma steal_loop_None:
  assumes "wsq_inv q" "lq_queue l < length (local_queues q)" "items (own l q) = []"
    "0 < w_capacity W (own l q)" "steal_loop W st num ks l q = (None, l', q')" "k \<in> set ks"
    "(st + k) mod num < length (local_queues q)"
  shows "items (local_queues q ! ((st + k) mod num)) = []"
  using assms
proof (induction ks)
  case (Cons k' ks)
  let ?i = "(st + k') mod num" let ?ws = "local_queues q"
  have ok: "wok (own l q)" using wok_own Cons.prems(1,2) by simp
  then have room: "0 < w_spare_capacity W (own l q)" using Cons.prems(3,4) by (simp add: spare)
  have emp: "items (?ws ! ?i) = []" if i: "?i < length ?ws"
  proof (rule ccontr)
    assume ne: "items (?ws ! ?i) \<noteq> []"
    have w: "wok (?ws ! ?i)" using Cons.prems(1) i by (simp add: ws_inv_def)
    have "is_ok (fst (w_steal W (?ws ! ?i) (own l q) (steal_count W (own l q) (?ws ! ?i))))"
      by (rule steal_succeeds [OF w ok ne room]) (rule steal_count_pos [OF w ne room])
    with Cons.prems(5) i ne w room show False
      by (auto simp: Let_def std_ptr_eq_def is_empty_items split: prod.splits)
  qed
  then have "steal_loop W st num ks l q = (None, l', q')"
    using Cons.prems(1,5) by (auto simp: Let_def std_ptr_eq_def is_empty_items ws_inv_def split: if_splits)
  with Cons emp show ?case by (cases "k = k'") auto
qed simp

text \<open>Giving up means that there was nothing anywhere.\<close>

lemma pop_local_None:
  assumes inv: "wsq_inv q" and h: "handle_ok l q" and cap: "0 < w_capacity W (own l q)"
    and none: "pop_local I W l q = Some (None, l', q')"
  shows "all_items q = {#}"
proof -
  from h have hq: "lq_queue l < length (local_queues q)" by (simp add: handle_ok_def)
  have emp: "items (own l q) = []"
  proof (rule ccontr)
    assume "items (own l q) \<noteq> []"
    then have "fst (w_pop W (own l q)) \<noteq> None"
      using pop_items [OF wok_own [OF inv hq]] by (cases "items (own l q)") auto
    with none show False by (auto simp: pop_local_def split: prod.splits option.splits)
  qed
  obtain st q1 l2 r l3 q3 where sl:
    "steal_loop W st (length (local_queues q)) [0..<length (local_queues q)] l2 q1 = (r, l3, q3)"
    and run: "pop_local I W l q = (case r of Some v \<Rightarrow> Some (v, l3, q3)
       | None \<Rightarrow> map_option (\<lambda>(v, q). (v, release_lock l3, q)) (wsq_pop I q3))"
    and q1: "wsq_inv q1" "lq_queue l2 = lq_queue l" "lq_tick l2 = lq_tick l"
      "map items (local_queues q1) = map items (local_queues q)" "shared_queue q1 = shared_queue q"
      "items (own l2 q1) = []" "w_capacity W (own l2 q1) = w_capacity W (own l q)"
    by (rule pop_local_Nil [OF inv h emp])
  have len1: "length (local_queues q1) = length (local_queues q)" using q1(4) by (metis length_map)
  have sp: "wsq_inv q3 \<and> (case r of None \<Rightarrow> shared_queue q3 = shared_queue q1 | Some v \<Rightarrow> v \<noteq> None)"
    using steal_loop_spec [OF q1(1) _ q1(6) sl] q1(2) hq len1 by (auto split: option.splits)
  with run none have r: "r = None" by (auto split: option.splits)
  have "items (local_queues q ! i) = []" if i: "i < length (local_queues q)" for i
  proof -
    obtain k where k: "k < length (local_queues q)" "(st + k) mod length (local_queues q) = i"
      using round_robin_covers [OF i] by blast
    have "items (local_queues q1 ! i) = []"
      using steal_loop_None [OF q1(1) _ q1(6) _ sl [unfolded r], of k] k q1(2,7) cap hq len1 i by auto
    with q1(4) i len1 show ?thesis by (metis nth_map)
  qed
  then have locals: "concat (map items (local_queues q)) = []" by (auto simp: in_set_conv_nth)
  obtain v q4 where p: "wsq_pop I q3 = Some (v, q4)"
    "v = (case contents (shared_queue q3) of [] \<Rightarrow> None | x # xs \<Rightarrow> Some x)"
    using wsq_pop_spec sp by blast
  with run none r have "v = None" by simp
  with p(2) have "contents (shared_queue q3) = []" by (simp split: list.splits)
  with sp r q1(5) locals show ?thesis by (simp add: ws_items_def)
qed

lemma pop_front_None:
  assumes inv: "wsq_inv q" and h: "handle_ok l q" and cap: "0 < w_capacity W (own l q)"
    and none: "pop_front I W l q = Some (None, l', q')"
  shows "all_items q = {#}"
proof -
  define l1 where "l1 = l\<lparr>lq_tick := lq_tick l + 1\<rparr>"
  have t: "do_tick l = (lq_tick l + 1, l1)"
    using do_tick_spec [of l] by (cases "do_tick l") (auto simp: l1_def)
  have h1: "handle_ok l1 q" "own l1 q = own l q" using h by (simp_all add: handle_ok_def l1_def)
  obtain v q4 where p: "wsq_pop I q = Some (v, q4)" "wsq_inv q4" "local_queues q4 = local_queues q"
    "v = (case contents (shared_queue q) of [] \<Rightarrow> None | x # xs \<Rightarrow> Some x)"
    "contents (shared_queue q4) = tl (contents (shared_queue q))"
    using wsq_pop_spec inv by blast
  show ?thesis
  proof (cases "(lq_tick l + 1) mod 61 = 0")
    case False
    with none t have "pop_local I W l1 q = Some (None, l', q')" by (simp add: pop_front_def)
    then show ?thesis by (rule pop_local_None [OF inv h1(1)  cap [folded h1(2)]])
  next
    case True
    with none t p(1) have v: "v = None" and loc: "pop_local I W l1 q4 = Some (None, l', q')"
      by (auto simp: pop_front_def split: option.splits)
    from v p(4) have "contents (shared_queue q) = []" by (simp split: list.splits)
    moreover have "all_items q4 = {#}"
      using pop_local_None [OF p(2) _ _ loc] p(3) h1 cap by (simp add: handle_ok_def own_def)
    ultimately show ?thesis using p(3,5) by (simp add: ws_items_def)
  qed
qed

end

end
