(* ===== verification/QueueContract.thy ===== *)
theory QueueContract
  imports WorkSteal
begin

text \<open>
  What a client of a local queue may rely on, as the locale \<open>ready_queue\<close>; the work stealing
  queue provides it over every pair of containers that keep their documentation. Two
  list-based containers show that such a pair exists. The claims about the queue close the theory.
\<close>

record ('q, 'c) queue_ops =
  q_push_back :: "'c \<Rightarrow> 'q \<Rightarrow> 'q"
  q_pop_front :: "'q \<Rightarrow> ('c option \<times> 'q) option"
  q_len :: "'q \<Rightarrow> nat"
  q_is_empty :: "'q \<Rightarrow> bool"

locale ready_queue =
  fixes Q :: "('q, 'c) queue_ops"
    and q_items :: "'q \<Rightarrow> 'c multiset"
    and q_inv :: "'q \<Rightarrow> bool"
  assumes push_inv: "q_inv q \<Longrightarrow> q_inv (q_push_back Q c q)"
    and push_items: "q_inv q \<Longrightarrow> q_items (q_push_back Q c q) = add_mset c (q_items q)"
    and pop_spec: "q_inv q \<Longrightarrow>
      \<exists>v q'. q_pop_front Q q = Some (v, q') \<and> q_inv q' \<and> takes (q_items q) v (q_items q')"
begin

lemma pop_Some:
  assumes "q_inv q" "q_pop_front Q q = Some (Some c, q')"
  shows "q_inv q'" "q_items q = add_mset c (q_items q')"
  using pop_spec [OF assms(1)] assms(2) by (auto simp: takes_def)

lemma pop_None:
  assumes "q_inv q" "q_pop_front Q q = Some (None, q')"
  shows "q_inv q'" "q_items q' = q_items q"
  using pop_spec [OF assms(1)] assms(2) by (auto simp: takes_def)

lemma pop_returns: "q_inv q \<Longrightarrow> q_pop_front Q q \<noteq> None"
  using pop_spec by force

lemma push_all_items:
  "q_inv q \<Longrightarrow> q_inv (fold (q_push_back Q) cs q) \<and>
     q_items (fold (q_push_back Q) cs q) = q_items q + mset cs"
  by (induction cs arbitrary: q) (auto simp: push_inv push_items)

end

text \<open>A queue nobody else works on gives up only when it is empty.\<close>

locale ready_queue_quiet = ready_queue +
  assumes gives_up: "q_inv q \<Longrightarrow> q_pop_front Q q = Some (None, q') \<Longrightarrow> q_items q = {#}"
begin

lemma pop_finds:
  assumes "q_inv q" "q_items q \<noteq> {#}"
  shows "\<exists>c q'. q_pop_front Q q = Some (Some c, q')"
proof -
  obtain v q' where v: "q_pop_front Q q = Some (v, q')" using pop_spec [OF assms(1)] by blast
  with gives_up [OF assms(1)] assms(2) show ?thesis by (cases v) auto
qed

end

text \<open>The queue of a scheduler: the handle and the shared queue it refers to.\<close>

definition ws_queue_ops :: "('i, 'c) injector_ops \<Rightarrow> ('w, 'c) worker_ops
    \<Rightarrow> (local_queue \<times> ('i, 'w) work_steal_queue, 'c) queue_ops" where
  "ws_queue_ops I W =
     \<lparr>q_push_back = (\<lambda>c (l, q). (l, push_back I W c l q)),
      q_pop_front = (\<lambda>(l, q). pop_front I W l q),
      q_len = (\<lambda>(l, q). lq_len W l q),
      q_is_empty = (\<lambda>(l, q). lq_is_empty W l q)\<rparr>"

context work_steal
begin

lemma push_back_spec:
  assumes "wsq_inv q" "handle_ok l q"
  shows "wsq_inv (push_back I W x l q)" "handle_ok l (push_back I W x l q)"
    "all_items (push_back I W x l q) = add_mset x (all_items q)"
proof -
  have "length (items (own l q)) \<le> w_capacity W (own l q)"
    using assms wok_own [of q l] by (intro bounded) (simp add: handle_ok_def)
  then consider "length (items (own l q)) < w_capacity W (own l q)"
    | "length (items (own l q)) = w_capacity W (own l q)" by linarith
  then show "wsq_inv (push_back I W x l q)" "handle_ok l (push_back I W x l q)"
    "all_items (push_back I W x l q) = add_mset x (all_items q)"
    using push_back_room [OF assms, of x] push_back_full [OF assms, of x] by (metis (no_types))+
qed

end

sublocale work_steal \<subseteq> rq: ready_queue "ws_queue_ops I W" "\<lambda>(l, q). all_items q"
  "\<lambda>(l, q). wsq_inv q \<and> handle_ok l q"
proof (unfold_locales, goal_cases)
  case (1 lq c)
  then show ?case by (auto simp: ws_queue_ops_def push_back_spec)
next
  case (2 lq c)
  then show ?case by (auto simp: ws_queue_ops_def push_back_spec)
next
  case (3 lq)
  then show ?case using pop_front_spec by (fastforce simp: ws_queue_ops_def)
qed

context work_steal_quiet
begin

lemma pop_front_gives_up:
  assumes "wsq_inv q" "handle_ok l q" "pop_front I W l q = Some (None, l', q')"
  shows "all_items q = {#}"
  using pop_front_None [OF assms(1,2) _ assms(3)] capacity_pos wok_own [of q l] assms(1,2) by (simp add: handle_ok_def)

end

sublocale work_steal_quiet \<subseteq> rqq: ready_queue_quiet "ws_queue_ops I W" "\<lambda>(l, q). all_items q"
  "\<lambda>(l, q). wsq_inv q \<and> handle_ok l q"
  by unfold_locales (auto simp: ws_queue_ops_def intro: pop_front_gives_up)

subsection \<open>Containers that keep the documentation\<close>

text \<open>A list with a number of \<^verbatim>\<open>Retry\<close> answers still to give, and a list with a capacity.\<close>

fun list_steal :: "'a list \<times> nat \<Rightarrow> 'a steal \<times> 'a list \<times> nat" where
  "list_steal (xs, Suc n) = (Retry, (xs, n))"
| "list_steal ([], 0) = (Empty, ([], 0))"
| "list_steal (x # xs, 0) = (Success x, (xs, 0))"

definition list_injector :: "('a list \<times> nat, 'a) injector_ops" where
  "list_injector = \<lparr>inj_new = ([], 0), inj_push = (\<lambda>x (xs, n). (xs @ [x], n)), inj_steal = list_steal\<rparr>"

definition list_worker :: "(nat \<times> 'a list, 'a) worker_ops" where
  "list_worker =
     \<lparr>w_new = (\<lambda>c. (max 1 c, [])),
      w_push = (\<lambda>x (c, xs). if length xs < c then (None, (c, xs @ [x])) else (Some x, (c, xs))),
      w_pop = (\<lambda>(c, xs). case xs of [] \<Rightarrow> (None, (c, [])) | x # ys \<Rightarrow> (Some x, (c, ys))),
      w_is_empty = (\<lambda>(c, xs). xs = []),
      w_capacity = fst,
      w_spare_capacity = (\<lambda>(c, xs). c - length xs),
      w_steal = (\<lambda>(c, xs) (d, ys) f.
        let k = min (f (length xs)) (min (length xs) (d - length ys)) in
        if k = 0 then (Err (), (c, xs), (d, ys))
        else (Ok k, (c, drop k xs), (d, ys @ take k xs)))\<rparr>"

definition list_worker_ok :: "nat \<times> 'a list \<Rightarrow> bool" where
  "list_worker_ok w \<longleftrightarrow> 0 < fst w \<and> length (snd w) \<le> fst w"

interpretation ref: work_steal_quiet list_injector fst snd list_worker snd list_worker_ok
proof (unfold_locales, goal_cases)
  case (3 i x i')
  then show ?case by (cases i rule: list_steal.cases) (auto simp: list_injector_def)
next
  case (4 i i')
  then show ?case by (cases i rule: list_steal.cases) (auto simp: list_injector_def)
next
  case (5 i i')
  then show ?case by (cases i rule: list_steal.cases) (auto simp: list_injector_def)
next
  case (21 src dst f)
  obtain c xs where src: "src = (c, xs)" by force
  obtain d ys where dst: "dst = (d, ys)" by force
  have "0 < f (length xs)" "0 < length xs" "0 < d - length ys"
    using 21 by (simp_all add: src dst list_worker_def)
  then have "min (f (length xs)) (min (length xs) (d - length ys)) \<noteq> 0" by (simp only: min_def split: if_split) simp
  then show ?case by (simp only: list_worker_def src dst worker_ops.simps Let_def split_conv if_False fst_conv) simp
qed (auto simp: list_injector_def list_worker_def list_worker_ok_def Let_def
      split: list.splits prod.splits if_splits)

text \<open>The work stealing queue over these containers.\<close>

type_synonym 'a ref_queue = "local_queue \<times> ('a list \<times> nat, nat \<times> 'a list) work_steal_queue"

abbreviation ref_ops :: "('a ref_queue, 'a) queue_ops" where
  "ref_ops \<equiv> ws_queue_ops list_injector list_worker"

definition ref_items :: "'a ref_queue \<Rightarrow> 'a multiset" where
  "ref_items lq = ws_items fst snd (snd lq)"

definition ref_ok :: "'a ref_queue \<Rightarrow> bool" where
  "ref_ok lq \<longleftrightarrow> ws_inv fst list_worker_ok (snd lq) \<and> handle_ok (fst lq) (snd lq)"

interpretation ref_queue: ready_queue_quiet ref_ops ref_items ref_ok
  using ref.rqq.ready_queue_quiet_axioms by (simp add: ref_items_def [abs_def] ref_ok_def [abs_def] case_prod_beta')

text \<open>A queue with one full worker of capacity two, used by the examples.\<close>

definition sample_queue :: "(nat list \<times> nat, nat \<times> nat list) work_steal_queue" where
  "sample_queue = \<lparr>shared_queue = ([9], 2), wsq_len = 1, local_queues = [(2, [1, 2]), (2, [])],
     wsq_index = 1, seed_generator = \<lparr>gen_state = \<lparr>one = 1, two = 2\<rparr>\<rparr>\<rparr>"

definition sample_handle :: "nat \<Rightarrow> u32 \<Rightarrow> local_queue" where
  "sample_handle i t = (lq_new i \<lparr>one = 1, two = 2\<rparr>)\<lparr>lq_tick := t\<rparr>"

lemma sample_queue_ok:
  "ws_inv fst list_worker_ok sample_queue" "i < 2 \<Longrightarrow> handle_ok (sample_handle i t) sample_queue"
  "own (sample_handle 0 t) sample_queue = (2, [1, 2])" "own (sample_handle 1 t) sample_queue = (2, [])"
  "ws_items fst snd sample_queue = {#1, 2, 9#}"
  by (auto simp: sample_queue_def sample_handle_def ws_inv_def list_worker_ok_def handle_ok_def
      lq_new_def own_def ws_items_def)

subsection \<open>Claims about the queue\<close>

text \<open>
  C10: Pushing to a local queue never loses or duplicates an item. Whether the worker has
  room or half of it is moved to the global queue, the queue as a whole gains exactly the pushed item,
  and the invariant that ties the counter to the global queue holds again.
\<close>

theorem push_back_conserves:
  assumes "work_steal I contents contention W items wok"
    and "ws_inv contents wok q" and "handle_ok l q"
  shows "ws_items contents items (push_back I W x l q) = add_mset x (ws_items contents items q) \<and>
    ws_inv contents wok (push_back I W x l q) \<and> handle_ok l (push_back I W x l q)"
  using work_steal.push_back_spec [OF assms] by blast

theorem push_back_conserves_witness:
  "ws_items fst snd (push_back list_injector list_worker 3 (sample_handle 0 0) sample_queue) = {#1, 2, 3, 9#}"
proof -
  have h: "handle_ok (sample_handle 0 0) sample_queue" by (rule sample_queue_ok) simp
  show ?thesis
    using push_back_conserves [OF ref.work_steal_axioms sample_queue_ok(1) h, of 3]
    by (simp add: sample_queue_ok)
qed

text \<open>
  A push to a full worker moves the older half of its items to the end of the global
  queue, oldest first, followed by the pushed item; the worker keeps the newer half in order.
\<close>

theorem push_back_overflow:
  assumes "work_steal I contents contention W items wok"
    and "ws_inv contents wok q" and "handle_ok l q"
    and "length (items (own l q)) = w_capacity W (own l q)"
  shows "contents (shared_queue (push_back I W x l q)) =
      contents (shared_queue q) @ take (length (items (own l q)) div 2) (items (own l q)) @ [x] \<and>
    items (own l (push_back I W x l q)) = drop (length (items (own l q)) div 2) (items (own l q))"
  using work_steal.push_back_full [OF assms, of x] by blast

theorem push_back_overflow_witness:
  "shared_queue (push_back list_injector list_worker 3 (sample_handle 0 0) sample_queue) = ([9, 1, 3], 2)"
proof -
  have cap: "length (snd (own (sample_handle 0 0) sample_queue)) =
      w_capacity list_worker (own (sample_handle 0 0) sample_queue)"
    by (simp add: sample_queue_ok list_worker_def)
  from push_back_overflow [OF ref.work_steal_axioms sample_queue_ok(1,2) cap, of 3]
  have "fst (shared_queue (push_back list_injector list_worker 3 (sample_handle 0 0) sample_queue)) =
      fst (shared_queue sample_queue) @ [1, 3]"
    by (simp add: sample_queue_ok)
  moreover have "snd (shared_queue (push_back list_injector list_worker 3 (sample_handle 0 0) sample_queue)) = 2"
    by (simp add: push_back_def sample_queue_def sample_handle_def list_worker_def lq_new_def own_def
        set_own_def lq_len_def wsq_push_def list_injector_def)
  ultimately show ?thesis by (simp add: sample_queue_def prod_eq_iff)
qed

text \<open>
  C11: \<open>pop_front\<close> always returns, however many times the global queue answers \<^verbatim>\<open>Retry\<close>.
  It takes out exactly the item it returns and nothing when it returns \<^verbatim>\<open>None\<close>; items that
  were stolen on the way are all still in the queue; and the lock is released on every path.
\<close>

theorem pop_front_conserves:
  assumes "work_steal I contents contention W items wok"
    and "ws_inv contents wok q" and "handle_ok l q"
  shows "\<exists>v l' q'. pop_front I W l q = Some (v, l', q') \<and> ws_inv contents wok q' \<and> handle_ok l' q' \<and>
    takes (ws_items contents items q) v (ws_items contents items q')"
  using work_steal.pop_front_spec [OF assms] by blast

theorem pop_front_conserves_witness:
  "\<exists>v l' q'. pop_front list_injector list_worker (sample_handle 1 0) sample_queue = Some (v, l', q') \<and>
    takes {#1, 2, 9#} v (ws_items fst snd q')"
proof -
  have h: "handle_ok (sample_handle 1 0) sample_queue" by (rule sample_queue_ok) simp
  show ?thesis
    using pop_front_conserves [OF ref.work_steal_axioms sample_queue_ok(1) h]
    unfolding sample_queue_ok(5) by blast
qed

text \<open>
  C20: Without contention, \<open>pop_front\<close> gives up only when the whole queue is empty: an item in any
  sibling's worker or in the global queue is found, from whichever random position the
  stealing loop starts.
\<close>

theorem pop_front_finds:
  assumes "work_steal_quiet I contents contention W items wok"
    and "ws_inv contents wok q" and "handle_ok l q" and "ws_items contents items q \<noteq> {#}"
  shows "\<exists>x l' q'. pop_front I W l q = Some (Some x, l', q')"
  using work_steal_quiet.pop_front_gives_up [OF assms(1-3)] assms(4)
    work_steal.pop_front_spec [OF work_steal_quiet.axioms(1) [OF assms(1)] assms(2,3)]
  by (metis option.exhaust)

theorem pop_front_finds_witness:
  "\<exists>x l' q'. pop_front list_injector list_worker (sample_handle 1 7) sample_queue = Some (Some x, l', q')"
proof -
  have h: "handle_ok (sample_handle 1 7) sample_queue" by (rule sample_queue_ok) simp
  show ?thesis
    by (rule pop_front_finds [OF ref.work_steal_quiet_axioms sample_queue_ok(1) h]) (simp add: sample_queue_ok)
qed

text \<open>
  C30: Every 61st call serves the oldest item of the global queue, so that a worker that never
  runs dry cannot starve it; every other call serves the oldest item of the own worker.
\<close>

theorem pop_front_turns:
  assumes "work_steal I contents contention W items wok"
    and "ws_inv contents wok q" and "handle_ok l q"
    and "contents (shared_queue q) = g # gs" and "items (own l q) = x # xs"
  shows "\<exists>l' q'. pop_front I W l q =
      Some (Some (if (lq_tick l + 1) mod 61 = 0 then g else x), l', q')"
proof (cases "(lq_tick l + 1) mod 61 = 0")
  case True
  from work_steal.pop_front_global_turn [OF assms(1,2) True assms(4)] show ?thesis
    unfolding if_P [OF True] by blast
next
  case False
  from work_steal.pop_front_own_turn [OF assms(1-3,5) False] show ?thesis
    unfolding if_not_P [OF False] by blast
qed

theorem pop_front_turns_witness:
  "(\<exists>l' q'. pop_front list_injector list_worker (sample_handle 0 60) sample_queue = Some (Some 9, l', q')) \<and>
   (\<exists>l' q'. pop_front list_injector list_worker (sample_handle 0 61) sample_queue = Some (Some 1, l', q'))"
proof -
  have h: "handle_ok (sample_handle 0 t) sample_queue" for t by (rule sample_queue_ok) simp
  have g: "fst (shared_queue sample_queue) = 9 # []" by (simp add: sample_queue_def)
  have o: "snd (own (sample_handle 0 t) sample_queue) = 1 # [2]" for t by (simp add: sample_queue_ok)
  have t: "lq_tick (sample_handle 0 t) = t" for t by (simp add: sample_handle_def)
  show ?thesis
    using pop_front_turns [OF ref.work_steal_axioms sample_queue_ok(1) h [of 60] g o]
      pop_front_turns [OF ref.work_steal_axioms sample_queue_ok(1) h [of 61] g o]
    by (simp add: t)
qed

text \<open>
  The shared queue hands out its workers in turn: with the counter \<open>k\<close> steps on, the next handle
  names worker \<open>(i + k) mod n\<close>, and after the counter reached the maximum of \<^verbatim>\<open>usize\<close> it
  starts again at worker 0.
\<close>

theorem local_queue_round_robin:
  assumes "0 < length (local_queues q)"
  shows "\<exists>l q'. wsq_local_queue q = (Ok l, q') \<and> handle_ok l q' \<and>
    lq_queue l = unat (wsq_index q) mod length (local_queues q) \<and>
    unat (wsq_index q') = Suc (unat (wsq_index q)) mod 2 ^ 64 \<and>
    local_queues q' = local_queues q \<and> shared_queue q' = shared_queue q"
proof -
  have "unat (wsq_index q + 1) = Suc (unat (wsq_index q)) mod 2 ^ 64"
    by (simp add: unat_word_ariths)
  moreover have "wsq_index q + 1 = 0" if "wsq_index q = - 1" using that by simp
  ultimately show ?thesis
    using assms by (auto simp: wsq_local_queue_def Let_def lq_new_def handle_ok_def split: prod.splits)
qed

theorem local_queue_round_robin_witness:
  "\<exists>l q'. wsq_local_queue (sample_queue\<lparr>wsq_index := - 1\<rparr>) = (Ok l, q') \<and> lq_queue l = 1 \<and> wsq_index q' = 0"
proof -
  have n: "0 < length (local_queues (sample_queue\<lparr>wsq_index := - 1\<rparr>))" by (simp add: sample_queue_def)
  show ?thesis
    using local_queue_round_robin [OF n]
    by (auto simp: sample_queue_def unat_max_word numeral_2_eq_2 [symmetric] unsigned_eq_0_iff)
qed

end
