(* ===== verification/LenRace.thy ===== *)
theory LenRace
  imports Prelude
begin

text \<open>
  The global queue of \<^verbatim>\<open>work_steal.rs\<close> under interleaving. \<open>push\<close> and \<open>pop\<close> keep the number of
  pending items in an atomic integer beside the queue, and update it by a load and a separate
  store. Here every atomic access is a step of its own, taken by any thread in any order; the
  global queue is what its documentation says it is, a FIFO list with atomic operations.
\<close>

text \<open>Where a thread is: outside, or inside \<open>push\<close> or \<open>pop\<close> before the access the name says.\<close>

datatype pc =
    Idle
  | Push_load
  | Push_store usize
  | Pop_steal
  | Pop_load
  | Pop_store usize

record 'a shared =
  sh_queue :: "'a list"
  sh_len :: usize

inductive thread_step :: "pc \<Rightarrow> 'a shared \<Rightarrow> pc \<Rightarrow> 'a shared \<Rightarrow> bool" where
  push_item: "thread_step Idle s Push_load (s\<lparr>sh_queue := sh_queue s @ [x]\<rparr>)"
| push_load: "thread_step Push_load s (Push_store (sh_len s + 1)) s"
| push_store: "thread_step (Push_store n) s Idle (s\<lparr>sh_len := n\<rparr>)"
| pop_fast: "sh_len s = 0 \<Longrightarrow> thread_step Idle s Idle s"
| pop_enter: "sh_len s \<noteq> 0 \<Longrightarrow> thread_step Idle s Pop_steal s"
| pop_success: "sh_queue s = x # xs \<Longrightarrow> thread_step Pop_steal s Pop_load (s\<lparr>sh_queue := xs\<rparr>)"
| pop_retry: "thread_step Pop_steal s Pop_steal s"
| pop_empty: "sh_queue s = [] \<Longrightarrow> thread_step Pop_steal s Idle s"
| pop_load: "thread_step Pop_load s (Pop_store (sh_len s - 1)) s"
| pop_store: "thread_step (Pop_store n) s Idle (s\<lparr>sh_len := n\<rparr>)"

inductive_cases thread_stepE: "thread_step p s p' s'"

text \<open>\<open>sys excl\<close> runs the threads; with \<open>excl\<close> a thread moves only while the others are outside.\<close>

inductive sys :: "bool \<Rightarrow> (nat \<Rightarrow> pc) \<Rightarrow> 'a shared \<Rightarrow> bool" for excl where
  sys_init: "sys excl (\<lambda>_. Idle) \<lparr>sh_queue = [], sh_len = 0\<rparr>"
| sys_step: "sys excl ps s \<Longrightarrow> thread_step (ps t) s p' s' \<Longrightarrow>
    (excl \<Longrightarrow> \<forall>u. u \<noteq> t \<longrightarrow> ps u = Idle) \<Longrightarrow> sys excl (ps(t := p')) s'"

text \<open>What the counter is worth while one thread is inside.\<close>

fun len_ok :: "pc \<Rightarrow> 'a shared \<Rightarrow> bool" where
  "len_ok Idle s \<longleftrightarrow> sh_len s = of_nat (length (sh_queue s))"
| "len_ok Push_load s \<longleftrightarrow> sh_len s + 1 = of_nat (length (sh_queue s))"
| "len_ok (Push_store n) s \<longleftrightarrow> n = of_nat (length (sh_queue s))"
| "len_ok Pop_steal s \<longleftrightarrow> sh_len s = of_nat (length (sh_queue s))"
| "len_ok Pop_load s \<longleftrightarrow> sh_len s = of_nat (length (sh_queue s)) + 1"
| "len_ok (Pop_store n) s \<longleftrightarrow> n = of_nat (length (sh_queue s))"

lemma thread_step_len_ok: "thread_step p s p' s' \<Longrightarrow> len_ok p s \<Longrightarrow> len_ok p' s'"
  by (induction rule: thread_step.induct) (auto simp: add.commute)

definition others_idle :: "(nat \<Rightarrow> pc) \<Rightarrow> nat \<Rightarrow> bool" where
  "others_idle ps t \<longleftrightarrow> (\<forall>u. u \<noteq> t \<longrightarrow> ps u = Idle)"

lemma sys_exclusive: "sys True ps s \<Longrightarrow> \<exists>t. others_idle ps t \<and> len_ok (ps t) s"
proof (induction rule: sys.induct)
  case sys_init
  then show ?case by (simp add: others_idle_def)
next
  case (sys_step ps s t p' s')
  then obtain t0 where t0: "others_idle ps t0" "len_ok (ps t0) s" by blast
  have others: "others_idle ps t" using sys_step.hyps(3) by (simp add: others_idle_def)
  have "len_ok (ps t) s"
  proof (cases "t0 = t")
    case False
    with t0(1) others have "ps t = Idle" "ps t0 = Idle" by (auto simp: others_idle_def)
    with t0(2) show ?thesis by simp
  qed (use t0 in simp)
  with sys_step.hyps(2) have "len_ok p' s'" by (rule thread_step_len_ok)
  with others show ?case by (intro exI [of _ t]) (auto simp: others_idle_def)
qed

text \<open>
  When calls do not overlap, the counter is exact whenever no call is running, so the fast path of
  \<open>pop\<close> answers \<^verbatim>\<open>None\<close> only for an empty queue (the length fits a \<^verbatim>\<open>usize\<close>).
\<close>

theorem len_exact_exclusive:
  assumes "sys True ps s" and "\<forall>t. ps t = Idle" and "length (sh_queue s) < 2 ^ 64"
  shows "unat (sh_len s) = length (sh_queue s)"
proof -
  obtain t where "len_ok (ps t) s" using sys_exclusive assms(1) by blast
  with assms(2,3) show ?thesis by (simp add: unat_of_nat)
qed

text \<open>Runs of two threads, given by where they are.\<close>

definition two_at :: "pc \<Rightarrow> pc \<Rightarrow> nat \<Rightarrow> pc" where
  "two_at a b t = (if t = 0 then a else if t = 1 then b else Idle)"

lemma two_at_Idle: "two_at Idle Idle = (\<lambda>_. Idle)"
  by (auto simp: two_at_def)

lemma sys_first:
  assumes "sys False (two_at a b) s" "thread_step a s a' s'"
  shows "sys False (two_at a' b) s'"
proof -
  have "(two_at a b)(0 := a') = two_at a' b" by (auto simp: two_at_def)
  with sys_step [OF assms(1), of 0 a' s'] assms(2) show ?thesis by (simp add: two_at_def)
qed

lemma sys_second:
  assumes "sys False (two_at a b) s" "thread_step b s b' s'"
  shows "sys False (two_at a b') s'"
proof -
  have "(two_at a b)(1 := b') = two_at a b'" by (auto simp: two_at_def)
  with sys_step [OF assms(1), of 1 b' s'] assms(2) show ?thesis by (simp add: two_at_def)
qed

text \<open>Both threads push their item, both read the old counter, both write the same value.\<close>

lemma sys_lost_update: "sys False (two_at Idle Idle) \<lparr>sh_queue = [x, y], sh_len = 1\<rparr>"
proof -
  let ?s = "\<lambda>q n. \<lparr>sh_queue = q, sh_len = n\<rparr>"
  have "sys False (two_at Idle Idle) (?s ([] :: 'a list) 0)" unfolding two_at_Idle by (rule sys_init)
  then have "sys False (two_at Push_load Idle) (?s [x] 0)"
    by (rule sys_first) (use push_item [of "?s [] 0" x] in simp)
  then have "sys False (two_at Push_load Push_load) (?s [x, y] 0)"
    by (rule sys_second) (use push_item [of "?s [x] 0" y] in simp)
  then have "sys False (two_at (Push_store 1) Push_load) (?s [x, y] 0)"
    by (rule sys_first) (use push_load [of "?s [x, y] 0"] in simp)
  then have "sys False (two_at (Push_store 1) (Push_store 1)) (?s [x, y] 0)"
    by (rule sys_second) (use push_load [of "?s [x, y] 0"] in simp)
  then have "sys False (two_at Idle (Push_store 1)) (?s [x, y] 1)"
    by (rule sys_first) (use push_store [of 1 "?s [x, y] 0"] in simp)
  then show ?thesis
    by (rule sys_second) (use push_store [of 1 "?s [x, y] 1"] in simp)
qed

lemma sys_pop_one:
  assumes "sys False (two_at Idle b) \<lparr>sh_queue = x # xs, sh_len = n\<rparr>" and "n \<noteq> 0"
  shows "sys False (two_at Idle b) \<lparr>sh_queue = xs, sh_len = n - 1\<rparr>"
proof -
  let ?s = "\<lambda>q n. \<lparr>sh_queue = q, sh_len = n\<rparr>"
  have "sys False (two_at Pop_steal b) (?s (x # xs) n)"
    using assms(1) by (rule sys_first) (use pop_enter [of "?s (x # xs) n"] assms(2) in simp)
  then have "sys False (two_at Pop_load b) (?s xs n)"
    by (rule sys_first) (use pop_success [of "?s (x # xs) n"] in simp)
  then have "sys False (two_at (Pop_store (n - 1)) b) (?s xs n)"
    by (rule sys_first) (use pop_load [of "?s xs n"] in simp)
  then show ?thesis
    by (rule sys_first) (use pop_store [of "n - 1" "?s xs n"] in simp)
qed

text \<open>
  C32: Overlapping pushes can lose an update of the counter: there is a run after which no call is running
  and the queue holds an item, while the counter is 0 and every \<open>pop\<close> answers \<^verbatim>\<open>None\<close>.
\<close>

theorem len_race_strands_item:
  "\<exists>ps s. sys False ps s \<and> (\<forall>t. ps t = Idle) \<and> sh_queue s = [x] \<and> sh_len s = 0 \<and>
    (\<forall>p' s'. thread_step Idle s p' s' \<and> p' \<noteq> Push_load \<longrightarrow> p' = Idle \<and> s' = s)"
proof -
  let ?s = "\<lparr>sh_queue = [x], sh_len = 0\<rparr>"
  have "sys False (\<lambda>_. Idle) ?s"
    using sys_pop_one [OF sys_lost_update [of x x]] by (simp add: two_at_Idle)
  then show ?thesis
    by (intro exI [of _ "\<lambda>_. Idle"] exI [of _ ?s]) (auto elim: thread_stepE)
qed

theorem len_race_strands_item_witness:
  "\<exists>ps s. sys False ps s \<and> (\<forall>t. ps t = Idle) \<and> sh_queue s = [7::nat] \<and> sh_len s = 0"
  using len_race_strands_item [of "7::nat"] by blast

theorem len_exact_exclusive_witness:
  "unat (sh_len \<lparr>sh_queue = [] :: nat list, sh_len = 0\<rparr>) = length (sh_queue \<lparr>sh_queue = [] :: nat list, sh_len = 0\<rparr>)"
  by (rule len_exact_exclusive [OF sys_init]) simp_all

end
