(* ===== verification/Containers.thy ===== *)
theory Containers
  imports Prelude "HOL-Library.AList"
begin

text \<open>
  The concurrent map of the third-party crate \<^verbatim>\<open>dashmap\<close>, as far as the program uses it: a
  record of operations every client takes as a parameter, the locale \<open>dash_map\<close> with what the
  documentation promises about them, and a map built on association lists that keeps the promise.
\<close>

record ('d, 'k, 'v) dash_ops =
  dm_new :: 'd
  dm_insert :: "'k \<Rightarrow> 'v \<Rightarrow> 'd \<Rightarrow> 'v option \<times> 'd"
  dm_get :: "'k \<Rightarrow> 'd \<Rightarrow> 'v option"
  dm_remove :: "'k \<Rightarrow> 'd \<Rightarrow> 'v option \<times> 'd"
  dm_len :: "'d \<Rightarrow> nat"

text \<open>The values of a finite map as a multiset.\<close>

definition map_vals :: "('k \<rightharpoonup> 'v) \<Rightarrow> 'v multiset" where
  "map_vals m = image_mset (\<lambda>k. the (m k)) (mset_set (dom m))"

locale dash_map =
  fixes D :: "('d, 'k, 'v) dash_ops"
    and look :: "'d \<Rightarrow> 'k \<rightharpoonup> 'v"
    and dok :: "'d \<Rightarrow> bool"
  assumes new_ok: "dok (dm_new D)" "look (dm_new D) = Map.empty"
    and insert_ok: "dok d \<Longrightarrow> dok (snd (dm_insert D k v d))"
    and insert_look: "dok d \<Longrightarrow> look (snd (dm_insert D k v d)) = (look d)(k \<mapsto> v)"
    and insert_old: "dok d \<Longrightarrow> fst (dm_insert D k v d) = look d k"
    and get_look: "dok d \<Longrightarrow> dm_get D k d = look d k"
    and remove_ok: "dok d \<Longrightarrow> dok (snd (dm_remove D k d))"
    and remove_look: "dok d \<Longrightarrow> look (snd (dm_remove D k d)) = (look d)(k := None)"
    and remove_old: "dok d \<Longrightarrow> fst (dm_remove D k d) = look d k"
    and len_look: "dok d \<Longrightarrow> dm_len D d = card (dom (look d))"
    and finite_look: "dok d \<Longrightarrow> finite (dom (look d))"
begin

lemma insert_eq: "dok d \<Longrightarrow> dm_insert D k v d = (look d k, snd (dm_insert D k v d))"
  by (simp add: insert_old prod_eq_iff)

lemma remove_eq: "dok d \<Longrightarrow> dm_remove D k d = (look d k, snd (dm_remove D k d))"
  by (simp add: remove_old prod_eq_iff)

lemma len_insert_fresh: "dok d \<Longrightarrow> look d k = None \<Longrightarrow> dm_len D (snd (dm_insert D k v d)) = Suc (dm_len D d)"
  by (simp add: len_look insert_ok insert_look finite_look domIff)

lemma len_remove:
  assumes "dok d" "look d k = Some v"
  shows "Suc (dm_len D (snd (dm_remove D k d))) = dm_len D d"
proof -
  have "0 < card (dom (look d))" using assms by (auto simp: card_gt_0_iff finite_look)
  with assms show ?thesis by (simp add: len_look remove_ok remove_look finite_look domI)
qed

lemma len_eq_0: "dok d \<Longrightarrow> dm_len D d = 0 \<longleftrightarrow> look d = Map.empty"
  by (simp add: len_look finite_look)

lemma vals_new: "map_vals (look (dm_new D)) = {#}"
  by (simp add: map_vals_def new_ok)

lemma vals_insert_fresh:
  assumes "dok d" "look d k = None"
  shows "map_vals (look (snd (dm_insert D k v d))) = add_mset v (map_vals (look d))"
proof -
  have "image_mset (\<lambda>x. the (((look d)(k \<mapsto> v)) x)) (mset_set (dom (look d))) =
      image_mset (\<lambda>x. the (look d x)) (mset_set (dom (look d)))"
    using assms by (intro image_mset_cong) (auto simp: finite_look)
  with assms show ?thesis
    by (simp add: map_vals_def insert_look finite_look domIff)
qed

lemma vals_remove:
  assumes "dok d" "look d k = Some v"
  shows "map_vals (look d) = add_mset v (map_vals (look (snd (dm_remove D k d))))"
proof -
  have "mset_set (dom (look d)) = add_mset k (mset_set (dom (look d) - {k}))"
    using assms by (simp add: mset_set.remove domI finite_look)
  moreover have "image_mset (\<lambda>x. the (((look d)(k := None)) x)) (mset_set (dom (look d) - {k})) =
      image_mset (\<lambda>x. the (look d x)) (mset_set (dom (look d) - {k}))"
    using assms by (intro image_mset_cong) (auto simp: finite_look)
  ultimately show ?thesis
    using assms by (simp add: map_vals_def remove_look)
qed

lemma vals_remove_absent: "dok d \<Longrightarrow> look d k = None \<Longrightarrow> map_vals (look (snd (dm_remove D k d))) = map_vals (look d)"
  by (simp add: map_vals_def remove_look fun_upd_idem)

lemma size_vals: "dok d \<Longrightarrow> size (map_vals (look d)) = dm_len D d"
  by (simp add: map_vals_def len_look)

end

subsection \<open>A map that keeps the promise\<close>

definition alist_map :: "(('k \<times> 'v) list, 'k, 'v) dash_ops" where
  "alist_map =
     \<lparr>dm_new = [], dm_insert = (\<lambda>k v d. (map_of d k, AList.update k v d)), dm_get = (\<lambda>k d. map_of d k),
      dm_remove = (\<lambda>k d. (map_of d k, AList.delete k d)), dm_len = length\<rparr>"

definition alist_ok :: "('k \<times> 'v) list \<Rightarrow> bool" where
  "alist_ok d \<longleftrightarrow> distinct (map fst d)"

interpretation alist: dash_map alist_map map_of alist_ok
proof (unfold_locales, goal_cases)
  case (4 d k v)
  then show ?case by (simp add: alist_map_def update_conv')
next
  case (8 d k)
  then show ?case by (simp add: alist_map_def delete_conv')
next
  case (10 d)
  then have "card (set (map fst d)) = length d"
    by (metis alist_ok_def distinct_card length_map)
  then show ?case by (simp add: alist_map_def dom_map_of_conv_image_fst)
qed (auto simp: alist_map_def alist_ok_def distinct_update distinct_delete finite_dom_map_of)

end
