(* ===== verification/CoLocal.thy ===== *)
theory CoLocal
  imports Containers
begin

text \<open>
  The local storage of a coroutine (\<^verbatim>\<open>coroutine/local.rs\<close>): a concurrent map from keys to the
  addresses of leaked boxes. The heap is explicit, so that reading or freeing an address
  that holds no box is visible as a panic of the model. The values have one type: the code casts
  the address to the type the caller names.
\<close>

record 'v heap =
  hp_next :: nat
  hp_box :: "nat \<rightharpoonup> 'v"

definition box_leak :: "'v \<Rightarrow> 'v heap \<Rightarrow> nat \<times> 'v heap" where
  "box_leak v h = (hp_next h, h\<lparr>hp_next := Suc (hp_next h), hp_box := (hp_box h)(hp_next h \<mapsto> v)\<rparr>)"

definition box_from_raw :: "nat \<Rightarrow> 'v heap \<Rightarrow> ('v, unit) outcome \<times> 'v heap" where
  "box_from_raw p h =
     (case hp_box h p of
        None \<Rightarrow> (Panic ''dangling address'', h)
      | Some v \<Rightarrow> (Ok v, h\<lparr>hp_box := (hp_box h)(p := None)\<rparr>))"

text \<open>\<open>take_box\<close> is the closure both \<open>put\<close> and \<open>remove\<close> map over the old address.\<close>

definition take_box :: "nat option \<Rightarrow> 'v heap \<Rightarrow> ('v option, unit) outcome \<times> 'v heap" where
  "take_box old h =
     (case old of
        None \<Rightarrow> (Ok None, h)
      | Some ptr \<Rightarrow>
          (case box_from_raw ptr h of
             (Ok v, h) \<Rightarrow> (Ok (Some v), h) | (Err e, h) \<Rightarrow> (Err e, h) | (Panic m, h) \<Rightarrow> (Panic m, h)))"

definition local_put :: "('d, 'k, nat) dash_ops \<Rightarrow> 'k \<Rightarrow> 'v \<Rightarrow> 'd \<Rightarrow> 'v heap
    \<Rightarrow> ('v option, unit) outcome \<times> 'd \<times> 'v heap" where
  "local_put D key val d h =
     (let (v, h) = box_leak val h; (old, d) = dm_insert D key v d; (r, h) = take_box old h in (r, d, h))"

definition local_get :: "('d, 'k, nat) dash_ops \<Rightarrow> 'k \<Rightarrow> 'd \<Rightarrow> 'v heap \<Rightarrow> ('v option, unit) outcome" where
  "local_get D key d h =
     (case dm_get D key d of
        None \<Rightarrow> Ok None
      | Some ptr \<Rightarrow> (case hp_box h ptr of None \<Rightarrow> Panic ''dangling address'' | Some v \<Rightarrow> Ok (Some v)))"

text \<open>\<open>get_mut\<close> hands out a reference; the model takes what the caller does with it.\<close>

definition local_get_mut :: "('d, 'k, nat) dash_ops \<Rightarrow> 'k \<Rightarrow> ('v \<Rightarrow> 'v) \<Rightarrow> 'd \<Rightarrow> 'v heap
    \<Rightarrow> ('v option, unit) outcome \<times> 'v heap" where
  "local_get_mut D key f d h =
     (case dm_get D key d of
        None \<Rightarrow> (Ok None, h)
      | Some ptr \<Rightarrow>
          (case hp_box h ptr of
             None \<Rightarrow> (Panic ''dangling address'', h)
           | Some v \<Rightarrow> (Ok (Some v), h\<lparr>hp_box := (hp_box h)(ptr \<mapsto> f v)\<rparr>)))"

definition local_remove :: "('d, 'k, nat) dash_ops \<Rightarrow> 'k \<Rightarrow> 'd \<Rightarrow> 'v heap
    \<Rightarrow> ('v option, unit) outcome \<times> 'd \<times> 'v heap" where
  "local_remove D key d h =
     (let (old, d) = dm_remove D key d; (r, h) = take_box old h in (r, d, h))"

subsection \<open>Ownership of the boxes\<close>

text \<open>
  The boxes of the heap are exactly the ones the map points to, no two keys share one, and
  fresh addresses are unused: nothing dangles and nothing leaks.
\<close>

definition local_inv :: "('k \<rightharpoonup> nat) \<Rightarrow> 'v heap \<Rightarrow> bool" where
  "local_inv m h \<longleftrightarrow> (\<forall>p. hp_box h p \<noteq> None \<longleftrightarrow> (\<exists>k. m k = Some p)) \<and>
     (\<forall>k k' p. m k = Some p \<longrightarrow> m k' = Some p \<longrightarrow> k' = k) \<and> (\<forall>p. hp_box h p \<noteq> None \<longrightarrow> p < hp_next h)"

definition local_view :: "('k \<rightharpoonup> nat) \<Rightarrow> 'v heap \<Rightarrow> 'k \<rightharpoonup> 'v" where
  "local_view m h k = (case m k of None \<Rightarrow> None | Some p \<Rightarrow> hp_box h p)"

lemma local_inv_at:
  assumes "local_inv m h" "m k = Some p"
  shows "(\<exists>v. hp_box h p = Some v) \<and> p < hp_next h \<and> (\<forall>k'. m k' = Some p \<longrightarrow> k' = k)"
proof -
  have "hp_box h p \<noteq> None" using assms unfolding local_inv_def by blast
  moreover have "m k' = Some p \<Longrightarrow> k' = k" for k' using assms unfolding local_inv_def by blast
  moreover have "hp_box h p \<noteq> None \<Longrightarrow> p < hp_next h" using assms unfolding local_inv_def by blast
  ultimately show ?thesis by auto
qed

lemma local_inv_fresh: "local_inv m h \<Longrightarrow> m k \<noteq> Some (hp_next h)"
  using local_inv_at [of m h k "hp_next h"] by blast

lemma local_inv_iff: "local_inv m h \<Longrightarrow> hp_box h p \<noteq> None \<longleftrightarrow> (\<exists>k. m k = Some p)"
  unfolding local_inv_def by (elim conjE) (rule spec)

lemma local_inv_inj: "local_inv m h \<Longrightarrow> m k = Some p \<Longrightarrow> m k' = Some p \<Longrightarrow> k' = k"
  using local_inv_at by fast

lemma local_inv_cong:
  assumes "\<And>q. hp_box h' q = None \<longleftrightarrow> hp_box h q = None" "hp_next h' = hp_next h"
  shows "local_inv m h' = local_inv m h"
  by (simp only: local_inv_def assms)

lemma local_invI:
  assumes "\<And>p. hp_box h p \<noteq> None \<longleftrightarrow> (\<exists>k. m k = Some p)"
    and "\<And>k k' p. m k = Some p \<Longrightarrow> m k' = Some p \<Longrightarrow> k' = k" and "\<And>p. hp_box h p \<noteq> None \<Longrightarrow> p < hp_next h"
  shows "local_inv m h"
  unfolding local_inv_def by (intro conjI allI impI assms)

lemma local_inv_bound: "local_inv m h \<Longrightarrow> hp_box h p \<noteq> None \<Longrightarrow> p < hp_next h"
  unfolding local_inv_def by (elim conjE allE [where x = p] mp)

lemma local_inv_alloc:
  assumes inv: "local_inv m h" and k: "m k = None"
  shows "local_inv (m(k \<mapsto> hp_next h)) (h\<lparr>hp_next := Suc (hp_next h), hp_box := (hp_box h)(hp_next h \<mapsto> v)\<rparr>)"
    (is "local_inv ?m ?h")
proof -
  have box: "hp_box ?h p = (if p = hp_next h then Some v else hp_box h p)" for p by simp
  have map: "?m k' = Some p \<longleftrightarrow> k' = k \<and> p = hp_next h \<or> k' \<noteq> k \<and> m k' = Some p" for k' p by auto
  have ne: "m k' = Some p \<Longrightarrow> k' \<noteq> k" for k' p using k by auto
  show ?thesis
  proof (rule local_invI)
    fix p show "hp_box ?h p \<noteq> None \<longleftrightarrow> (\<exists>k'. ?m k' = Some p)"
      unfolding box map using local_inv_iff [OF inv, of p] ne [of _ p] by (cases "p = hp_next h") auto
  next
    fix k1 k2 p assume "?m k1 = Some p" "?m k2 = Some p"
    then show "k2 = k1"
      unfolding map using local_inv_fresh [OF inv] local_inv_inj [OF inv, of k1 p k2] by (auto split: if_splits)
  next
    fix p assume "hp_box ?h p \<noteq> None"
    then show "p < hp_next ?h"
      unfolding box using local_inv_bound [OF inv, of p] by (auto split: if_splits)
  qed
qed

lemma local_inv_free:
  assumes inv: "local_inv m h" and k: "m k = Some p"
  shows "local_inv (m(k := None)) (h\<lparr>hp_box := (hp_box h)(p := None)\<rparr>)" (is "local_inv ?m ?h")
proof -
  have box: "hp_box ?h q = (if q = p then None else hp_box h q)" for q by simp
  have map: "?m k' = Some q \<longleftrightarrow> m k' = Some q \<and> q \<noteq> p" for k' q
  proof (cases "k' = k")
    case False
    then show ?thesis using local_inv_inj [OF inv k, of k'] by auto
  qed (use k in auto)
  show ?thesis
  proof (rule local_invI)
    fix q show "hp_box ?h q \<noteq> None \<longleftrightarrow> (\<exists>k'. ?m k' = Some q)"
      unfolding box map using local_inv_iff [OF inv, of q] by auto
  next
    fix k1 k2 q assume "?m k1 = Some q" "?m k2 = Some q"
    then show "k2 = k1" unfolding map using local_inv_inj [OF inv, of k1 q k2] by blast
  next
    fix q assume "hp_box ?h q \<noteq> None"
    then show "q < hp_next ?h"
      unfolding box using local_inv_bound [OF inv, of q] by (auto split: if_splits)
  qed
qed

lemma view_free:
  assumes "local_inv m h" "m k = Some p"
  shows "local_view (m(k := None)) (h\<lparr>hp_box := (hp_box h)(p := None)\<rparr>) = (local_view m h)(k := None)"
proof
  fix k'
  have "m k' = Some p \<Longrightarrow> k' = k" using local_inv_at [OF assms] by blast
  then show "local_view (m(k := None)) (h\<lparr>hp_box := (hp_box h)(p := None)\<rparr>) k' = ((local_view m h)(k := None)) k'"
    by (auto simp: local_view_def split: option.splits)
qed

lemma view_alloc:
  assumes "local_inv m h"
  shows "local_view (m(k \<mapsto> hp_next h)) (h\<lparr>hp_next := n, hp_box := (hp_box h)(hp_next h \<mapsto> v)\<rparr>) =
    (local_view m h)(k \<mapsto> v)"
proof
  fix k'
  have "m k' \<noteq> Some (hp_next h)" by (rule local_inv_fresh [OF assms])
  then show "local_view (m(k \<mapsto> hp_next h)) (h\<lparr>hp_next := n, hp_box := (hp_box h)(hp_next h \<mapsto> v)\<rparr>) k' =
      ((local_view m h)(k \<mapsto> v)) k'"
    by (auto simp: local_view_def split: option.splits)
qed

text \<open>Replacing a box is freeing the old one and allocating the new one, in either order.\<close>

lemma put_steps:
  assumes inv: "local_inv m h" and alloc: "box_leak v h = (p, h1)" and free: "take_box (m k) h1 = (r, h2)"
  shows "r = Ok (local_view m h k) \<and> local_inv (m(k \<mapsto> p)) h2 \<and>
    local_view (m(k \<mapsto> p)) h2 = (local_view m h)(k \<mapsto> v)"
proof (cases "m k")
  case None
  with assms show ?thesis
    using local_inv_alloc [OF inv None, of v] view_alloc [OF inv, where k = k and v = v]
    by (auto simp: box_leak_def take_box_def local_view_def)
next
  case (Some q)
  obtain u where u: "hp_box h q = Some u" "q < hp_next h" using local_inv_at [OF inv Some] by blast
  define h0 where "h0 = h\<lparr>hp_box := (hp_box h)(q := None)\<rparr>"
  have inv0: "local_inv (m(k := None)) h0" and view0: "local_view (m(k := None)) h0 = (local_view m h)(k := None)"
    using local_inv_free [OF inv Some] view_free [OF inv Some] by (simp_all add: h0_def)
  have h2: "h2 = h0\<lparr>hp_next := Suc (hp_next h0), hp_box := (hp_box h0)(hp_next h0 \<mapsto> v)\<rparr>"
    and p: "p = hp_next h0" and r: "r = Ok (Some u)"
    using alloc free Some u by (auto simp: box_leak_def take_box_def box_from_raw_def h0_def fun_upd_twist)
  have "local_inv ((m(k := None))(k \<mapsto> p)) h2" unfolding h2 p by (rule local_inv_alloc [OF inv0]) simp
  moreover have "local_view ((m(k := None))(k \<mapsto> p)) h2 = (local_view m h)(k \<mapsto> v)"
    unfolding h2 p by (simp only: view_alloc [OF inv0] view0) simp
  moreover have "local_view m h k = Some u" using Some u by (simp add: local_view_def)
  ultimately show ?thesis using r by simp
qed

lemma local_put_spec:
  assumes "dash_map D look dok" "dok d" "local_inv (look d) h"
  shows "case local_put D key val d h of (r, d', h') \<Rightarrow> r = Ok (local_view (look d) h key) \<and> dok d' \<and>
    local_inv (look d') h' \<and> local_view (look d') h' = (local_view (look d) h)(key \<mapsto> val)"
proof -
  obtain p h1 where alloc: "box_leak val h = (p, h1)" by force
  obtain r h2 where free: "take_box (look d key) h1 = (r, h2)" by force
  have put: "local_put D key val d h = (r, snd (dm_insert D key p d), h2)"
    using dash_map.insert_eq [OF assms(1,2), of key p] free
    by (auto simp: local_put_def alloc split: prod.splits)
  from put_steps [OF assms(3) alloc free] show ?thesis
    by (simp add: put dash_map.insert_ok [OF assms(1,2)] dash_map.insert_look [OF assms(1,2)])
qed

lemma local_get_spec:
  assumes "dash_map D look dok" "dok d" "local_inv (look d) h"
  shows "local_get D key d h = Ok (local_view (look d) h key)"
proof (cases "look d key")
  case (Some p)
  then obtain v where "hp_box h p = Some v" using local_inv_at [OF assms(3)] by blast
  with Some show ?thesis by (simp add: local_get_def local_view_def dash_map.get_look [OF assms(1,2)])
qed (simp add: local_get_def local_view_def dash_map.get_look [OF assms(1,2)])

lemma local_get_mut_spec:
  assumes "dash_map D look dok" "dok d" "local_inv (look d) h"
  shows "case local_get_mut D key f d h of (r, h') \<Rightarrow> r = Ok (local_view (look d) h key) \<and> local_inv (look d) h' \<and>
    local_view (look d) h' = (local_view (look d) h)(key := map_option f (local_view (look d) h key))"
proof (cases "look d key")
  case None
  with assms show ?thesis
    by (auto simp: local_get_mut_def local_view_def dash_map.get_look [OF assms(1,2)] fun_eq_iff)
next
  case (Some p)
  then obtain v where v: "hp_box h p = Some v" "p < hp_next h" "\<And>k'. look d k' = Some p \<Longrightarrow> k' = key"
    using local_inv_at [OF assms(3)] by blast
  have "local_inv (look d) (h\<lparr>hp_box := (hp_box h)(p \<mapsto> f v)\<rparr>)"
    using assms(3) local_inv_cong [of "h\<lparr>hp_box := (hp_box h)(p \<mapsto> f v)\<rparr>" h "look d"] v(1) by simp
  moreover have "local_view (look d) (h\<lparr>hp_box := (hp_box h)(p \<mapsto> f v)\<rparr>) = (local_view (look d) h)(key \<mapsto> f v)"
  proof
    fix k'
    show "local_view (look d) (h\<lparr>hp_box := (hp_box h)(p \<mapsto> f v)\<rparr>) k' = ((local_view (look d) h)(key \<mapsto> f v)) k'"
      using v(3) [of k'] Some by (cases "look d k'") (auto simp: local_view_def)
  qed
  moreover have "local_get_mut D key f d h = (Ok (Some v), h\<lparr>hp_box := (hp_box h)(p \<mapsto> f v)\<rparr>)"
    using Some v(1) by (simp add: local_get_mut_def dash_map.get_look [OF assms(1,2)])
  moreover have "local_view (look d) h key = Some v" using Some v(1) by (simp add: local_view_def)
  ultimately show ?thesis by simp
qed

lemma local_remove_spec:
  assumes "dash_map D look dok" "dok d" "local_inv (look d) h"
  shows "case local_remove D key d h of (r, d', h') \<Rightarrow> r = Ok (local_view (look d) h key) \<and> dok d' \<and>
    local_inv (look d') h' \<and> local_view (look d') h' = (local_view (look d) h)(key := None)"
proof -
  obtain r h2 where free: "take_box (look d key) h = (r, h2)" by force
  have rem: "local_remove D key d h = (r, snd (dm_remove D key d), h2)"
    using dash_map.remove_eq [OF assms(1,2), of key] free by (auto simp: local_remove_def split: prod.splits)
  note laws = dash_map.remove_ok [OF assms(1,2)] dash_map.remove_look [OF assms(1,2)]
  show ?thesis
  proof (cases "look d key")
    case None
    then have "(look d)(key := None) = look d" "(local_view (look d) h)(key := None) = local_view (look d) h"
      by (auto simp: local_view_def fun_eq_iff)
    moreover have "r = Ok None" "h2 = h" "local_view (look d) h key = None"
      using None free by (simp_all add: take_box_def local_view_def)
    ultimately show ?thesis using assms(3) by (simp add: rem laws)
  next
    case (Some p)
    then obtain v where v: "hp_box h p = Some v" using local_inv_at [OF assms(3)] by blast
    with Some free have "h2 = h\<lparr>hp_box := (hp_box h)(p := None)\<rparr>" "r = Ok (Some v)"
      by (auto simp: take_box_def box_from_raw_def)
    moreover have "local_view (look d) h key = Some v" using Some v by (simp add: local_view_def)
    ultimately show ?thesis
      using local_inv_free [OF assms(3) Some] view_free [OF assms(3) Some] by (simp add: rem laws)
  qed
qed

text \<open>
  C17: The local storage behaves like a map from keys to values. \<open>put\<close> returns the previous value and stores the
  new one, \<open>get\<close> reads it, \<open>get_mut\<close> changes it in place, \<open>remove\<close> gives it back; and after
  every operation the boxes on the heap are exactly the stored values, so none leaks and no
  address is read or freed twice.
\<close>

theorem local_storage_refines_map:
  assumes "dash_map D look dok" and "dok d" and "local_inv (look d) h"
  defines "view \<equiv> local_view (look d) h"
  shows "(case local_put D key val d h of (r, d', h') \<Rightarrow> r = Ok (view key) \<and> dok d' \<and> local_inv (look d') h' \<and>
       local_view (look d') h' = view(key \<mapsto> val)) \<and>
     local_get D key d h = Ok (view key) \<and>
     (case local_get_mut D key f d h of (r, h') \<Rightarrow> r = Ok (view key) \<and> local_inv (look d) h' \<and>
       local_view (look d) h' = view(key := map_option f (view key))) \<and>
     (case local_remove D key d h of (r, d', h') \<Rightarrow> r = Ok (view key) \<and> dok d' \<and> local_inv (look d') h' \<and>
       local_view (look d') h' = view(key := None))"
  unfolding view_def
  by (intro conjI local_put_spec [OF assms(1-3)] local_get_spec [OF assms(1-3)]
      local_get_mut_spec [OF assms(1-3)] local_remove_spec [OF assms(1-3)])

theorem local_storage_refines_map_witness:
  "local_get alist_map ''a'' [(''a'', 0)] \<lparr>hp_next = 1, hp_box = [0 \<mapsto> (5::nat)]\<rparr> = Ok (Some 5)"
proof -
  let ?h = "\<lparr>hp_next = 1, hp_box = [0 \<mapsto> (5::nat)]\<rparr>"
  have "alist_ok [(''a'', 0::nat)]" "local_inv (map_of [(''a'', 0)]) ?h"
    by (auto simp: alist_ok_def local_inv_def split: if_splits)
  from local_storage_refines_map [OF alist.dash_map_axioms this, of "''a''" 0 id]
  have "local_get alist_map ''a'' [(''a'', 0)] ?h = Ok (local_view (map_of [(''a'', 0)]) ?h ''a'')" by blast
  then show ?thesis by (simp add: local_view_def)
qed

end
