(* ===== verification/StdCollections.thy ===== *)
theory StdCollections
  imports Prelude "HOL-Library.AList"
begin

text \<open>
  The collections of the standard library the program uses and whose order matters:
  \<^verbatim>\<open>BTreeMap\<close> as an association list kept in strictly ascending key order, and
  \<^verbatim>\<open>binary_search_by\<close> of slices as the halving loop the standard library runs.
  The operations a client may rely on are stated as the locale \<open>ordered_map\<close>, which is
  interpreted on these definitions.
\<close>

type_synonym ('k, 'v) btree = "('k \<times> 'v) list"

subsection \<open>BTreeMap\<close>

fun bt_put :: "'k::linorder \<Rightarrow> 'v \<Rightarrow> ('k, 'v) btree \<Rightarrow> ('k, 'v) btree" where
  "bt_put k v [] = [(k, v)]"
| "bt_put k v ((k', v') # m) =
     (if k < k' then (k, v) # (k', v') # m
      else if k = k' then (k, v) # m
      else (k', v') # bt_put k v m)"

text \<open>\<^verbatim>\<open>insert\<close> returns the value it replaced, \<^verbatim>\<open>remove\<close> the value it took out.\<close>

definition bt_insert :: "'k::linorder \<Rightarrow> 'v \<Rightarrow> ('k, 'v) btree \<Rightarrow> 'v option \<times> ('k, 'v) btree" where
  "bt_insert k v m = (map_of m k, bt_put k v m)"

definition bt_get :: "('k, 'v) btree \<Rightarrow> 'k \<Rightarrow> 'v option" where
  "bt_get m k = map_of m k"

definition bt_remove :: "'k \<Rightarrow> ('k, 'v) btree \<Rightarrow> 'v option \<times> ('k, 'v) btree" where
  "bt_remove k m = (map_of m k, AList.delete k m)"

fun bt_first_key_value :: "('k, 'v) btree \<Rightarrow> ('k \<times> 'v) option" where
  "bt_first_key_value [] = None"
| "bt_first_key_value (x # m) = Some x"

fun bt_pop_first :: "('k, 'v) btree \<Rightarrow> ('k \<times> 'v) option \<times> ('k, 'v) btree" where
  "bt_pop_first [] = (None, [])"
| "bt_pop_first (x # m) = (Some x, m)"

definition bt_inv :: "('k::linorder, 'v) btree \<Rightarrow> bool" where
  "bt_inv m \<longleftrightarrow> sorted_wrt (<) (map fst m)"

lemma bt_inv_simps [simp]:
  "bt_inv []"
  "bt_inv ((k, v) # m) \<longleftrightarrow> (\<forall>k' \<in> fst ` set m. k < k') \<and> bt_inv m"
  by (auto simp: bt_inv_def)

lemma bt_inv_distinct: "bt_inv m \<Longrightarrow> distinct (map fst m)"
  by (simp add: bt_inv_def sorted_wrt_less_distinct)

lemma set_keys_bt_put: "fst ` set (bt_put k v m) = insert k (fst ` set m)"
  by (induction k v m rule: bt_put.induct) auto

lemma bt_inv_put: "bt_inv m \<Longrightarrow> bt_inv (bt_put k v m)"
  by (induction k v m rule: bt_put.induct) (auto simp: set_keys_bt_put)

lemma map_of_bt_put: "bt_inv m \<Longrightarrow> map_of (bt_put k v m) = (map_of m)(k \<mapsto> v)"
  by (induction k v m rule: bt_put.induct) (auto simp: fun_eq_iff)

lemma bt_inv_delete: "bt_inv m \<Longrightarrow> bt_inv (AList.delete k m)"
  by (induction m) (auto simp: AList.delete_eq)

lemma map_of_eq_None_less: "\<forall>k' \<in> fst ` set m. (k::'k::linorder) < k' \<Longrightarrow> map_of m k = None"
  by (fastforce simp: map_of_eq_None_iff)

subsection \<open>The interface of an ordered map\<close>

locale ordered_map =
  fixes emp :: 'm
    and get :: "'m \<Rightarrow> 'k::linorder \<Rightarrow> 'v option"
    and ins :: "'k \<Rightarrow> 'v \<Rightarrow> 'm \<Rightarrow> 'v option \<times> 'm"
    and rem :: "'k \<Rightarrow> 'm \<Rightarrow> 'v option \<times> 'm"
    and first :: "'m \<Rightarrow> ('k \<times> 'v) option"
    and pop :: "'m \<Rightarrow> ('k \<times> 'v) option \<times> 'm"
    and invar :: "'m \<Rightarrow> bool"
  assumes invar_emp: "invar emp"
    and get_emp: "get emp k = None"
    and ins_old: "fst (ins k v m) = get m k"
    and get_ins: "invar m \<Longrightarrow> get (snd (ins k v m)) = (get m)(k \<mapsto> v)"
    and invar_ins: "invar m \<Longrightarrow> invar (snd (ins k v m))"
    and rem_old: "fst (rem k m) = get m k"
    and get_rem: "invar m \<Longrightarrow> get (snd (rem k m)) = (get m)(k := None)"
    and invar_rem: "invar m \<Longrightarrow> invar (snd (rem k m))"
    and first_None: "first m = None \<longleftrightarrow> (\<forall>k. get m k = None)"
    and first_get: "invar m \<Longrightarrow> first m = Some (k, v) \<Longrightarrow> get m k = Some v"
    and first_least: "invar m \<Longrightarrow> first m = Some (k, v) \<Longrightarrow> get m k' = Some v' \<Longrightarrow> k \<le> k'"
    and pop_first: "fst (pop m) = first m"
    and get_pop: "invar m \<Longrightarrow> first m = Some (k, v) \<Longrightarrow> get (snd (pop m)) = (get m)(k := None)"
    and pop_None: "first m = None \<Longrightarrow> snd (pop m) = m"
    and invar_pop: "invar m \<Longrightarrow> invar (snd (pop m))"
begin

text \<open>Popping repeatedly visits the keys in ascending order.\<close>

lemma pop_ascending:
  assumes "invar m" "fst (pop m) = Some (k, v)" "fst (pop (snd (pop m))) = Some (k', v')"
  shows "k < k'"
proof -
  have f: "first m = Some (k, v)" and inv': "invar (snd (pop m))"
    and f': "first (snd (pop m)) = Some (k', v')"
    using assms by (simp_all add: pop_first invar_pop)
  have g: "get (snd (pop m)) = (get m)(k := None)"
    by (rule get_pop [OF assms(1) f])
  have "get (snd (pop m)) k' = Some v'" by (rule first_get [OF inv' f'])
  with g have "k' \<noteq> k" and "get m k' = Some v'" by (auto split: if_splits)
  with first_least [OF assms(1) f] show ?thesis by (auto simp: order_less_le)
qed

text \<open>What was just inserted under a key is what a removal of that key gives back.\<close>

lemma rem_ins: "invar m \<Longrightarrow> fst (rem k (snd (ins k v m))) = Some v"
  by (simp add: rem_old get_ins)

end

interpretation bt: ordered_map "[]" bt_get bt_insert bt_remove bt_first_key_value bt_pop_first bt_inv
proof (unfold_locales, goal_cases)
  case (9 m)
  then show ?case by (cases m) (auto simp: bt_get_def)
next
  case (10 m k v)
  then show ?case by (cases m) (auto simp: bt_get_def)
next
  case (11 m k v k' v')
  then show ?case
    by (cases m) (force simp: bt_get_def dest: map_of_SomeD split: if_splits)+
next
  case (12 m)
  then show ?case by (cases m) auto
next
  case (13 m k v)
  then show ?case
    by (cases m) (auto simp: bt_get_def fun_eq_iff map_of_eq_None_less)
next
  case (14 m)
  then show ?case by (cases m) auto
next
  case (15 m)
  then show ?case by (cases m) auto
qed (simp_all add: bt_get_def fun_eq_iff bt_insert_def bt_remove_def map_of_bt_put bt_inv_put
      bt_inv_delete delete_conv')

subsection \<open>Binary search\<close>

text \<open>
  \<^verbatim>\<open>slice::binary_search_by\<close>: \<open>Ok i\<close> when an element compares equal, otherwise \<open>Err i\<close>
  with the position where the search interval became empty.
\<close>

function bsearch_loop :: "'a::linorder list \<Rightarrow> 'a \<Rightarrow> nat \<Rightarrow> nat \<Rightarrow> (nat, nat) outcome" where
  "bsearch_loop xs t left right =
     (if left < right then
        let mid = left + (right - left) div 2; x = xs ! mid in
        if x = t then Ok mid
        else if x < t then bsearch_loop xs t (mid + 1) right
        else bsearch_loop xs t left mid
      else Err left)"
  by pat_completeness auto
termination
  by (relation "measure (\<lambda>(xs, t, left, right). right - left)") auto

declare bsearch_loop.simps [simp del]

definition binary_search :: "'a::linorder list \<Rightarrow> 'a \<Rightarrow> (nat, nat) outcome" where
  "binary_search xs t = bsearch_loop xs t 0 (length xs)"

text \<open>On a sorted slice the loop keeps every smaller element on its left and every larger one
  on its right.\<close>

lemma bsearch_loop_correct:
  assumes "sorted xs" "left \<le> right" "right \<le> length xs"
    "\<forall>i < left. xs ! i < t" "\<forall>i. right \<le> i \<and> i < length xs \<longrightarrow> t < xs ! i"
  shows "case bsearch_loop xs t left right of
           Ok i \<Rightarrow> i < length xs \<and> xs ! i = t
         | Err i \<Rightarrow> i \<le> length xs \<and> t \<notin> set xs \<and> (\<forall>j < i. xs ! j < t)
                  \<and> (\<forall>j. i \<le> j \<and> j < length xs \<longrightarrow> t < xs ! j)
         | Panic _ \<Rightarrow> False"
  using assms
proof (induction xs t left right rule: bsearch_loop.induct)
  case (1 xs t left right)
  define mid where "mid = left + (right - left) div 2"
  show ?case
  proof (cases "left < right")
    case False
    with "1.prems" have "left = right" by simp
    with "1.prems" have "t \<notin> set xs"
      by (metis in_set_conv_nth leI less_irrefl)
    with \<open>left = right\<close> "1.prems" show ?thesis
      by (simp add: bsearch_loop.simps [of xs t right right])
  next
    case True
    then have mid: "left \<le> mid" "mid < right" by (auto simp: mid_def)
    consider "xs ! mid = t" | "xs ! mid < t" | "t < xs ! mid" by fastforce
    then show ?thesis
    proof cases
      case 1
      with True mid "1.prems" show ?thesis
        by (simp add: bsearch_loop.simps [of xs t left right] mid_def [symmetric] Let_def)
    next
      case 2
      have "\<forall>i < mid + 1. xs ! i < t"
      proof (intro allI impI)
        fix i assume "i < mid + 1"
        then have "xs ! i \<le> xs ! mid"
          using "1.prems"(1,3) mid by (intro sorted_nth_mono) auto
        with 2 show "xs ! i < t" by order
      qed
      with "1.IH"(1) [OF True mid_def refl] 2 "1.prems" mid True show ?thesis
        by (simp add: bsearch_loop.simps [of xs t left right] mid_def [symmetric] Let_def)
    next
      case 3
      have "\<forall>i. mid \<le> i \<and> i < length xs \<longrightarrow> t < xs ! i"
      proof (intro allI impI)
        fix i assume i: "mid \<le> i \<and> i < length xs"
        then have "xs ! mid \<le> xs ! i" using "1.prems"(1) by (intro sorted_nth_mono) auto
        with 3 show "t < xs ! i" by order
      qed
      moreover have "\<not> xs ! mid < t" "xs ! mid \<noteq> t" using 3 by auto
      ultimately show ?thesis using "1.IH"(2) [OF True mid_def refl] "1.prems" mid True
        by (simp add: bsearch_loop.simps [of xs t left right] mid_def [symmetric] Let_def)
    qed
  qed
qed

lemma binary_search_correct:
  assumes "sorted xs"
  shows "case binary_search xs t of
           Ok i \<Rightarrow> i < length xs \<and> xs ! i = t
         | Err i \<Rightarrow> i \<le> length xs \<and> t \<notin> set xs \<and> (\<forall>j < i. xs ! j < t)
                  \<and> (\<forall>j. i \<le> j \<and> j < length xs \<longrightarrow> t < xs ! j)
         | Panic _ \<Rightarrow> False"
  unfolding binary_search_def by (rule bsearch_loop_correct) (use assms in auto)

lemma binary_search_sorted_Ok:
  "sorted xs \<Longrightarrow> t \<in> set xs \<Longrightarrow> \<exists>i < length xs. binary_search xs t = Ok i \<and> xs ! i = t"
  using binary_search_correct [of xs t] by (auto split: outcome.splits)

lemma binary_search_sorted_Err:
  "sorted xs \<Longrightarrow> t \<notin> set xs \<Longrightarrow>
   \<exists>i \<le> length xs. binary_search xs t = Err i \<and> (\<forall>j < i. xs ! j < t)
     \<and> (\<forall>j. i \<le> j \<and> j < length xs \<longrightarrow> t < xs ! j)"
  using binary_search_correct [of xs t] by (auto split: outcome.splits)

end
