(* ===== verification/Timer.thy ===== *)
theory Timer
  imports StdCollections
begin

text \<open>
  The crate \<^verbatim>\<open>open-coroutine-timer\<close>: the wall clock, deadlines, and the list of entries
  grouped by timestamp that the scheduler and the monitor keep.

  The clock is the environment's: the record \<open>env\<close> holds the sequence of readings the
  operating system will give (in nanoseconds since the epoch) and how many were taken, so
  that two calls of \<open>now\<close> in one operation may see different times.
\<close>

subsection \<open>The clock\<close>

record env =
  clk :: "nat \<Rightarrow> nat"
  reads :: nat

text \<open>A \<^verbatim>\<open>Duration\<close> is its number of nanoseconds (\<^verbatim>\<open>as_nanos\<close>, which is a \<^verbatim>\<open>u128\<close>).\<close>

type_synonym duration = nat

definition u64_try_from :: "nat \<Rightarrow> u64 option" where
  "u64_try_from n = (if n < 2 ^ 64 then Some (of_nat n) else None)"

text \<open>One reading of the clock, \<open>Panic\<close> when the time is before the epoch.\<close>

definition now_at :: "int \<Rightarrow> (u64, unit) outcome" where
  "now_at t =
     (if t < 0 then Panic ''1970-01-01 00:00:00 UTC was {} seconds ago!''
      else Ok (case u64_try_from (nat t) of Some n \<Rightarrow> n | None \<Rightarrow> u64_MAX))"

definition now :: "'w env_scheme \<Rightarrow> u64 \<times> 'w env_scheme" where
  "now w = (case u64_try_from (clk w (reads w)) of Some n \<Rightarrow> n | None \<Rightarrow> u64_MAX,
            w\<lparr>reads := Suc (reads w)\<rparr>)"

definition get_timeout_time :: "duration \<Rightarrow> 'w env_scheme \<Rightarrow> u64 \<times> 'w env_scheme" where
  "get_timeout_time dur w =
     (case u64_try_from dur of
        Some d \<Rightarrow> (let (n, w') = now w in (saturating_add d n, w'))
      | None \<Rightarrow> (u64_MAX, w))"

lemma now_eq_now_at: "Ok (fst (now w)) = now_at (int (clk w (reads w)))"
  by (simp add: now_def now_at_def)

lemma unat_u64_try_from: "u64_try_from n = Some d \<Longrightarrow> unat d = n"
  by (auto simp: u64_try_from_def unat_of_nat split: if_splits)

lemma unat_now: "unat (fst (now w)) = min (clk w (reads w)) (2 ^ 64 - 1)"
  by (auto simp: now_def u64_MAX_def unat_max_word u64_try_from_def unat_of_nat split: option.splits if_splits)

lemma reads_now [simp]: "reads (snd (now w)) = Suc (reads w)" "clk (snd (now w)) = clk w"
  by (simp_all add: now_def)

lemma clk_get_timeout_time [simp]: "clk (snd (get_timeout_time d w)) = clk w"
  by (auto simp: get_timeout_time_def split: option.splits prod.splits)
    (metis reads_now(2) snd_conv)

lemma unat_get_timeout_time:
  "unat (fst (get_timeout_time d w)) =
     (if d < 2 ^ 64 then min (d + unat (fst (now w))) (2 ^ 64 - 1) else 2 ^ 64 - 1)"
proof (cases "u64_try_from d")
  case None
  then show ?thesis
    by (simp add: get_timeout_time_def u64_MAX_def unat_max_word u64_try_from_def split: if_splits)
next
  case (Some n)
  then have "d < 2 ^ 64" "unat n = d"
    by (auto simp: u64_try_from_def unat_of_nat split: if_splits)
  with Some show ?thesis
    by (simp add: get_timeout_time_def unat_saturating_add split: prod.splits)
qed

subsection \<open>TimerEntry\<close>

record 'a timer_entry =
  te_timestamp :: u64
  te_inner :: "'a list"

definition te_new :: "u64 \<Rightarrow> 'a timer_entry" where
  "te_new ts = \<lparr>te_timestamp = ts, te_inner = []\<rparr>"

definition te_len :: "'a timer_entry \<Rightarrow> nat" where
  "te_len e = length (te_inner e)"

definition te_is_empty :: "'a timer_entry \<Rightarrow> bool" where
  "te_is_empty e \<longleftrightarrow> te_inner e = []"

definition te_get_timestamp :: "'a timer_entry \<Rightarrow> u64" where
  "te_get_timestamp e = te_timestamp e"

definition te_pop_front :: "'a timer_entry \<Rightarrow> 'a option \<times> 'a timer_entry" where
  "te_pop_front e = (case te_inner e of [] \<Rightarrow> (None, e) | x # xs \<Rightarrow> (Some x, e\<lparr>te_inner := xs\<rparr>))"

definition te_push_back :: "'a \<Rightarrow> 'a timer_entry \<Rightarrow> 'a timer_entry" where
  "te_push_back t e = e\<lparr>te_inner := te_inner e @ [t]\<rparr>"

text \<open>
  \<^verbatim>\<open>binary_search_by\<close> gives a position whether or not the element is there
  (\<^verbatim>\<open>unwrap_or_else(|x| x)\<close>), and \<^verbatim>\<open>VecDeque::remove\<close> takes out what is at that position.
\<close>

definition te_remove :: "'a::linorder \<Rightarrow> 'a timer_entry \<Rightarrow> 'a option \<times> 'a timer_entry" where
  "te_remove t e =
     (let xs = te_inner e;
          index = (case binary_search xs t of Ok i \<Rightarrow> i | Err i \<Rightarrow> i | Panic _ \<Rightarrow> 0)
      in if index < length xs
         then (Some (xs ! index), e\<lparr>te_inner := take index xs @ drop (Suc index) xs\<rparr>)
         else (None, e))"

definition te_iter :: "'a timer_entry \<Rightarrow> 'a list" where
  "te_iter e = te_inner e"

lemmas te_defs = te_new_def te_len_def te_is_empty_def te_get_timestamp_def te_pop_front_def
  te_push_back_def te_iter_def

lemma te_remove_present:
  assumes "sorted (te_inner e)" and "t \<in> set (te_inner e)"
  shows "fst (te_remove t e) = Some t \<and>
    mset (te_inner e) = add_mset t (mset (te_inner (snd (te_remove t e))))"
proof -
  obtain i where i: "i < length (te_inner e)" "binary_search (te_inner e) t = Ok i" "te_inner e ! i = t"
    using binary_search_sorted_Ok assms by blast
  then have "te_inner e = take i (te_inner e) @ t # drop (Suc i) (te_inner e)"
    using id_take_nth_drop by metis
  then have "mset (te_inner e) = mset (take i (te_inner e)) + add_mset t (mset (drop (Suc i) (te_inner e)))"
    by (metis mset.simps(2) mset_append)
  with i show ?thesis by (simp add: te_remove_def Let_def)
qed

lemma te_remove_absent:
  assumes "sorted (te_inner e)" and "t \<notin> set (te_inner e)"
  shows "fst (te_remove t e) = find (\<lambda>x. t < x) (te_inner e)"
proof -
  obtain i where i: "i \<le> length (te_inner e)" "binary_search (te_inner e) t = Err i"
    "\<forall>j < i. te_inner e ! j < t" "\<forall>j. i \<le> j \<and> j < length (te_inner e) \<longrightarrow> t < te_inner e ! j"
    using binary_search_sorted_Err assms by blast
  show ?thesis
  proof (cases "i < length (te_inner e)")
    case True
    with i have "find (\<lambda>x. t < x) (te_inner e) = Some (te_inner e ! i)"
      unfolding find_Some_iff by (metis order.asym order_refl)
    with i True show ?thesis by (simp add: te_remove_def Let_def)
  next
    case False
    with i have "find (\<lambda>x. t < x) (te_inner e) = None"
      unfolding find_None_iff in_set_conv_nth by (metis linorder_not_less order.asym order.strict_trans2)
    with i False show ?thesis by (simp add: te_remove_def Let_def)
  qed
qed

subsection \<open>TimerList\<close>

type_synonym 'a timer_list = "(u64, 'a timer_entry) btree"

definition tl_default :: "'a timer_list" where
  "tl_default = []"

definition tl_len :: "'a timer_list \<Rightarrow> nat" where
  "tl_len m = (if m = [] then 0 else foldl (\<lambda>total (k, entry). total + te_len entry) 0 m)"

definition tl_entry_len :: "'a timer_list \<Rightarrow> nat" where
  "tl_entry_len m = length m"

text \<open>
  \<open>insert\<close> and the loop of its last branch, which puts the elements of a replaced entry
  back. The branch needs a key that \<^verbatim>\<open>get_mut\<close> does not find and \<^verbatim>\<open>insert\<close> does.
\<close>

function (sequential) tl_insert :: "u64 \<Rightarrow> 'a \<Rightarrow> 'a timer_list \<Rightarrow> 'a timer_list"
  and tl_reinsert :: "u64 \<Rightarrow> 'a list \<Rightarrow> 'a timer_list \<Rightarrow> 'a timer_list" where
  "tl_insert ts t m =
     (case bt_get m ts of
        Some entry \<Rightarrow> snd (bt_insert ts (te_push_back t entry) m)
      | None \<Rightarrow>
          (case bt_insert ts (te_push_back t (te_new ts)) m of
             (Some entry, m') \<Rightarrow> tl_reinsert ts (te_inner entry) m'
           | (None, m') \<Rightarrow> m'))"
| "tl_reinsert ts [] m = m"
| "tl_reinsert ts (e # es) m = tl_reinsert ts es (tl_insert ts e m)"
  by pat_completeness auto
termination
  by (relation "measure (\<lambda>x. case x of Inl _ \<Rightarrow> 0 | Inr (ts, es, m) \<Rightarrow> Suc (length es))")
    (auto simp: bt_insert_def bt_get_def)

declare tl_insert.simps [simp del]

definition tl_front :: "'a timer_list \<Rightarrow> (u64 \<times> 'a timer_entry) option" where
  "tl_front m = bt_first_key_value m"

definition tl_pop_front :: "'a timer_list \<Rightarrow> (u64 \<times> 'a timer_entry) option \<times> 'a timer_list" where
  "tl_pop_front m = bt_pop_first m"

definition tl_is_empty :: "'a timer_list \<Rightarrow> bool" where
  "tl_is_empty m \<longleftrightarrow> (if m = [] then True else list_all (\<lambda>(k, entry). te_is_empty entry) m)"

text \<open>\<^verbatim>\<open>get_entry\<close> hands out a mutable reference; the model takes the change as a function.\<close>

definition tl_get_entry :: "u64 \<Rightarrow> ('a timer_entry \<Rightarrow> 'b \<times> 'a timer_entry) \<Rightarrow> 'a timer_list
    \<Rightarrow> 'b option \<times> 'a timer_list" where
  "tl_get_entry ts f m =
     (case bt_get m ts of
        None \<Rightarrow> (None, m)
      | Some e \<Rightarrow> (let (b, e') = f e in (Some b, snd (bt_insert ts e' m))))"

definition tl_remove :: "u64 \<Rightarrow> 'a timer_list \<Rightarrow> 'a timer_entry option \<times> 'a timer_list" where
  "tl_remove ts m = bt_remove ts m"

definition tl_iter :: "'a timer_list \<Rightarrow> (u64 \<times> 'a timer_entry) list" where
  "tl_iter m = m"

subsection \<open>Invariant and abstraction\<close>

definition tl_inv :: "'a timer_list \<Rightarrow> bool" where
  "tl_inv m \<longleftrightarrow> bt_inv m \<and> (\<forall>(k, e) \<in> set m. te_timestamp e = k)"

text \<open>What the list holds: the elements with their timestamps, in the order they leave it.\<close>

definition tl_pairs :: "'a timer_list \<Rightarrow> (u64 \<times> 'a) list" where
  "tl_pairs m = concat (map (\<lambda>(k, e). map (Pair k) (te_inner e)) m)"

text \<open>The specification of \<open>insert\<close>: behind every element that is due no later.\<close>

fun ins_stable :: "u64 \<Rightarrow> 'a \<Rightarrow> (u64 \<times> 'a) list \<Rightarrow> (u64 \<times> 'a) list" where
  "ins_stable k x [] = [(k, x)]"
| "ins_stable k x ((k', y) # ps) =
     (if k < k' then (k, x) # (k', y) # ps else (k', y) # ins_stable k x ps)"

lemma tl_pairs_simps [simp]:
  "tl_pairs [] = []"
  "tl_pairs ((k, e) # m) = map (Pair k) (te_inner e) @ tl_pairs m"
  by (simp_all add: tl_pairs_def)

lemma fst_tl_pairs: "p \<in> set (tl_pairs m) \<Longrightarrow> fst p \<in> fst ` set m"
  by (force simp: tl_pairs_def)

lemma mset_ins_stable: "mset (ins_stable k x ps) = add_mset (k, x) (mset ps)"
  by (induction k x ps rule: ins_stable.induct) auto

lemma set_ins_stable: "set (ins_stable k x ps) = insert (k, x) (set ps)"
  by (induction k x ps rule: ins_stable.induct) auto

lemma sorted_ins_stable: "sorted (map fst ps) \<Longrightarrow> sorted (map fst (ins_stable k x ps))"
  by (induction k x ps rule: ins_stable.induct) (auto simp: set_ins_stable)

lemma ins_stable_append:
  "\<forall>p \<in> set ps. fst p \<le> k \<Longrightarrow> ins_stable k x (ps @ qs) = ps @ ins_stable k x qs"
  by (induction ps) auto

lemma ins_stable_Cons:
  "\<forall>p \<in> set ps. k < fst p \<Longrightarrow> ins_stable k x ps = (k, x) # ps"
  by (cases ps) auto

text \<open>One equation describes \<open>insert\<close>: the branch that puts elements back is dead.\<close>

lemma tl_insert_eq:
  "tl_insert ts t m =
     bt_put ts (te_push_back t (case map_of m ts of Some e \<Rightarrow> e | None \<Rightarrow> te_new ts)) m"
  by (auto simp: tl_insert.simps bt_get_def bt_insert_def split: option.splits)

lemma tl_inv_insert: "tl_inv m \<Longrightarrow> tl_inv (tl_insert ts t m)"
proof -
  assume inv: "tl_inv m"
  have "set (bt_put k v m) \<subseteq> insert (k, v) (set m)" for k :: u64 and v :: "'a timer_entry"
    by (induction k v m rule: bt_put.induct) auto
  then show ?thesis
    using inv by (fastforce simp: tl_insert_eq tl_inv_def te_defs bt_inv_put
        dest: map_of_SomeD split: option.splits)
qed

lemma tl_pairs_insert:
  "bt_inv m \<Longrightarrow> tl_pairs (tl_insert ts t m) = ins_stable ts t (tl_pairs m)"
proof (induction m)
  case Nil
  then show ?case by (simp add: tl_insert_eq te_defs)
next
  case (Cons ke m)
  obtain k e where ke: "ke = (k, e)" by force
  from Cons.prems ke have inv: "\<forall>k' \<in> fst ` set m. k < k'" "bt_inv m" by auto
  have after: "\<forall>p \<in> set (tl_pairs m). k < fst p"
    using inv(1) by (blast dest: fst_tl_pairs)
  consider "ts < k" | "ts = k" | "k < ts" by fastforce
  then show ?case
  proof cases
    case 1
    then have "\<forall>p \<in> set (tl_pairs (ke # m)). ts < fst p"
      using ke after by (auto intro: order.strict_trans)
    moreover from 1 inv have "map_of m ts = None"
      by (auto intro!: map_of_eq_None_less intro: order.strict_trans)
    moreover from 1 have "ts \<noteq> k" by simp
    ultimately show ?thesis using 1 ke
      by (simp add: tl_insert_eq te_defs ins_stable_Cons)
  next
    case 2
    then have "ins_stable ts t (tl_pairs m) = (ts, t) # tl_pairs m"
      using after by (simp add: ins_stable_Cons)
    with 2 ke show ?thesis
      by (simp add: tl_insert_eq te_defs ins_stable_append)
  next
    case 3
    then have "ts \<noteq> k" "\<not> ts < k" "\<forall>p \<in> set (map (Pair k) (te_inner e)). fst p \<le> ts" by auto
    with Cons.IH inv ke show ?thesis
      by (simp add: tl_insert_eq ins_stable_append)
  qed
qed

lemma tl_len_pairs: "tl_len m = length (tl_pairs m)"
proof -
  have "foldl (\<lambda>total (k, entry). total + te_len entry) n m = n + length (tl_pairs m)" for n
    by (induction m arbitrary: n) (auto simp: te_defs)
  then show ?thesis by (simp add: tl_len_def)
qed

lemma tl_is_empty_pairs: "tl_is_empty m \<longleftrightarrow> tl_pairs m = []"
  by (auto simp: tl_is_empty_def tl_pairs_def te_is_empty_def list_all_iff)

lemma tl_inv_pop: "tl_inv m \<Longrightarrow> tl_inv (snd (tl_pop_front m))"
  by (cases m) (auto simp: tl_inv_def tl_pop_front_def)

lemma tl_pop_front_pairs:
  assumes "tl_pop_front m = (Some (k, e), m')"
  shows "tl_pairs m = map (Pair k) (te_inner e) @ tl_pairs m'"
  using assms by (cases m) (auto simp: tl_pop_front_def)

lemma tl_pop_front_least:
  assumes "tl_inv m" "tl_pop_front m = (Some (k, e), m')" "p \<in> set (tl_pairs m')"
  shows "k < fst p" and "te_timestamp e = k"
  using assms by (cases m; auto simp: tl_pop_front_def tl_inv_def dest!: fst_tl_pairs)+

subsection \<open>The contract of a timed queue\<close>

text \<open>
  What the scheduler and the monitor rely on: elements leave in timestamp order and, within one
  timestamp, in the order they came.
\<close>

locale timed_queue =
  fixes emp :: 'm
    and ins :: "u64 \<Rightarrow> 'a \<Rightarrow> 'm \<Rightarrow> 'm"
    and pop :: "'m \<Rightarrow> (u64 \<times> 'e) option \<times> 'm"
    and len :: "'m \<Rightarrow> nat"
    and empty :: "'m \<Rightarrow> bool"
    and elems :: "'e \<Rightarrow> 'a list"
    and pairs :: "'m \<Rightarrow> (u64 \<times> 'a) list"
    and invar :: "'m \<Rightarrow> bool"
  assumes invar_emp: "invar emp" and pairs_emp: "pairs emp = []"
    and invar_ins: "invar m \<Longrightarrow> invar (ins k x m)"
    and pairs_ins: "invar m \<Longrightarrow> pairs (ins k x m) = ins_stable k x (pairs m)"
    and invar_pop: "invar m \<Longrightarrow> invar (snd (pop m))"
    and pairs_pop: "pop m = (Some (k, e), m') \<Longrightarrow> pairs m = map (Pair k) (elems e) @ pairs m'"
    and pop_least: "invar m \<Longrightarrow> pop m = (Some (k, e), m') \<Longrightarrow> p \<in> set (pairs m') \<Longrightarrow> k < fst p"
    and len_pairs: "len m = length (pairs m)"
    and empty_pairs: "empty m \<longleftrightarrow> pairs m = []"
begin

lemma len_ins: "invar m \<Longrightarrow> len (ins k x m) = Suc (len m)"
proof -
  have "length (ins_stable k x ps) = Suc (length ps)" for ps
    by (induction k x ps rule: ins_stable.induct) auto
  then show "invar m \<Longrightarrow> ?thesis" by (simp add: len_pairs pairs_ins)
qed

lemma ins_not_empty: "invar m \<Longrightarrow> \<not> empty (ins k x m)"
  using len_ins [of m k x] by (auto simp: len_pairs empty_pairs)

lemma mset_ins: "invar m \<Longrightarrow> mset (pairs (ins k x m)) = add_mset (k, x) (mset (pairs m))"
  by (simp add: pairs_ins mset_ins_stable)

fun ins_all :: "(u64 \<times> 'a) list \<Rightarrow> 'm" where
  "ins_all [] = emp"
| "ins_all ((k, x) # ps) = ins k x (ins_all ps)"

lemma invar_ins_all: "invar (ins_all ps)"
  by (induction ps rule: ins_all.induct) (auto simp: invar_emp invar_ins)

text \<open>However the elements were inserted, they come out sorted by timestamp, none lost and none
  duplicated.\<close>

lemma ins_all_sorted: "sorted (map fst (pairs (ins_all ps)))"
proof (induction ps rule: ins_all.induct)
  case (2 k x ps)
  then show ?case by (simp add: pairs_ins invar_ins_all sorted_ins_stable)
qed (simp add: pairs_emp)

lemma mset_ins_all: "mset (pairs (ins_all ps)) = mset ps"
  by (induction ps rule: ins_all.induct) (auto simp: mset_ins invar_ins_all pairs_emp)

end

interpretation tlq: timed_queue tl_default tl_insert tl_pop_front tl_len tl_is_empty te_inner
  tl_pairs tl_inv
  by unfold_locales
    (auto simp: tl_default_def tl_inv_insert tl_pairs_insert tl_inv_pop tl_len_pairs
      tl_is_empty_pairs tl_inv_def [of "[]"] tl_inv_def [THEN iffD1, THEN conjunct1]
      dest: tl_pop_front_pairs tl_pop_front_least)

subsection \<open>Claims about the timer\<close>

text \<open>
  C18: Inserting keeps the list well formed, puts the element behind everything that is due no
  later and before everything due later, and changes the order of nothing else: the list of pending
  elements is exactly the stable insertion into the old one.
\<close>

theorem timer_insert_refines:
  assumes "tl_inv m"
  shows "tl_inv (tl_insert ts t m) \<and> tl_pairs (tl_insert ts t m) = ins_stable ts t (tl_pairs m) \<and>
    tl_len (tl_insert ts t m) = Suc (tl_len m)"
  using tlq.pairs_ins [OF assms] tlq.invar_ins [OF assms] tlq.len_ins [OF assms] by simp

theorem timer_insert_refines_witness:
  "tl_pairs (tl_insert 5 8 [(5, \<lparr>te_timestamp = 5, te_inner = [7]\<rparr>),
     (9, \<lparr>te_timestamp = 9, te_inner = [2]\<rparr>)]) = [(5, 7), (5, 8::nat), (9, 2)]"
proof -
  have inv: "tl_inv [(5, \<lparr>te_timestamp = 5, te_inner = [7::nat]\<rparr>), (9, \<lparr>te_timestamp = 9, te_inner = [2]\<rparr>)]"
    by (simp add: tl_inv_def)
  have "ins_stable 5 8 (tl_pairs [(5, \<lparr>te_timestamp = 5, te_inner = [7::nat]\<rparr>),
      (9, \<lparr>te_timestamp = 9, te_inner = [2]\<rparr>)]) = [(5, 7), (5, 8), (9, 2)]"
    by simp
  with timer_insert_refines [OF inv, THEN conjunct2, THEN conjunct1, of 5 8]
  show ?thesis by (rule trans)
qed

text \<open>
  Popping the front entry gives all elements of the least timestamp, in the order they were
  inserted, and leaves only elements due strictly later.
\<close>

theorem timer_pop_least:
  assumes "tl_inv m" and "tl_pop_front m = (Some (k, e), m')"
  shows "tl_inv m' \<and> te_timestamp e = k \<and> tl_pairs m = map (Pair k) (te_inner e) @ tl_pairs m' \<and>
    (\<forall>p \<in> set (tl_pairs m'). k < fst p)"
proof -
  have "te_timestamp e = k"
    using assms by (cases m) (auto simp: tl_pop_front_def tl_inv_def)
  then show ?thesis
    using assms tlq.invar_pop [OF assms(1)] tlq.pairs_pop tlq.pop_least by auto
qed

theorem timer_pop_least_witness:
  "tl_pairs [(5, \<lparr>te_timestamp = 5, te_inner = [1::nat, 0]\<rparr>), (9, \<lparr>te_timestamp = 9, te_inner = [2]\<rparr>)]
     = map (Pair 5) [1, 0] @ tl_pairs [(9, \<lparr>te_timestamp = 9, te_inner = [2]\<rparr>)]"
  using timer_pop_least [of "[(5, \<lparr>te_timestamp = 5, te_inner = [1::nat, 0]\<rparr>),
      (9, \<lparr>te_timestamp = 9, te_inner = [2]\<rparr>)]" 5 "\<lparr>te_timestamp = 5, te_inner = [1, 0]\<rparr>"
      "[(9, \<lparr>te_timestamp = 9, te_inner = [2]\<rparr>)]"]
  by (simp add: tl_inv_def tl_pop_front_def)

text \<open>
  A deadline is the current reading of the clock plus the duration, clamped to the maximum of
  \<^verbatim>\<open>u64\<close>: no duration makes it wrap around into the past.
\<close>

theorem timeout_time_saturates:
  "unat (fst (get_timeout_time d w)) = min (d + min (clk w (reads w)) (2 ^ 64 - 1)) (2 ^ 64 - 1)"
  by (auto simp: unat_get_timeout_time unat_now)

text \<open>
  On an entry that is sorted, removing an element that is there takes out one
  occurrence of it and keeps the rest in order; but removing one that is not there, and is smaller than
  some element, takes out that other element instead of returning \<^verbatim>\<open>None\<close>.
\<close>

theorem timer_entry_remove:
  assumes "sorted (te_inner e)"
  shows "(t \<in> set (te_inner e) \<longrightarrow> fst (te_remove t e) = Some t \<and>
      mset (te_inner e) = add_mset t (mset (te_inner (snd (te_remove t e))))) \<and>
    (t \<notin> set (te_inner e) \<longrightarrow> fst (te_remove t e) = find (\<lambda>x. t < x) (te_inner e))"
  using te_remove_present te_remove_absent assms by blast

theorem timer_entry_remove_witness:
  "fst (te_remove 3 \<lparr>te_timestamp = 0, te_inner = [1::nat, 3, 5]\<rparr>) = Some 3 \<and>
   fst (te_remove 2 \<lparr>te_timestamp = 0, te_inner = [1::nat, 3, 5]\<rparr>) = Some 3"
  using timer_entry_remove [of "\<lparr>te_timestamp = 0, te_inner = [1::nat, 3, 5]\<rparr>" 3]
    timer_entry_remove [of "\<lparr>te_timestamp = 0, te_inner = [1::nat, 3, 5]\<rparr>" 2]
  by simp

end
