(* ===== verification/CoState.thy ===== *)
theory CoState
  imports Timer
begin

text \<open>
  The states of \<^verbatim>\<open>open-coroutine-core/src/constants.rs\<close> and the state machine of a coroutine
  (the \<^verbatim>\<open>StateMachine\<close> methods of \<^verbatim>\<open>coroutine/korosensei.rs\<close>).

  \<^verbatim>\<open>std::io::Error\<close> values are kept structured: which coroutine, from which state, to which
  state, where the code formats them into a message. Logging is not modelled.
\<close>

subsection \<open>Constants\<close>

definition DEFAULT_STACK_SIZE :: nat where "DEFAULT_STACK_SIZE = 64 * 1024"

definition MONITOR_CPU :: nat where "MONITOR_CPU = 0"

text \<open>The system calls of the Linux build.\<close>

datatype syscall =
    Sys_sleep | Sys_usleep | Sys_nanosleep | Sys_poll | Sys_select
  | Sys_accept4 | Sys_epoll_ctl | Sys_epoll_wait | Sys_io_uring_enter
  | Sys_recv | Sys_recvfrom | Sys_read | Sys_pread | Sys_readv | Sys_preadv | Sys_recvmsg
  | Sys_connect | Sys_listen | Sys_accept | Sys_shutdown | Sys_close | Sys_socket
  | Sys_send | Sys_sendto | Sys_write | Sys_pwrite | Sys_writev | Sys_pwritev | Sys_sendmsg
  | Sys_fsync | Sys_renameat | Sys_renameat2 | Sys_mkdirat | Sys_openat

datatype syscall_state =
    Sys_Computing
  | Sys_Suspend u64
  | Sys_Calling syscall
  | Sys_Timeout
  | Sys_Finished

datatype ('y, 'r) coroutine_state =
    Created
  | Ready
  | Running
  | Suspend 'y u64
  | SystemCall 'y syscall syscall_state
  | Complete 'r
  | Error string

datatype pool_state = Pool_Created | Pool_Running | Pool_Stopping bool | Pool_Stopped

subsection \<open>The coroutine\<close>

text \<open>
  \<open>in_cont\<close> is where the user's function continues when it is resumed; \<open>in_started\<close> and
  \<open>in_done\<close> are the two observers of the third-party \<^verbatim>\<open>ScopedCoroutine\<close> the code uses.
  \<open>co_local\<close> is the coroutine's local storage.
\<close>

record 'k inner =
  in_started :: bool
  in_done :: bool
  in_cont :: 'k

record ('k, 'y, 'r, 'l) coroutine =
  co_name :: string
  co_inner :: "'k inner"
  co_state :: "('y, 'r) coroutine_state"
  co_local :: 'l

datatype ('y, 'r) co_error =
    Unexpected string "('y, 'r) coroutine_state" "('y, 'r) coroutine_state"
  | Unexpected_state string "('y, 'r) coroutine_state"

definition co_state_of :: "('k, 'y, 'r, 'l) coroutine \<Rightarrow> ('y, 'r) coroutine_state" where
  "co_state_of co = co_state co"

definition co_ready :: "('k, 'y, 'r, 'l) coroutine \<Rightarrow> 'w env_scheme
    \<Rightarrow> (unit, ('y, 'r) co_error) outcome \<times> ('k, 'y, 'r, 'l) coroutine \<times> 'w env_scheme" where
  "co_ready co w =
     (let current = co_state_of co; err = Err (Unexpected (co_name co) current Ready) in
      case current of
        Created \<Rightarrow> (Ok (), co\<lparr>co_state := Ready\<rparr>, w)
      | Suspend _ timestamp \<Rightarrow>
          (let (n, w) = now w in
           if timestamp \<le> n then (Ok (), co\<lparr>co_state := Ready\<rparr>, w) else (err, co, w))
      | _ \<Rightarrow> (err, co, w))"

definition co_running :: "('k, 'y, 'r, 'l) coroutine \<Rightarrow> 'w env_scheme
    \<Rightarrow> (unit, ('y, 'r) co_error) outcome \<times> ('k, 'y, 'r, 'l) coroutine \<times> 'w env_scheme" where
  "co_running co w =
     (let current = co_state_of co; err = Err (Unexpected (co_name co) current Running) in
      case current of
        Created \<Rightarrow> (Ok (), co\<lparr>co_state := Running\<rparr>, w)
      | Ready \<Rightarrow> (Ok (), co\<lparr>co_state := Running\<rparr>, w)
      | Suspend _ timestamp \<Rightarrow>
          (let (n, w) = now w in
           if timestamp \<le> n then (Ok (), co\<lparr>co_state := Running\<rparr>, w) else (err, co, w))
      | SystemCall _ _ _ \<Rightarrow> (Ok (), co, w)
      | _ \<Rightarrow> (err, co, w))"

definition co_suspend :: "'y \<Rightarrow> u64 \<Rightarrow> ('k, 'y, 'r, 'l) coroutine
    \<Rightarrow> (unit, ('y, 'r) co_error) outcome \<times> ('k, 'y, 'r, 'l) coroutine" where
  "co_suspend val timestamp co =
     (case co_state_of co of
        Running \<Rightarrow> (Ok (), co\<lparr>co_state := Suspend val timestamp\<rparr>)
      | current \<Rightarrow> (Err (Unexpected (co_name co) current (Suspend val timestamp)), co))"

definition co_syscall :: "'y \<Rightarrow> syscall \<Rightarrow> syscall_state \<Rightarrow> ('k, 'y, 'r, 'l) coroutine
    \<Rightarrow> (unit, ('y, 'r) co_error) outcome \<times> ('k, 'y, 'r, 'l) coroutine" where
  "co_syscall val sc st co =
     (let current = co_state_of co;
          err = Err (Unexpected (co_name co) current (SystemCall val sc st)) in
      case current of
        Running \<Rightarrow> (Ok (), co\<lparr>co_state := SystemCall val sc st\<rparr>)
      | SystemCall _ original_syscall _ \<Rightarrow>
          (if original_syscall = sc then (Ok (), co\<lparr>co_state := SystemCall val sc st\<rparr>) else (err, co))
      | _ \<Rightarrow> (err, co))"

definition co_syscall_resume :: "('k, 'y, 'r, 'l) coroutine
    \<Rightarrow> (unit, ('y, 'r) co_error) outcome \<times> ('k, 'y, 'r, 'l) coroutine" where
  "co_syscall_resume co =
     (case co_state_of co of
        SystemCall _ _ Sys_Finished \<Rightarrow> (Ok (), co\<lparr>co_state := Running\<rparr>)
      | SystemCall _ _ Sys_Timeout \<Rightarrow> (Ok (), co\<lparr>co_state := Running\<rparr>)
      | current \<Rightarrow> (Err (Unexpected (co_name co) current Running), co))"

definition co_complete :: "'r \<Rightarrow> ('k, 'y, 'r, 'l) coroutine
    \<Rightarrow> (unit, ('y, 'r) co_error) outcome \<times> ('k, 'y, 'r, 'l) coroutine" where
  "co_complete val co =
     (case co_state_of co of
        Running \<Rightarrow> (Ok (), co\<lparr>co_state := Complete val\<rparr>)
      | current \<Rightarrow> (Err (Unexpected (co_name co) current (Complete val)), co))"

definition co_error_with :: "string \<Rightarrow> ('k, 'y, 'r, 'l) coroutine
    \<Rightarrow> (unit, ('y, 'r) co_error) outcome \<times> ('k, 'y, 'r, 'l) coroutine" where
  "co_error_with val co =
     (case co_state_of co of
        Running \<Rightarrow> (Ok (), co\<lparr>co_state := Error val\<rparr>)
      | current \<Rightarrow> (Err (Unexpected (co_name co) current (Error val)), co))"

lemmas co_ops = co_ready_def co_running_def co_suspend_def co_syscall_def co_syscall_resume_def
  co_complete_def co_error_with_def co_state_of_def

subsection \<open>The lifecycle\<close>

text \<open>
  The transitions the comments of the trait \<^verbatim>\<open>StateMachine\<close> (\<^verbatim>\<open>coroutine/mod.rs\<close>)
  announce, as one relation on states at time \<open>n\<close>: leaving \<open>Suspend\<close> needs its deadline to
  have passed. (The announced \<^verbatim>\<open>syscall -> ready\<close> is not among them: see the claims.)
\<close>

inductive lifecycle :: "u64 \<Rightarrow> ('y, 'r) coroutine_state \<Rightarrow> ('y, 'r) coroutine_state \<Rightarrow> bool" for n where
  created_ready: "lifecycle n Created Ready"
| suspend_ready: "ts \<le> n \<Longrightarrow> lifecycle n (Suspend y ts) Ready"
| created_running: "lifecycle n Created Running"
| ready_running: "lifecycle n Ready Running"
| suspend_running: "ts \<le> n \<Longrightarrow> lifecycle n (Suspend y ts) Running"
| running_suspend: "lifecycle n Running (Suspend y ts)"
| running_syscall: "lifecycle n Running (SystemCall y sc st)"
| syscall_syscall: "lifecycle n (SystemCall y sc st) (SystemCall y' sc st')"
| syscall_running: "st \<in> {Sys_Finished, Sys_Timeout} \<Longrightarrow> lifecycle n (SystemCall y sc st) Running"
| running_complete: "lifecycle n Running (Complete r)"
| running_error: "lifecycle n Running (Error m)"

inductive_simps lifecycle_simps [simp]:
  "lifecycle n Created s" "lifecycle n Ready s" "lifecycle n Running s" "lifecycle n (Suspend y ts) s"
  "lifecycle n (SystemCall y sc st) s" "lifecycle n (Complete r) s" "lifecycle n (Error m) s"

text \<open>The operations as commands, so that one statement covers them all.\<close>

datatype ('y, 'r) command =
    Do_ready | Do_running | Do_suspend 'y u64 | Do_syscall 'y syscall syscall_state
  | Do_syscall_resume | Do_complete 'r | Do_error string

fun run_command :: "('y, 'r) command \<Rightarrow> ('k, 'y, 'r, 'l) coroutine \<Rightarrow> 'w env_scheme
    \<Rightarrow> (unit, ('y, 'r) co_error) outcome \<times> ('k, 'y, 'r, 'l) coroutine \<times> 'w env_scheme" where
  "run_command Do_ready co w = co_ready co w"
| "run_command Do_running co w = co_running co w"
| "run_command (Do_suspend y ts) co w = (let (r, co) = co_suspend y ts co in (r, co, w))"
| "run_command (Do_syscall y sc st) co w = (let (r, co) = co_syscall y sc st co in (r, co, w))"
| "run_command Do_syscall_resume co w = (let (r, co) = co_syscall_resume co in (r, co, w))"
| "run_command (Do_complete v) co w = (let (r, co) = co_complete v co in (r, co, w))"
| "run_command (Do_error m) co w = (let (r, co) = co_error_with m co in (r, co, w))"

text \<open>The state a command aims at.\<close>

fun target :: "('y, 'r) command \<Rightarrow> ('y, 'r) coroutine_state" where
  "target Do_ready = Ready"
| "target Do_running = Running"
| "target (Do_suspend y ts) = Suspend y ts"
| "target (Do_syscall y sc st) = SystemCall y sc st"
| "target Do_syscall_resume = Running"
| "target (Do_complete v) = Complete v"
| "target (Do_error m) = Error m"

text \<open>Which method serves a transition into \<open>Running\<close>: the two entries are disjoint.\<close>

fun accepts :: "('y, 'r) command \<Rightarrow> ('y, 'r) coroutine_state \<Rightarrow> bool" where
  "accepts Do_running (SystemCall y sc st) \<longleftrightarrow> False"
| "accepts Do_syscall_resume (SystemCall y sc st) \<longleftrightarrow> True"
| "accepts Do_syscall_resume s \<longleftrightarrow> False"
| "accepts c s \<longleftrightarrow> True"

definition is_syscall :: "('y, 'r) coroutine_state \<Rightarrow> bool" where
  "is_syscall s \<longleftrightarrow> (\<exists>y sc st. s = SystemCall y sc st)"

lemma is_syscall_simps [simp]:
  "is_syscall (SystemCall y sc st)" "\<not> is_syscall Created" "\<not> is_syscall Ready" "\<not> is_syscall Running"
  "\<not> is_syscall (Suspend y ts)" "\<not> is_syscall (Complete r)" "\<not> is_syscall (Error m)"
  by (simp_all add: is_syscall_def)

lemma run_command_cases:
  assumes "\<not> (c = Do_running \<and> is_syscall (co_state co))"
  shows "run_command c co w =
    (let w' = (case co_state co of Suspend y ts \<Rightarrow> if c = Do_ready \<or> c = Do_running then snd (now w) else w | _ \<Rightarrow> w)
     in if accepts c (co_state co) \<and> lifecycle (fst (now w)) (co_state co) (target c)
        then (Ok (), co\<lparr>co_state := target c\<rparr>, w')
        else (Err (Unexpected (co_name co) (co_state co) (target c)), co, w'))"
proof (cases c)
  case Do_ready
  then show ?thesis by (cases "co_state co") (auto simp: co_ops Let_def split: prod.splits)
next
  case Do_running
  with assms show ?thesis by (cases "co_state co") (auto simp: co_ops Let_def split: prod.splits)
next
  case (Do_suspend y ts)
  then show ?thesis by (cases "co_state co") (auto simp: co_ops Let_def)
next
  case (Do_syscall y sc st)
  then show ?thesis by (cases "co_state co") (auto simp: co_ops Let_def)
next
  case Do_syscall_resume
  then show ?thesis
    by (cases "co_state co") (auto simp: co_ops Let_def split: syscall_state.splits)
next
  case (Do_complete r)
  then show ?thesis by (cases "co_state co") (auto simp: co_ops Let_def)
next
  case (Do_error m)
  then show ?thesis by (cases "co_state co") (auto simp: co_ops Let_def)
qed

lemma running_syscall_keeps: "is_syscall (co_state co) \<Longrightarrow> co_running co w = (Ok (), co, w)"
  by (auto simp: is_syscall_def co_ops Let_def)

subsection \<open>Claims about the state machine\<close>


text \<open>A coroutine to evaluate the methods on.\<close>

definition sample_co :: "(nat, nat) coroutine_state \<Rightarrow> (unit, nat, nat, unit) coroutine" where
  "sample_co s = \<lparr>co_name = ''co'', co_inner = \<lparr>in_started = True, in_done = False, in_cont = ()\<rparr>,
     co_state = s, co_local = ()\<rparr>"

definition sample_env :: "nat \<Rightarrow> env" where
  "sample_env t = \<lparr>clk = (\<lambda>_. t), reads = 0\<rparr>"


fun run_commands :: "('y, 'r) command list \<Rightarrow> ('k, 'y, 'r, 'l) coroutine \<Rightarrow> 'w env_scheme
    \<Rightarrow> (unit, ('y, 'r) co_error) outcome list \<times> ('k, 'y, 'r, 'l) coroutine" where
  "run_commands [] co w = ([], co)"
| "run_commands (c # cs) co w =
     (let (r, co, w) = run_command c co w; (rs, co) = run_commands cs co w in (r # rs, co))"

lemma run_command_final:
  assumes "co_state co \<in> range Complete \<union> range Error"
  shows "run_command c co w = (Err (Unexpected (co_name co) (co_state co) (target c)), co, w)"
proof -
  have "\<not> (c = Do_running \<and> is_syscall (co_state co))"
    "\<not> lifecycle (fst (now w)) (co_state co) (target c)" using assms by auto
  moreover have "(case co_state co of Suspend y ts \<Rightarrow> if c = Do_ready \<or> c = Do_running then snd (now w) else w
      | _ \<Rightarrow> w) = w" using assms by auto
  ultimately show ?thesis using run_command_cases [of c co w] by (simp add: Let_def)
qed

text \<open>
  \<open>Complete\<close> and \<open>Error\<close> are final: no sequence of methods, called in any order and at any time, changes a
  coroutine in one of these states, and each of the calls is answered with an error.
\<close>

theorem final_states_absorb:
  assumes "co_state co \<in> range Complete \<union> range Error"
  shows "run_commands cs co w =
    (map (\<lambda>c. Err (Unexpected (co_name co) (co_state co) (target c))) cs, co)"
  by (induction cs) (simp_all add: run_command_final [OF assms] Let_def)

theorem final_states_absorb_witness:
  "snd (run_commands [Do_ready, Do_running, Do_complete 3] (sample_co (Complete 2)) (sample_env 1)) =
     sample_co (Complete 2)"
proof -
  have "co_state (sample_co (Complete 2)) \<in> range Complete \<union> range Error" by (simp add: sample_co_def)
  then show ?thesis by (simp only: final_states_absorb snd_conv)
qed

text \<open>
  The comment of \<open>ready\<close> announces a transition from a system call to \<open>Ready\<close>. The code refuses it whatever
  the state of the call, even when it has finished or timed out.
\<close>

theorem syscall_never_ready:
  "co_ready (co\<lparr>co_state := SystemCall y sc st\<rparr>) w =
     (Err (Unexpected (co_name co) (SystemCall y sc st) Ready), co\<lparr>co_state := SystemCall y sc st\<rparr>, w)"
  by (simp add: co_ops Let_def)

end
