(* ===== verification/Coroutine.thy ===== *)
theory Coroutine
  imports CoState
begin

text \<open>
  Running a coroutine: \<^verbatim>\<open>coroutine/suspender.rs\<close>, the constructor, \<^verbatim>\<open>resume_with\<close> and
  \<^verbatim>\<open>drop\<close> of \<^verbatim>\<open>coroutine/korosensei.rs\<close>, and the thread-local stacks of current objects.

  The user's function is a parameter. It runs in segments, from one suspension to the next: a
  segment is given the resume argument, the place to continue from, the coroutine (which it
  reaches through \<^verbatim>\<open>current()\<close>) and the whole state of the thread, and ends with a yield, a
  return or a panic. The stack switch itself belongs to the third-party \<^verbatim>\<open>corosensei\<close>.

  A pointer in a stack of current objects is represented by the name of the object.
\<close>

subsection \<open>Thread-local state\<close>

record tls = env +
  TIMESTAMP :: "u64 list"
  COROUTINE :: "string list"
  SUSPENDER :: "string list"
  SYSCALL :: "syscall list"
  SCHEDULER :: "string list"
  COROUTINE_POOL :: "string list"
  TRAP_HANDLER_INITED :: bool
  signal_handlers :: "string list"

definition front :: "'a list \<Rightarrow> 'a option" where
  "front xs = (case xs of [] \<Rightarrow> None | x # _ \<Rightarrow> Some x)"

definition syscall_init_current :: "syscall \<Rightarrow> 'w tls_scheme \<Rightarrow> 'w tls_scheme" where
  "syscall_init_current sc w = w\<lparr>SYSCALL := sc # SYSCALL w\<rparr>"

definition syscall_current :: "'w tls_scheme \<Rightarrow> syscall option" where
  "syscall_current w = front (SYSCALL w)"

definition syscall_clean_current :: "'w tls_scheme \<Rightarrow> 'w tls_scheme" where
  "syscall_clean_current w = w\<lparr>SYSCALL := tl (SYSCALL w)\<rparr>"

definition coroutine_init_current :: "('k, 'y, 'r, 'l) coroutine \<Rightarrow> 'w tls_scheme \<Rightarrow> 'w tls_scheme" where
  "coroutine_init_current co w = w\<lparr>COROUTINE := co_name co # COROUTINE w\<rparr>"

definition coroutine_current :: "'w tls_scheme \<Rightarrow> string option" where
  "coroutine_current w = front (COROUTINE w)"

definition coroutine_clean_current :: "'w tls_scheme \<Rightarrow> 'w tls_scheme" where
  "coroutine_clean_current w = w\<lparr>COROUTINE := tl (COROUTINE w)\<rparr>"

definition suspender_init_current :: "string \<Rightarrow> 'w tls_scheme \<Rightarrow> 'w tls_scheme" where
  "suspender_init_current name w = w\<lparr>SUSPENDER := name # SUSPENDER w\<rparr>"

definition suspender_current :: "'w tls_scheme \<Rightarrow> string option" where
  "suspender_current w = front (SUSPENDER w)"

definition suspender_clean_current :: "'w tls_scheme \<Rightarrow> 'w tls_scheme" where
  "suspender_clean_current w = w\<lparr>SUSPENDER := tl (SUSPENDER w)\<rparr>"

subsection \<open>Suspending\<close>

text \<open>What \<open>until_with\<close> and \<open>delay_with\<close> do to the thread before the segment ends with a yield.\<close>

definition until_with :: "u64 \<Rightarrow> 'w tls_scheme \<Rightarrow> 'w tls_scheme" where
  "until_with timestamp w = w\<lparr>TIMESTAMP := timestamp # TIMESTAMP w\<rparr>"

definition delay_with :: "duration \<Rightarrow> 'w tls_scheme \<Rightarrow> 'w tls_scheme" where
  "delay_with d w = (let (ts, w) = get_timeout_time d w in until_with ts w)"

definition suspender_timestamp :: "'w tls_scheme \<Rightarrow> u64 \<times> 'w tls_scheme" where
  "suspender_timestamp w =
     (case front (TIMESTAMP w) of None \<Rightarrow> 0 | Some ts \<Rightarrow> ts, w\<lparr>TIMESTAMP := tl (TIMESTAMP w)\<rparr>)"

subsection \<open>The body\<close>

datatype ('y, 'r) segment = Yields 'y | Returns 'r | Panics "string option"

type_synonym ('p, 'k, 'y, 'r, 'l, 'w) user_fn =
  "'p \<Rightarrow> 'k \<Rightarrow> ('k, 'y, 'r, 'l) coroutine \<Rightarrow> 'w
     \<Rightarrow> ('y, 'r) segment \<times> 'k \<times> ('k, 'y, 'r, 'l) coroutine \<times> 'w"

datatype ('y, 'r) coroutine_result = CoYield 'y | CoReturn "('r, string) outcome"

definition co_new :: "nat \<Rightarrow> string \<Rightarrow> 'k \<Rightarrow> 'l \<Rightarrow> nat \<Rightarrow> ('k, 'y, 'r, 'l) coroutine \<times> nat" where
  "co_new page_size name f local_default stack_size =
     (\<lparr>co_name = name, co_inner = \<lparr>in_started = False, in_done = False, in_cont = f\<rparr>,
       co_state = Created, co_local = local_default\<rparr>, max stack_size page_size)"

text \<open>
  The closure \<open>new\<close> passes to \<^verbatim>\<open>corosensei\<close> and \<open>suspend_with\<close>: the suspender is current from the
  start of a segment to its end. A panic of the user's function becomes an error message.
  Resuming a coroutine that is done is a panic of \<^verbatim>\<open>corosensei\<close>.
\<close>

definition inner_resume :: "('p, 'k, 'y, 'r, 'l, 'w tls_scheme) user_fn \<Rightarrow> 'p \<Rightarrow> ('k, 'y, 'r, 'l) coroutine
    \<Rightarrow> 'w tls_scheme
    \<Rightarrow> (('y, 'r) coroutine_result, unit) outcome \<times> ('k, 'y, 'r, 'l) coroutine \<times> 'w tls_scheme" where
  "inner_resume f arg co w =
     (if in_done (co_inner co) then (Panic ''attempt to resume a completed coroutine'', co, w)
      else
        let w = suspender_init_current (co_name co) w;
            (seg, k, co, w) = f arg (in_cont (co_inner co)) co w;
            w = suspender_clean_current w;
            fin = (\<lambda>d. co\<lparr>co_inner := \<lparr>in_started = True, in_done = d, in_cont = k\<rparr>\<rparr>)
        in (case seg of
              Yields y \<Rightarrow> (Ok (CoYield y), fin False, w)
            | Returns r \<Rightarrow> (Ok (CoReturn (Ok r)), fin True, w)
            | Panics m \<Rightarrow>
                (Ok (CoReturn (Err (case m of Some message \<Rightarrow> message
                                    | None \<Rightarrow> ''coroutine failed without message''))), fin True, w)))"

definition setup_trap_handler :: "'w tls_scheme \<Rightarrow> 'w tls_scheme" where
  "setup_trap_handler w =
     (if TRAP_HANDLER_INITED w then w
      else w\<lparr>TRAP_HANDLER_INITED := True, signal_handlers := signal_handlers w @ [''SIGBUS'', ''SIGSEGV'']\<rparr>)"

text \<open>The match on the result of the inner coroutine, with the \<open>?\<close> of its arms.\<close>

definition after_inner :: "('y, 'r) coroutine_result \<Rightarrow> ('k, 'y, 'r, 'l) coroutine \<Rightarrow> 'w tls_scheme
    \<Rightarrow> (('y, 'r) coroutine_state, ('y, 'r) co_error) outcome \<times> ('k, 'y, 'r, 'l) coroutine \<times> 'w tls_scheme" where
  "after_inner res co w =
     (case res of
        CoYield y \<Rightarrow>
          (let current = co_state_of co in
           case current of
             Running \<Rightarrow>
               (let (timestamp, w) = suspender_timestamp w;
                    new_state = Suspend y timestamp;
                    (r, co) = co_suspend y timestamp co
                in (case r of Ok _ \<Rightarrow> Ok new_state | Err e \<Rightarrow> Err e | Panic m \<Rightarrow> Panic m, co, w))
           | SystemCall y sc st \<Rightarrow> (Ok (SystemCall y sc st), co, w)
           | _ \<Rightarrow> (Err (Unexpected_state (co_name co) current), co, w))
      | CoReturn (Ok returns) \<Rightarrow>
          (let (r, co) = co_complete returns co
           in (case r of Ok _ \<Rightarrow> Ok (Complete returns) | Err e \<Rightarrow> Err e | Panic m \<Rightarrow> Panic m, co, w))
      | CoReturn (Err message) \<Rightarrow>
          (let (r, co) = co_error_with message co
           in (case r of Ok _ \<Rightarrow> Ok (Error message) | Err e \<Rightarrow> Err e | Panic m \<Rightarrow> Panic m, co, w))
      | CoReturn (Panic m) \<Rightarrow> (Panic m, co, w))"

definition resume_with :: "('p, 'k, 'y, 'r, 'l, 'w tls_scheme) user_fn \<Rightarrow> 'p \<Rightarrow> ('k, 'y, 'r, 'l) coroutine
    \<Rightarrow> 'w tls_scheme
    \<Rightarrow> (('y, 'r) coroutine_state, ('y, 'r) co_error) outcome \<times> ('k, 'y, 'r, 'l) coroutine \<times> 'w tls_scheme" where
  "resume_with f arg co w =
     (case co_state_of co of
        Complete r \<Rightarrow> (Ok (Complete r), co, w)
      | _ \<Rightarrow>
          let w = setup_trap_handler w; (r, co, w) = co_running co w in
          (case r of
             Err e \<Rightarrow> (Err e, co, w)
           | Panic m \<Rightarrow> (Panic m, co, w)
           | Ok _ \<Rightarrow>
               let w = coroutine_init_current co w in
               (case inner_resume f arg co w of
                  (Ok res, co, w) \<Rightarrow>
                    (case after_inner res co w of
                       (Ok s, co, w) \<Rightarrow> (Ok s, co, coroutine_clean_current w)
                     | (Err e, co, w) \<Rightarrow> (Err e, co, w)
                     | (Panic m, co, w) \<Rightarrow> (Panic m, co, w))
                | (Err e, co, w) \<Rightarrow> (Panic [], co, w)
                | (Panic m, co, w) \<Rightarrow> (Panic m, co, w))))"

definition resume :: "(unit, 'k, 'y, 'r, 'l, 'w tls_scheme) user_fn \<Rightarrow> ('k, 'y, 'r, 'l) coroutine
    \<Rightarrow> 'w tls_scheme
    \<Rightarrow> (('y, 'r) coroutine_state, ('y, 'r) co_error) outcome \<times> ('k, 'y, 'r, 'l) coroutine \<times> 'w tls_scheme" where
  "resume f co w = resume_with f () co w"

text \<open>Dropping a coroutine that is suspended resets its stack without running it further.\<close>

definition co_drop :: "('k, 'y, 'r, 'l) coroutine \<Rightarrow> ('k, 'y, 'r, 'l) coroutine" where
  "co_drop co =
     (if in_started (co_inner co) \<and> \<not> in_done (co_inner co)
      then co\<lparr>co_inner := (co_inner co)\<lparr>in_done := True\<rparr>\<rparr> else co)"

lemmas current_defs = syscall_init_current_def syscall_clean_current_def
  coroutine_init_current_def coroutine_clean_current_def
  suspender_init_current_def suspender_clean_current_def


subsection \<open>Lemmas\<close>

lemma setup_trap_handler_frame [simp]:
  "COROUTINE (setup_trap_handler w) = COROUTINE w" "SUSPENDER (setup_trap_handler w) = SUSPENDER w"
  "TIMESTAMP (setup_trap_handler w) = TIMESTAMP w" "TRAP_HANDLER_INITED (setup_trap_handler w)"
  "clk (setup_trap_handler w) = clk w" "reads (setup_trap_handler w) = reads w"
  by (simp_all add: setup_trap_handler_def)

lemma now_frame [simp]:
  "COROUTINE (snd (now w)) = COROUTINE w" "SUSPENDER (snd (now w)) = SUSPENDER w"
  "TIMESTAMP (snd (now w)) = TIMESTAMP w" "SYSCALL (snd (now w)) = SYSCALL w"
  "SCHEDULER (snd (now w)) = SCHEDULER w" "COROUTINE_POOL (snd (now w)) = COROUTINE_POOL w"
  by (simp_all add: now_def)

text \<open>Whether a coroutine may run now.\<close>

definition resumable :: "('k, 'y, 'r, 'l) coroutine \<Rightarrow> 'w env_scheme \<Rightarrow> bool" where
  "resumable co w \<longleftrightarrow> is_syscall (co_state co) \<or> lifecycle (fst (now w)) (co_state co) Running"

lemma co_running_cases:
  obtains (ok) w' s where "resumable co w" "co_running co w = (Ok (), co\<lparr>co_state := s\<rparr>, w')"
      "s = Running \<or> s = co_state co \<and> is_syscall s" "w' = w \<or> w' = snd (now w)"
      "is_syscall s = is_syscall (co_state co)"
  | (err) w' where "\<not> resumable co w" "co_running co w = (Err (Unexpected (co_name co) (co_state co) Running), co, w')"
      "w' = w \<or> w' = snd (now w)"
proof (cases "is_syscall (co_state co)")
  case True
  with ok [of "co_state co" w] show thesis by (simp add: running_syscall_keeps resumable_def)
next
  case False
  define w' where "w' = (case co_state co of Suspend y ts \<Rightarrow> snd (now w) | _ \<Rightarrow> w)"
  have w': "w' = w \<or> w' = snd (now w)" by (auto simp: w'_def split: coroutine_state.splits)
  have "co_running co w = (if lifecycle (fst (now w)) (co_state co) Running
      then (Ok (), co\<lparr>co_state := Running\<rparr>, w')
      else (Err (Unexpected (co_name co) (co_state co) Running), co, w'))"
    using run_command_cases [of Do_running co w] False
    by (cases "co_state co") (auto simp: w'_def Let_def)
  with ok [of Running w'] err [of w'] w' False show thesis by (simp add: resumable_def split: if_splits)
qed

text \<open>Three things can happen to a call of \<open>resume_with\<close>.\<close>

lemma resume_with_cases:
  obtains (finished) r where "co_state co = Complete r" "resume_with f arg co w = (Ok (Complete r), co, w)"
  | (refused) w' where "\<not> resumable co w" "\<forall>r. co_state co \<noteq> Complete r"
      "resume_with f arg co w = (Err (Unexpected (co_name co) (co_state co) Running), co, w')"
      "w' = setup_trap_handler w \<or> w' = snd (now (setup_trap_handler w))"
  | (runs) s w' where "resumable co w" "\<forall>r. co_state co \<noteq> Complete r"
      "s = Running \<or> s = co_state co \<and> is_syscall s"
      "w' = setup_trap_handler w \<or> w' = snd (now (setup_trap_handler w))"
      "resume_with f arg co w =
         (case inner_resume f arg (co\<lparr>co_state := s\<rparr>) (coroutine_init_current co w') of
            (Ok res, co1, w1) \<Rightarrow>
              (case after_inner res co1 w1 of
                 (Ok s, co2, w2) \<Rightarrow> (Ok s, co2, coroutine_clean_current w2)
               | (Err e, co2, w2) \<Rightarrow> (Err e, co2, w2)
               | (Panic m, co2, w2) \<Rightarrow> (Panic m, co2, w2))
          | (Err e, co1, w1) \<Rightarrow> (Panic [], co1, w1)
          | (Panic m, co1, w1) \<Rightarrow> (Panic m, co1, w1))"
      "is_syscall s = is_syscall (co_state co)"
proof (cases "\<exists>r. co_state co = Complete r")
  case True
  then obtain r where "co_state co = Complete r" ..
  then show thesis by (intro finished) (simp_all add: resume_with_def co_state_of_def)
next
  case False
  then have eq: "resume_with f arg co w =
      (let w = setup_trap_handler w; (r, co, w) = co_running co w in
          (case r of
             Err e \<Rightarrow> (Err e, co, w)
           | Panic m \<Rightarrow> (Panic m, co, w)
           | Ok _ \<Rightarrow>
               let w = coroutine_init_current co w in
               (case inner_resume f arg co w of
                  (Ok res, co, w) \<Rightarrow>
                    (case after_inner res co w of
                       (Ok s, co, w) \<Rightarrow> (Ok s, co, coroutine_clean_current w)
                     | (Err e, co, w) \<Rightarrow> (Err e, co, w)
                     | (Panic m, co, w) \<Rightarrow> (Panic m, co, w))
                | (Err e, co, w) \<Rightarrow> (Panic [], co, w)
                | (Panic m, co, w) \<Rightarrow> (Panic m, co, w))))"
    unfolding resume_with_def co_state_of_def by (cases "co_state co") simp_all
  have init: "coroutine_init_current (co\<lparr>co_state := s\<rparr>) w = coroutine_init_current co w" for s w
    by (simp add: coroutine_init_current_def)
  have res: "resumable co (setup_trap_handler w) = resumable co w"
    by (simp add: resumable_def now_def)
  show thesis
    by (rule co_running_cases [of co "setup_trap_handler w"])
      (use False runs refused in \<open>simp_all add: eq Let_def init res\<close>)
qed

lemma after_inner_Ok:
  assumes "after_inner res co w = (Ok s, co', w')"
  shows "co_state co' = s \<and> co' = co\<lparr>co_state := s\<rparr> \<and> COROUTINE w' = COROUTINE w \<and> SUSPENDER w' = SUSPENDER w \<and>
    (is_syscall s \<or> (\<exists>y ts. s = Suspend y ts) \<or> s \<in> range Complete \<union> range Error)"
proof (cases res)
  case (CoYield y)
  with assms show ?thesis
    by (cases "co_state co") (auto simp: after_inner_def co_ops Let_def suspender_timestamp_def is_syscall_def, metis)
next
  case (CoReturn r)
  with assms show ?thesis
    by (cases r; cases "co_state co") (auto simp: after_inner_def co_ops Let_def)
qed

lemma after_inner_stacks:
  assumes "after_inner res co w = (r, co', w')"
  shows "COROUTINE w' = COROUTINE w \<and> SUSPENDER w' = SUSPENDER w \<and> co_name co' = co_name co \<and>
    co_inner co' = co_inner co \<and> SCHEDULER w' = SCHEDULER w \<and> clk w' = clk w \<and> reads w' = reads w"
proof (cases res)
  case (CoYield y)
  with assms show ?thesis
    by (cases "co_state co") (auto simp: after_inner_def co_ops Let_def suspender_timestamp_def)
next
  case (CoReturn r')
  with assms show ?thesis
    by (cases r'; cases "co_state co") (auto simp: after_inner_def co_ops Let_def)
qed

text \<open>A user function that leaves the stacks of current objects the way it found them.\<close>

definition balanced :: "('p, 'k, 'y, 'r, 'l, 'w tls_scheme) user_fn \<Rightarrow> bool" where
  "balanced f \<longleftrightarrow> (\<forall>arg k co w. case f arg k co w of (seg, k', co', w') \<Rightarrow>
     COROUTINE w' = COROUTINE w \<and> SUSPENDER w' = SUSPENDER w \<and> co_name co' = co_name co)"

lemma balancedD:
  "balanced f \<Longrightarrow> f arg k co w = (seg, k', co', w') \<Longrightarrow>
     COROUTINE w' = COROUTINE w \<and> SUSPENDER w' = SUSPENDER w \<and> co_name co' = co_name co"
  unfolding balanced_def by (elim allE [where x = arg] allE [where x = k] allE [where x = co] allE [where x = w]) simp

lemma inner_resume_balanced:
  assumes "balanced f" "inner_resume f arg co w = (r, co', w')"
  shows "COROUTINE w' = COROUTINE w \<and> SUSPENDER w' = SUSPENDER w \<and> co_name co' = co_name co \<and>
    (\<forall>e. r \<noteq> Err e)"
proof (cases "in_done (co_inner co)")
  case False
  obtain seg k' co1 w1 where f: "f arg (in_cont (co_inner co)) co (suspender_init_current (co_name co) w) =
      (seg, k', co1, w1)" by (metis prod_cases4)
  from balancedD [OF assms(1) f] assms(2) f False show ?thesis
    by (cases seg) (auto simp: inner_resume_def current_defs Let_def)
qed (use assms(2) in \<open>auto simp: inner_resume_def\<close>)

subsection \<open>Claims about resuming\<close>

text \<open>
  C16: Whatever the user's function does, a successful \<open>resume_with\<close> returns exactly the state the
  coroutine is left in, and that state is one the scheduler can handle: suspended, in a system call,
  complete or failed, never created, ready or running.
\<close>

theorem resume_returns_state:
  assumes "resume_with f arg co w = (Ok s, co', w')"
  shows "co_state co' = s \<and> s \<noteq> Created \<and> s \<noteq> Ready \<and> s \<noteq> Running"
proof (rule resume_with_cases [of co f arg w])
  fix s1 w1 assume "resume_with f arg co w = (case inner_resume f arg (co\<lparr>co_state := s1\<rparr>) (coroutine_init_current co w1) of
            (Ok res, co1, w1) \<Rightarrow>
              (case after_inner res co1 w1 of
                 (Ok s, co2, w2) \<Rightarrow> (Ok s, co2, coroutine_clean_current w2)
               | (Err e, co2, w2) \<Rightarrow> (Err e, co2, w2)
               | (Panic m, co2, w2) \<Rightarrow> (Panic m, co2, w2))
          | (Err e, co1, w1) \<Rightarrow> (Panic [], co1, w1)
          | (Panic m, co1, w1) \<Rightarrow> (Panic m, co1, w1))"
  with assms show ?thesis
    by (auto split: prod.splits outcome.splits dest!: after_inner_Ok)
qed (use assms in auto)

text \<open>The state of a thread, and a function that counts its segments and then returns.\<close>

definition sample_tls :: "nat \<Rightarrow> tls" where
  "sample_tls t = \<lparr>clk = (\<lambda>_. t), reads = 0, TIMESTAMP = [], COROUTINE = [], SUSPENDER = [], SYSCALL = [],
     SCHEDULER = [], COROUTINE_POOL = [], TRAP_HANDLER_INITED = True, signal_handlers = []\<rparr>"

fun countdown :: "(unit, nat, nat, nat, unit, tls) user_fn" where
  "countdown () (Suc n) co w = (Yields n, n, co, w)"
| "countdown () 0 co w = (Returns 7, 0, co, w)"

definition counting_co :: "(nat, nat) coroutine_state \<Rightarrow> nat \<Rightarrow> (nat, nat, nat, unit) coroutine" where
  "counting_co s n = \<lparr>co_name = ''co'', co_inner = \<lparr>in_started = True, in_done = False, in_cont = n\<rparr>,
     co_state = s, co_local = ()\<rparr>"

lemmas sample_defs = sample_tls_def counting_co_def current_defs co_ops Let_def now_def
  u64_try_from_def suspender_timestamp_def front_def

lemma countdown_resumes:
  "resume countdown (counting_co (Suspend 0 40) (Suc 0)) (sample_tls 40) =
     (Ok (Suspend 0 0), counting_co (Suspend 0 0) 0, (sample_tls 40)\<lparr>reads := Suc 0\<rparr>)"
  "resume countdown (counting_co (Suspend 0 41) (Suc 0)) (sample_tls 40) =
     (Err (Unexpected ''co'' (Suspend 0 41) Running), counting_co (Suspend 0 41) (Suc 0), (sample_tls 40)\<lparr>reads := Suc 0\<rparr>)"
  by (simp_all add: resume_def resume_with_def inner_resume_def after_inner_def sample_defs setup_trap_handler_def)

theorem resume_returns_state_witness:
  "co_state (fst (snd (resume countdown (counting_co (Suspend 0 40) (Suc 0)) (sample_tls 40)))) = Suspend 0 0"
  using resume_returns_state [OF countdown_resumes(1) [unfolded resume_def]]
  by (simp add: countdown_resumes)

text \<open>
  C33: Resuming a coroutine whose deadline is in the future, or that has failed, is refused: the user's function is
  not run, the coroutine is unchanged and the stacks of current objects are unchanged. Resuming
  a complete coroutine gives its value again.
\<close>

theorem resume_refused:
  assumes "co_state co = Suspend y ts \<and> fst (now w) < ts \<or> co_state co = Error m"
  shows "\<exists>w'. resume_with f arg co w = (Err (Unexpected (co_name co) (co_state co) Running), co, w') \<and>
    COROUTINE w' = COROUTINE w \<and> SUSPENDER w' = SUSPENDER w \<and> TIMESTAMP w' = TIMESTAMP w"
proof -
  have t: "fst (now (setup_trap_handler w)) = fst (now w)" by (simp add: now_def)
  define w' where "w' = (case co_state co of Suspend y ts \<Rightarrow> snd (now (setup_trap_handler w))
      | _ \<Rightarrow> setup_trap_handler w)"
  have "resume_with f arg co w = (Err (Unexpected (co_name co) (co_state co) Running), co, w')"
    using assms t by (auto simp: resume_with_def co_ops Let_def w'_def split: prod.splits)
  moreover have "COROUTINE w' = COROUTINE w \<and> SUSPENDER w' = SUSPENDER w \<and> TIMESTAMP w' = TIMESTAMP w"
    by (simp add: w'_def split: coroutine_state.splits)
  ultimately show ?thesis by blast
qed

theorem resume_refused_witness:
  "\<exists>w'. resume countdown (counting_co (Suspend 0 41) (Suc 0)) (sample_tls 40) =
     (Err (Unexpected ''co'' (Suspend 0 41) Running), counting_co (Suspend 0 41) (Suc 0), w')"
proof -
  have "co_state (counting_co (Suspend 0 41) (Suc 0)) = Suspend 0 41 \<and> fst (now (sample_tls 40)) < 41 \<or>
      co_state (counting_co (Suspend 0 41) (Suc 0)) = Error []"
    by (simp add: sample_defs)
  from resume_refused [OF this, of countdown "()"] show ?thesis
    by (auto simp: resume_def counting_co_def)
qed

text \<open>
  C34: When the user's function leaves the stacks of current objects balanced, so does a \<open>resume_with\<close>
  that succeeds or that is refused. When the function has run and the call ends in an error, the
  coroutine stays on top of the stack of current coroutines: it is never popped.
\<close>

theorem resume_current_stack:
  assumes "balanced f" and "resume_with f arg co w = (r, co', w')"
  shows "SUSPENDER w' = SUSPENDER w \<and>
    COROUTINE w' = (if is_ok r \<or> \<not> resumable co w then COROUTINE w else co_name co # COROUTINE w)"
proof (rule resume_with_cases [of co f arg w])
  fix s1 w1
  assume r: "resumable co w" and w1: "w1 = setup_trap_handler w \<or> w1 = snd (now (setup_trap_handler w))"
    and run: "resume_with f arg co w = (case inner_resume f arg (co\<lparr>co_state := s1\<rparr>) (coroutine_init_current co w1) of
            (Ok res, co1, w1) \<Rightarrow>
              (case after_inner res co1 w1 of
                 (Ok s, co2, w2) \<Rightarrow> (Ok s, co2, coroutine_clean_current w2)
               | (Err e, co2, w2) \<Rightarrow> (Err e, co2, w2)
               | (Panic m, co2, w2) \<Rightarrow> (Panic m, co2, w2))
          | (Err e, co1, w1) \<Rightarrow> (Panic [], co1, w1)
          | (Panic m, co1, w1) \<Rightarrow> (Panic m, co1, w1))"
  obtain r2 co2 w2 where i: "inner_resume f arg (co\<lparr>co_state := s1\<rparr>) (coroutine_init_current co w1) = (r2, co2, w2)"
    by (metis prod_cases3)
  have st: "COROUTINE w2 = co_name co # COROUTINE w" "SUSPENDER w2 = SUSPENDER w"
    using inner_resume_balanced [OF assms(1) i] w1 by (auto simp: coroutine_init_current_def)
  show ?thesis
  proof (cases r2)
    case (Ok res)
    obtain r3 co3 w3 where a: "after_inner res co2 w2 = (r3, co3, w3)" by (metis prod_cases3)
    from after_inner_stacks [OF a] run i Ok a assms(2) st r show ?thesis
      by (cases r3) (auto simp: coroutine_clean_current_def)
  qed (use run i assms(2) st r in auto)
qed (use assms in auto)

theorem resume_current_stack_witness:
  "balanced countdown \<and>
   COROUTINE (snd (snd (resume countdown (counting_co (Suspend 0 40) (Suc 0)) (sample_tls 40)))) = []"
proof -
  have b: "balanced countdown"
    unfolding balanced_def by (auto split: prod.splits elim: countdown.elims)
  from resume_current_stack [OF b countdown_resumes(1) [unfolded resume_def]] b show ?thesis
    by (simp only: countdown_resumes) (simp add: sample_tls_def)
qed

definition yields_until :: "u64 list \<Rightarrow> (unit, unit, unit, unit, unit, tls) user_fn" where
  "yields_until tss arg k co w = (Yields (), k, co, fold until_with tss w)"

definition unit_co :: "(unit, unit) coroutine_state \<Rightarrow> (unit, unit, unit, unit) coroutine" where
  "unit_co s = \<lparr>co_name = ''co'', co_inner = \<lparr>in_started = True, in_done = False, in_cont = ()\<rparr>,
     co_state = s, co_local = ()\<rparr>"

lemma yields_until_suspends:
  assumes "TRAP_HANDLER_INITED w"
  shows "fst (resume (yields_until tss) (unit_co Ready) w) =
      Ok (Suspend () (case front (rev tss @ TIMESTAMP w) of None \<Rightarrow> 0 | Some ts \<Rightarrow> ts))"
    "TIMESTAMP (snd (snd (resume (yields_until tss) (unit_co Ready) w))) = tl (rev tss @ TIMESTAMP w)"
    "fst (resume (yields_until tss) (unit_co (SystemCall () sc st)) w) = Ok (SystemCall () sc st)"
    "TIMESTAMP (snd (snd (resume (yields_until tss) (unit_co (SystemCall () sc st)) w))) = rev tss @ TIMESTAMP w"
    "TRAP_HANDLER_INITED (snd (snd (resume (yields_until tss) (unit_co (SystemCall () sc st)) w)))"
proof -
  have ts: "fold until_with tss v = v\<lparr>TIMESTAMP := rev tss @ TIMESTAMP v\<rparr>" for v :: tls
    by (induction tss arbitrary: v) (simp_all add: until_with_def)
  show "fst (resume (yields_until tss) (unit_co Ready) w) =
      Ok (Suspend () (case front (rev tss @ TIMESTAMP w) of None \<Rightarrow> 0 | Some ts \<Rightarrow> ts))"
    "TIMESTAMP (snd (snd (resume (yields_until tss) (unit_co Ready) w))) = tl (rev tss @ TIMESTAMP w)"
    "fst (resume (yields_until tss) (unit_co (SystemCall () sc st)) w) = Ok (SystemCall () sc st)"
    "TIMESTAMP (snd (snd (resume (yields_until tss) (unit_co (SystemCall () sc st)) w))) = rev tss @ TIMESTAMP w"
    "TRAP_HANDLER_INITED (snd (snd (resume (yields_until tss) (unit_co (SystemCall () sc st)) w)))"
    using assms
    by (simp_all add: resume_def resume_with_def inner_resume_def after_inner_def setup_trap_handler_def
        unit_co_def yields_until_def ts current_defs co_ops Let_def suspender_timestamp_def)
qed

text \<open>
  A segment that calls \<open>until_with\<close> while the coroutine is running suspends until exactly that time. In a system
  call the time is not taken off the stack of the thread: the next plain suspension, of whichever
  coroutine of the thread, is given it as its deadline.
\<close>

theorem timestamp_leaks_from_syscall:
  assumes "TRAP_HANDLER_INITED w" and "TIMESTAMP w = []"
  shows "fst (resume (yields_until [ts]) (unit_co Ready) w) = Ok (Suspend () ts) \<and>
    (let (r, co, w1) = resume (yields_until [ts]) (unit_co (SystemCall () sc st)) w
     in r = Ok (SystemCall () sc st) \<and> fst (resume (yields_until []) (unit_co Ready) w1) = Ok (Suspend () ts))"
proof -
  obtain r co w1 where run: "resume (yields_until [ts]) (unit_co (SystemCall () sc st)) w = (r, co, w1)"
    by (metis prod_cases3)
  have "r = Ok (SystemCall () sc st)" "TIMESTAMP w1 = [ts]" "TRAP_HANDLER_INITED w1"
    using yields_until_suspends(3-5) [OF assms(1), of "[ts]" sc st] run assms(2) by simp_all
  then show ?thesis
    using yields_until_suspends(1) [OF assms(1), of "[ts]"] yields_until_suspends(1) [of w1 "[]"]
    by (simp add: run front_def)
qed

theorem timestamp_leaks_from_syscall_witness:
  "fst (resume (yields_until [99]) (unit_co Ready) (sample_tls 0)) = Ok (Suspend () 99)"
proof -
  have "TRAP_HANDLER_INITED (sample_tls 0)" "TIMESTAMP (sample_tls 0) = []" by (simp_all add: sample_tls_def)
  from timestamp_leaks_from_syscall [OF this, of 99 Sys_poll Sys_Computing] show ?thesis by blast
qed

end
