(* ===== verification/Trap.thy ===== *)
theory Trap
  imports Coroutine
begin

text \<open>
  The handler of memory faults (\<open>trap_handler\<close> of \<^verbatim>\<open>coroutine/korosensei.rs\<close>), on every platform the code supports. It
  changes the registers that the interrupted code continues with. What differs between platforms is where the stack
  pointer is read and which registers are written: a \<open>platform\<close>. Parameters: whether an address lies in the stack of a
  coroutine, and the registers with which the third-party \<^verbatim>\<open>corosensei\<close> lets a coroutine end with an error
  (\<open>setup\<close>, given the message).
\<close>

unbundle bit_operations_syntax

subsection \<open>The handlers\<close>

record ('c, 'r, 'u) platform =
  pf_sp :: "'c \<Rightarrow> 'u"
  pf_write :: "'r \<Rightarrow> 'c \<Rightarrow> 'c"

text \<open>On Unix a fault outside of the stack of the current coroutine is an assertion failure.\<close>

definition trap_handler :: "('c, 'r, 'u) platform \<Rightarrow> (string \<Rightarrow> 'u \<Rightarrow> bool) \<Rightarrow> (string \<Rightarrow> string \<Rightarrow> 'r) \<Rightarrow> 'c \<Rightarrow> 'w tls_scheme
    \<Rightarrow> (unit, unit) outcome \<times> 'c" where
  "trap_handler P stack_ptr_in_bounds setup context w =
     (let sp = pf_sp P context in
      case coroutine_current w of
        None \<Rightarrow> (Ok (), context)
      | Some co \<Rightarrow>
          if \<not> stack_ptr_in_bounds co sp then (Panic ''assertion failed: handler.stack_ptr_in_bounds(sp)'', context)
          else let regs = setup co ''invalid memory reference'' in (Ok (), pf_write P regs context))"

text \<open>
  On Windows the handler sees every exception and answers whether the next handler is to be asked (\<open>0\<close>) or the
  interrupted code continues (\<open>-1\<close>).
\<close>

datatype exception_code = EXCEPTION_ACCESS_VIOLATION | EXCEPTION_STACK_OVERFLOW | Other_exception u32

definition trap_handler_windows :: "('c, 'r, 'u) platform \<Rightarrow> (string \<Rightarrow> 'u \<Rightarrow> bool) \<Rightarrow> (string \<Rightarrow> string \<Rightarrow> 'r)
    \<Rightarrow> exception_code \<Rightarrow> 'c \<Rightarrow> 'w tls_scheme \<Rightarrow> int \<times> 'c" where
  "trap_handler_windows P stack_ptr_in_bounds setup code context w =
     (case code of
        Other_exception _ \<Rightarrow> (0, context)
      | _ \<Rightarrow>
          case coroutine_current w of
            None \<Rightarrow> (- 1, context)
          | Some co \<Rightarrow>
              let sp = pf_sp P context in
              if \<not> stack_ptr_in_bounds co sp then (0, context)
              else let regs = setup co ''invalid memory reference'' in (- 1, pf_write P regs context))"

subsection \<open>The platforms\<close>

text \<open>
  The interrupted registers are the named ones, followed by those the handler never touches. The x86-64 registers are
  the same on Linux, on Apple's systems and on Windows, the x86 ones on Linux and on Windows.
\<close>

record x86_64_regs =
  rip :: u64
  rsp :: u64
  rbp :: u64
  rdi :: u64
  rsi :: u64

definition x86_64 :: "('n x86_64_regs_scheme, x86_64_regs, u64) platform" where
  "x86_64 = \<lparr>pf_sp = rsp,
     pf_write = (\<lambda>regs c. c\<lparr>rip := rip regs, rsp := rsp regs, rbp := rbp regs, rdi := rdi regs, rsi := rsi regs\<rparr>)\<rparr>"

record x86_regs =
  eip :: u32
  esp :: u32
  ebp :: u32
  ecx :: u32
  edx :: u32

definition x86 :: "('n x86_regs_scheme, x86_regs, u32) platform" where
  "x86 = \<lparr>pf_sp = esp,
     pf_write = (\<lambda>regs c. c\<lparr>eip := eip regs, esp := esp regs, ebp := ebp regs, ecx := ecx regs, edx := edx regs\<rparr>)\<rparr>"

record aarch64_regs =
  aa_pc :: u64
  aa_sp :: u64
  aa_x0 :: u64
  aa_x1 :: u64
  aa_x29 :: u64
  aa_lr :: u64

record aarch64_linux_context =
  la_pc :: u64
  la_sp :: u64
  la_regs :: "u64 list"

definition aarch64_linux :: "('n aarch64_linux_context_scheme, aarch64_regs, u64) platform" where
  "aarch64_linux = \<lparr>pf_sp = la_sp,
     pf_write = (\<lambda>regs c. c\<lparr>la_pc := aa_pc regs, la_sp := aa_sp regs,
       la_regs := (la_regs c)[0 := aa_x0 regs, 1 := aa_x1 regs, 29 := aa_x29 regs, 30 := aa_lr regs]\<rparr>)\<rparr>"

record aarch64_apple_context =
  ap_pc :: u64
  ap_sp :: u64
  ap_x :: "u64 list"
  ap_fp :: u64
  ap_lr :: u64

definition aarch64_apple :: "('n aarch64_apple_context_scheme, aarch64_regs, u64) platform" where
  "aarch64_apple = \<lparr>pf_sp = ap_sp,
     pf_write = (\<lambda>regs c. c\<lparr>ap_pc := aa_pc regs, ap_sp := aa_sp regs, ap_x := (ap_x c)[0 := aa_x0 regs, 1 := aa_x1 regs],
       ap_fp := aa_x29 regs, ap_lr := aa_lr regs\<rparr>)\<rparr>"

record arm_regs =
  rg_pc :: u32
  rg_r0 :: u32
  rg_r1 :: u32
  rg_r7 :: u32
  rg_r11 :: u32
  rg_r13 :: u32
  rg_r14 :: u32
  cpsr_thumb :: bool
  cpsr_endian :: bool

record arm_context =
  arm_pc :: u32
  arm_r0 :: u32
  arm_r1 :: u32
  arm_r7 :: u32
  arm_fp :: u32
  arm_sp :: u32
  arm_lr :: u32
  arm_cpsr :: u32

definition write_flag :: "bool \<Rightarrow> u32 \<Rightarrow> u32 \<Rightarrow> u32" where
  "write_flag b flag w = (if b then w OR flag else w AND NOT flag)"

definition arm :: "('n arm_context_scheme, arm_regs, u32) platform" where
  "arm = \<lparr>pf_sp = arm_sp,
     pf_write = (\<lambda>regs c. c\<lparr>arm_pc := rg_pc regs, arm_r0 := rg_r0 regs, arm_r1 := rg_r1 regs, arm_r7 := rg_r7 regs,
       arm_fp := rg_r11 regs, arm_sp := rg_r13 regs, arm_lr := rg_r14 regs,
       arm_cpsr := write_flag (cpsr_endian regs) 0x200 (write_flag (cpsr_thumb regs) 0x20 (arm_cpsr c))\<rparr>)\<rparr>"

text \<open>On RISC-V the registers are an array; \<open>ix\<close> holds the indices the C library documents.\<close>

record riscv_index =
  REG_PC :: nat
  REG_RA :: nat
  REG_SP :: nat
  REG_S0 :: nat
  REG_A0 :: nat

record 'u riscv_regs =
  rv_pc :: 'u
  rv_ra :: 'u
  rv_sp :: 'u
  rv_a0 :: 'u
  rv_a1 :: 'u
  rv_s0 :: 'u

definition riscv :: "riscv_index \<Rightarrow> ('u list, 'u riscv_regs, 'u) platform" where
  "riscv ix = \<lparr>pf_sp = (\<lambda>gregs. gregs ! REG_SP ix),
     pf_write = (\<lambda>regs gregs. gregs[REG_PC ix := rv_pc regs, REG_RA ix := rv_ra regs, REG_SP ix := rv_sp regs,
       REG_A0 ix := rv_a0 regs, REG_A0 ix + 1 := rv_a1 regs, REG_S0 ix := rv_s0 regs])\<rparr>"

record loongarch_regs =
  lo_pc :: u64
  lo_sp :: u64
  lo_a0 :: u64
  lo_a1 :: u64
  lo_fp :: u64
  lo_ra :: u64

record loongarch_context =
  lc_pc :: u64
  lc_gregs :: "u64 list"

definition loongarch64 :: "('n loongarch_context_scheme, loongarch_regs, u64) platform" where
  "loongarch64 = \<lparr>pf_sp = (\<lambda>c. lc_gregs c ! 3),
     pf_write = (\<lambda>regs c. c\<lparr>lc_pc := lo_pc regs,
       lc_gregs := (lc_gregs c)[1 := lo_ra regs, 3 := lo_sp regs, 4 := lo_a0 regs, 5 := lo_a1 regs, 22 := lo_fp regs]\<rparr>)\<rparr>"

subsection \<open>What the handlers achieve\<close>

text \<open>
  A platform writes the registers it is given: the code continues at the new instruction on the new stack, and of
  two writes the second counts, so that nothing but these registers depends on what is written.
\<close>

locale trap_platform =
  fixes P :: "('c, 'r, 'u) platform" and pc :: "'c \<Rightarrow> 'u" and new_pc new_sp :: "'r \<Rightarrow> 'u" and complete :: "'c \<Rightarrow> bool"
  assumes write_pc: "complete c \<Longrightarrow> pc (pf_write P r c) = new_pc r"
    and write_sp: "complete c \<Longrightarrow> pf_sp P (pf_write P r c) = new_sp r"
    and write_complete: "complete c \<Longrightarrow> complete (pf_write P r c)"
    and write_again: "complete c \<Longrightarrow> pf_write P r (pf_write P r' c) = pf_write P r c"
begin

text \<open>
  Only a fault on the stack of the current coroutine is diverted into the coroutine's error exit. Outside of any coroutine the
  handler returns to the same instruction with the same registers, so the fault repeats.
\<close>

lemma unix_handler:
  assumes "complete c" "trap_handler P in_bounds setup c w = (Ok (), c')"
  shows "(coroutine_current w = None \<and> c' = c) \<or>
    (\<exists>co. coroutine_current w = Some co \<and> in_bounds co (pf_sp P c) \<and> pc c' = new_pc (setup co ''invalid memory reference'') \<and>
      pf_sp P c' = new_sp (setup co ''invalid memory reference''))"
  using assms by (auto simp: trap_handler_def Let_def write_pc write_sp split: option.splits if_splits)

text \<open>The Windows handler agrees with it on memory faults, but asks the next handler where the other one fails.\<close>

lemma windows_handler:
  assumes "\<forall>n. code \<noteq> Other_exception n"
  shows "trap_handler_windows P in_bounds setup code c w =
    (case trap_handler P in_bounds setup c w of (Ok _, c') \<Rightarrow> (- 1, c') | (_, c') \<Rightarrow> (0, c'))"
  using assms by (cases code) (auto simp: trap_handler_windows_def trap_handler_def Let_def split: option.splits)

text \<open>A second fault before the coroutine has gone on is handled as the first, if the new stack pointer is in the stack.\<close>

lemma fault_again:
  assumes "complete c" "trap_handler P in_bounds setup c w = (Ok (), c')" "coroutine_current w = Some co"
    "in_bounds co (new_sp (setup co ''invalid memory reference''))"
  shows "trap_handler P in_bounds setup c' w = (Ok (), c')"
  using assms by (auto simp: trap_handler_def Let_def write_sp write_again split: if_splits)

end

interpretation x86_64: trap_platform x86_64 rip rip rsp "\<lambda>_. True"
  by unfold_locales (simp_all add: x86_64_def)

interpretation x86: trap_platform x86 eip eip esp "\<lambda>_. True"
  by unfold_locales (simp_all add: x86_def)

interpretation aarch64_linux: trap_platform aarch64_linux la_pc aa_pc aa_sp "\<lambda>c. length (la_regs c) = 31"
  by unfold_locales (simp_all add: aarch64_linux_def list_update_swap)

interpretation aarch64_apple: trap_platform aarch64_apple ap_pc aa_pc aa_sp "\<lambda>c. length (ap_x c) = 29"
  by unfold_locales (simp_all add: aarch64_apple_def list_update_swap)

text \<open>The two flags are bits 5 and 9 of the status register; its other bits stay.\<close>

lemma bit_write_flag:
  "bit (write_flag b (2 ^ i) w) n \<longleftrightarrow> (if n = i \<and> n < 32 then b else bit w n)"
  by (auto simp: write_flag_def bit_or_iff bit_and_iff bit_not_iff bit_exp_iff dest: bit_imp_le_length)

lemma arm_flags:
  "bit (write_flag e 0x200 (write_flag t 0x20 w)) n \<longleftrightarrow> (if n = 9 then e else if n = 5 then t else bit w n)"
  using bit_write_flag [of e 9 "write_flag t 0x20 w" n] bit_write_flag [of t 5 w n] by simp

interpretation arm: trap_platform arm arm_pc rg_pc rg_r13 "\<lambda>_. True"
  by unfold_locales (simp_all add: arm_def bit_eq_iff arm_flags)

text \<open>The indices of Linux.\<close>

definition riscv_linux :: riscv_index where
  "riscv_linux = \<lparr>REG_PC = 0, REG_RA = 1, REG_SP = 2, REG_S0 = 8, REG_A0 = 10\<rparr>"

interpretation riscv: trap_platform "riscv riscv_linux" "\<lambda>gregs. gregs ! 0" rv_pc rv_sp "\<lambda>gregs. length gregs = 32"
  by unfold_locales (simp_all add: riscv_def riscv_linux_def list_update_swap)

interpretation loongarch64: trap_platform loongarch64 lc_pc lo_pc lo_sp "\<lambda>c. length (lc_gregs c) = 32"
  by unfold_locales (simp_all add: loongarch64_def list_update_swap)

end
