(* ===== verification/Scheduler.thy ===== *)
theory Scheduler
  imports Coroutine Containers QueueContract
begin

text \<open>
  The scheduler of \<^verbatim>\<open>open-coroutine-core/src/scheduler\<close>: coroutines ready to run in a local queue,
  suspended ones in a timer list, those in a system call in a concurrent map, with a second timer
  list for the system calls that have a deadline.

  The record \<open>sched\<close> extends the state of the thread by the fields of \<^verbatim>\<open>SchedulerImpl\<close>, so
  that a coroutine and a listener, which reach the scheduler through \<^verbatim>\<open>current()\<close>, act on the same
  state as the scheduling loop. Parameters: the queue \<open>Q\<close> and the map \<open>D\<close> by their
  operations, what a listener does with an event (\<open>L\<close>), and the functions the coroutines run (\<open>f\<close>).
\<close>

type_synonym ('k, 'l) sched_co = "('k, unit, unit, 'l) coroutine"

record ('q, 'd, 'k, 'l, 'li) sched = tls +
  sc_name :: string
  sc_stack_size :: nat
  sc_ready :: 'q
  sc_suspend :: "('k, 'l) sched_co timer_list"
  sc_syscall :: 'd
  sc_syscall_suspend :: "string timer_list"
  sc_listeners :: "'li list"

datatype sched_error =
    Co_error "(unit, unit) co_error"
  | Stack_alloc
  | Never_here

subsection \<open>Current scheduler\<close>

definition scheduler_init_current :: "('q, 'd, 'k, 'l, 'li, 'w) sched_scheme \<Rightarrow> ('q, 'd, 'k, 'l, 'li, 'w) sched_scheme" where
  "scheduler_init_current s = s\<lparr>SCHEDULER := sc_name s # SCHEDULER s\<rparr>"

definition scheduler_current :: "'w tls_scheme \<Rightarrow> string option" where
  "scheduler_current s = front (SCHEDULER s)"

definition scheduler_clean_current :: "'w tls_scheme \<Rightarrow> 'w tls_scheme" where
  "scheduler_clean_current s = s\<lparr>SCHEDULER := tl (SCHEDULER s)\<rparr>"

subsection \<open>Listeners\<close>

datatype ('k, 'l) event =
    On_create "('k, 'l) sched_co"
  | On_resume u64 "('k, 'l) sched_co"
  | On_suspend u64 "('k, 'l) sched_co"
  | On_syscall u64 "('k, 'l) sched_co" syscall syscall_state
  | On_complete u64 "('k, 'l) sched_co"
  | On_error u64 "('k, 'l) sched_co" string

type_synonym ('k, 'l, 'li, 's) listener_fn = "'li \<Rightarrow> ('k, 'l) event \<Rightarrow> 's \<Rightarrow> 's"

definition dispatch :: "('k, 'l, 'li, ('q, 'd, 'k, 'l, 'li, 'w) sched_scheme) listener_fn \<Rightarrow> ('k, 'l) event
    \<Rightarrow> ('q, 'd, 'k, 'l, 'li, 'w) sched_scheme \<Rightarrow> ('q, 'd, 'k, 'l, 'li, 'w) sched_scheme" where
  "dispatch L e s = fold (\<lambda>l. L l e) (sc_listeners s) s"

definition add_raw_listener :: "'li \<Rightarrow> ('q, 'd, 'k, 'l, 'li, 'w) sched_scheme \<Rightarrow> ('q, 'd, 'k, 'l, 'li, 'w) sched_scheme" where
  "add_raw_listener l s = s\<lparr>sc_listeners := sc_listeners s @ [l]\<rparr>"

text \<open>\<open>monitor_creator\<close> is the listener \<open>init\<close> adds when preemptive scheduling is built in.\<close>

definition sched_init :: "'li option \<Rightarrow> ('q, 'd, 'k, 'l, 'li, 'w) sched_scheme \<Rightarrow> ('q, 'd, 'k, 'l, 'li, 'w) sched_scheme" where
  "sched_init monitor_creator s =
     (case monitor_creator of None \<Rightarrow> s | Some l \<Rightarrow> add_raw_listener l s)"

definition sched_new :: "('d, string, ('k, 'l) sched_co) dash_ops \<Rightarrow> 'li option \<Rightarrow> string \<Rightarrow> nat \<Rightarrow> 'q
    \<Rightarrow> ('q, 'd, 'k, 'l, 'li, 'w) sched_scheme \<Rightarrow> ('q, 'd, 'k, 'l, 'li, 'w) sched_scheme" where
  "sched_new D monitor_creator name stack_size local_queue s =
     sched_init monitor_creator
       (s\<lparr>sc_name := name, sc_stack_size := stack_size, sc_ready := local_queue, sc_suspend := tl_default,
          sc_syscall := dm_new D, sc_syscall_suspend := tl_default, sc_listeners := []\<rparr>)"

definition sched_default :: "('d, string, ('k, 'l) sched_co) dash_ops \<Rightarrow> 'li option \<Rightarrow> string \<Rightarrow> 'q
    \<Rightarrow> ('q, 'd, 'k, 'l, 'li, 'w) sched_scheme \<Rightarrow> ('q, 'd, 'k, 'l, 'li, 'w) sched_scheme" where
  "sched_default D monitor_creator uuid local_queue s =
     sched_new D monitor_creator (''open-coroutine-scheduler-'' @ uuid) DEFAULT_STACK_SIZE local_queue s"

definition set_stack_size :: "nat \<Rightarrow> ('q, 'd, 'k, 'l, 'li, 'w) sched_scheme \<Rightarrow> ('q, 'd, 'k, 'l, 'li, 'w) sched_scheme" where
  "set_stack_size n s = s\<lparr>sc_stack_size := n\<rparr>"

definition push_ready :: "('q, ('k, 'l) sched_co) queue_ops \<Rightarrow> ('k, 'l) sched_co
    \<Rightarrow> ('q, 'd, 'k, 'l, 'li, 'w) sched_scheme \<Rightarrow> ('q, 'd, 'k, 'l, 'li, 'w) sched_scheme" where
  "push_ready Q co s = s\<lparr>sc_ready := q_push_back Q co (sc_ready s)\<rparr>"

subsection \<open>Waking what is due\<close>

text \<open>The inner loop of \<open>check_ready\<close> over one entry of the suspend list.\<close>

fun wake_suspended :: "('q, ('k, 'l) sched_co) queue_ops \<Rightarrow> ('k, 'l) sched_co list
    \<Rightarrow> ('q, 'd, 'k, 'l, 'li, 'w) sched_scheme
    \<Rightarrow> (unit, sched_error) outcome \<times> ('q, 'd, 'k, 'l, 'li, 'w) sched_scheme" where
  "wake_suspended Q [] s = (Ok (), s)"
| "wake_suspended Q (co # cos) s =
     (case co_ready co s of
        (Ok _, co, s) \<Rightarrow> wake_suspended Q cos (push_ready Q co s)
      | (Err e, co, s) \<Rightarrow> (Err (Co_error e), scheduler_clean_current s)
      | (Panic m, co, s) \<Rightarrow> (Panic m, s))"

fun check_suspend :: "('q, ('k, 'l) sched_co) queue_ops \<Rightarrow> nat \<Rightarrow> ('q, 'd, 'k, 'l, 'li, 'w) sched_scheme
    \<Rightarrow> (unit, sched_error) outcome \<times> ('q, 'd, 'k, 'l, 'li, 'w) sched_scheme" where
  "check_suspend Q 0 s = (Ok (), s)"
| "check_suspend Q (Suc n) s =
     (case tl_front (sc_suspend s) of
        None \<Rightarrow> check_suspend Q n s
      | Some (exec_time, _) \<Rightarrow>
          let (t, s) = now s in
          if t < exec_time then (Ok (), s)
          else (case tl_pop_front (sc_suspend s) of
                  (None, m) \<Rightarrow> check_suspend Q n (s\<lparr>sc_suspend := m\<rparr>)
                | (Some (_, entry), m) \<Rightarrow>
                    (case wake_suspended Q (te_inner entry) (s\<lparr>sc_suspend := m\<rparr>) of
                       (Ok _, s) \<Rightarrow> check_suspend Q n s
                     | (Err e, s) \<Rightarrow> (Err e, s)
                     | (Panic m, s) \<Rightarrow> (Panic m, s))))"

text \<open>The inner loop over one entry of the list of system calls with a deadline.\<close>

fun wake_syscalls :: "('q, ('k, 'l) sched_co) queue_ops \<Rightarrow> ('d, string, ('k, 'l) sched_co) dash_ops
    \<Rightarrow> string list \<Rightarrow> ('q, 'd, 'k, 'l, 'li, 'w) sched_scheme
    \<Rightarrow> (unit, sched_error) outcome \<times> ('q, 'd, 'k, 'l, 'li, 'w) sched_scheme" where
  "wake_syscalls Q D [] s = (Ok (), s)"
| "wake_syscalls Q D (name # names) s =
     (let (r, d) = dm_remove D name (sc_syscall s); s = s\<lparr>sc_syscall := d\<rparr> in
      case r of
        None \<Rightarrow> wake_syscalls Q D names s
      | Some co \<Rightarrow>
          (case co_state_of co of
             SystemCall val sc st \<Rightarrow>
               (case (case st of Sys_Suspend _ \<Rightarrow> co_syscall val sc Sys_Timeout co | _ \<Rightarrow> (Ok (), co)) of
                  (Ok _, co) \<Rightarrow> wake_syscalls Q D names (push_ready Q co s)
                | (Err e, co) \<Rightarrow> (Err (Co_error e), scheduler_clean_current s)
                | (Panic m, co) \<Rightarrow> (Panic m, s))
           | _ \<Rightarrow> (Panic ''check_ready should never execute to here'', s)))"

fun check_syscall_suspend :: "('q, ('k, 'l) sched_co) queue_ops \<Rightarrow> ('d, string, ('k, 'l) sched_co) dash_ops
    \<Rightarrow> nat \<Rightarrow> ('q, 'd, 'k, 'l, 'li, 'w) sched_scheme
    \<Rightarrow> (unit, sched_error) outcome \<times> ('q, 'd, 'k, 'l, 'li, 'w) sched_scheme" where
  "check_syscall_suspend Q D 0 s = (Ok (), s)"
| "check_syscall_suspend Q D (Suc n) s =
     (case tl_front (sc_syscall_suspend s) of
        None \<Rightarrow> check_syscall_suspend Q D n s
      | Some (exec_time, _) \<Rightarrow>
          let (t, s) = now s in
          if t < exec_time then (Ok (), s)
          else (case tl_pop_front (sc_syscall_suspend s) of
                  (None, m) \<Rightarrow> check_syscall_suspend Q D n (s\<lparr>sc_syscall_suspend := m\<rparr>)
                | (Some (_, entry), m) \<Rightarrow>
                    (case wake_syscalls Q D (te_inner entry) (s\<lparr>sc_syscall_suspend := m\<rparr>) of
                       (Ok _, s) \<Rightarrow> check_syscall_suspend Q D n s
                     | (Err e, s) \<Rightarrow> (Err e, s)
                     | (Panic m, s) \<Rightarrow> (Panic m, s))))"

definition check_ready :: "('q, ('k, 'l) sched_co) queue_ops \<Rightarrow> ('d, string, ('k, 'l) sched_co) dash_ops
    \<Rightarrow> ('q, 'd, 'k, 'l, 'li, 'w) sched_scheme
    \<Rightarrow> (unit, sched_error) outcome \<times> ('q, 'd, 'k, 'l, 'li, 'w) sched_scheme" where
  "check_ready Q D s =
     (case check_suspend Q (tl_entry_len (sc_suspend s)) s of
        (Ok _, s) \<Rightarrow> check_syscall_suspend Q D (tl_entry_len (sc_syscall_suspend s)) s
      | (Err e, s) \<Rightarrow> (Err e, s)
      | (Panic m, s) \<Rightarrow> (Panic m, s))"

subsection \<open>Submitting and resuming\<close>

text \<open>\<open>alloc\<close> says whether a stack of a given size can be allocated, \<open>uuid\<close> is the fresh suffix of the name.\<close>

definition submit :: "('q, ('k, 'l) sched_co) queue_ops
    \<Rightarrow> ('k, 'l, 'li, ('q, 'd, 'k, 'l, 'li, 'w) sched_scheme) listener_fn \<Rightarrow> (nat \<Rightarrow> bool) \<Rightarrow> nat \<Rightarrow> string
    \<Rightarrow> 'k \<Rightarrow> 'l \<Rightarrow> nat option \<Rightarrow> ('q, 'd, 'k, 'l, 'li, 'w) sched_scheme
    \<Rightarrow> (unit, sched_error) outcome \<times> ('q, 'd, 'k, 'l, 'li, 'w) sched_scheme" where
  "submit Q L alloc page_size uuid k local_default stack_size s =
     (let size = (case stack_size of Some n \<Rightarrow> n | None \<Rightarrow> sc_stack_size s);
          (co, bytes) = co_new page_size (sc_name s @ ''|'' @ uuid) k local_default size in
      if \<not> alloc bytes then (Err Stack_alloc, s)
      else (case co_ready co s of
              (Ok _, co, s) \<Rightarrow> (Ok (), push_ready Q co (dispatch L (On_create co) s))
            | (Err e, co, s) \<Rightarrow> (Err (Co_error e), s)
            | (Panic m, co, s) \<Rightarrow> (Panic m, s)))"

definition try_resume :: "('q, ('k, 'l) sched_co) queue_ops \<Rightarrow> ('d, string, ('k, 'l) sched_co) dash_ops
    \<Rightarrow> string \<Rightarrow> ('q, 'd, 'k, 'l, 'li, 'w) sched_scheme
    \<Rightarrow> (unit, sched_error) outcome \<times> ('q, 'd, 'k, 'l, 'li, 'w) sched_scheme" where
  "try_resume Q D name s =
     (let (r, d) = dm_remove D name (sc_syscall s); s = s\<lparr>sc_syscall := d\<rparr> in
      case r of
        None \<Rightarrow> (Ok (), s)
      | Some co \<Rightarrow>
          (case co_state_of co of
             SystemCall val sc _ \<Rightarrow>
               (case co_syscall val sc Sys_Computing co of
                  (Ok _, co) \<Rightarrow> (Ok (), push_ready Q co s)
                | (Err e, co) \<Rightarrow> (Err (Co_error e), s)
                | (Panic m, co) \<Rightarrow> (Panic m, s))
           | _ \<Rightarrow> (Panic ''try_resume should never execute to here'', s)))"

subsection \<open>The scheduling loop\<close>

text \<open>What the loop does with one coroutine taken from the ready queue.\<close>

definition run_one :: "('q, ('k, 'l) sched_co) queue_ops \<Rightarrow> ('d, string, ('k, 'l) sched_co) dash_ops
    \<Rightarrow> ('k, 'l, 'li, ('q, 'd, 'k, 'l, 'li, 'w) sched_scheme) listener_fn
    \<Rightarrow> (unit, 'k, unit, unit, 'l, ('q, 'd, 'k, 'l, 'li, 'w) sched_scheme) user_fn
    \<Rightarrow> u64 \<Rightarrow> ('k, 'l) sched_co \<Rightarrow> ('q, 'd, 'k, 'l, 'li, 'w) sched_scheme
    \<Rightarrow> (unit, sched_error) outcome \<times> ('q, 'd, 'k, 'l, 'li, 'w) sched_scheme" where
  "run_one Q D L f timeout_time co s =
     (let s = dispatch L (On_resume timeout_time co) s in
      case resume f co s of
        (Ok state, co, s) \<Rightarrow>
          (case state of
             Suspend _ timestamp \<Rightarrow>
               (let s = dispatch L (On_suspend timeout_time co) s; (n, s) = now s in
                if timestamp \<le> n then (Ok (), push_ready Q co s)
                else (Ok (), s\<lparr>sc_suspend := tl_insert timestamp co (sc_suspend s)\<rparr>))
           | SystemCall _ sc st \<Rightarrow>
               (let s = dispatch L (On_syscall timeout_time co sc st) s;
                    s = (case st of
                           Sys_Suspend timestamp \<Rightarrow>
                             s\<lparr>sc_syscall_suspend := tl_insert timestamp (co_name co) (sc_syscall_suspend s)\<rparr>
                         | _ \<Rightarrow> s)
                in (Ok (), s\<lparr>sc_syscall := snd (dm_insert D (co_name co) co (sc_syscall s))\<rparr>))
           | Complete _ \<Rightarrow> (Ok (), dispatch L (On_complete timeout_time co) s)
           | Error message \<Rightarrow> (Ok (), dispatch L (On_error timeout_time co message) s)
           | _ \<Rightarrow> (Err Never_here, scheduler_clean_current s))
      | (Err e, co, s) \<Rightarrow> (Err (Co_error e), scheduler_clean_current s)
      | (Panic m, co, s) \<Rightarrow> (Panic m, s))"

text \<open>\<open>None\<close> for a loop that does not end.\<close>

partial_function (option) schedule_loop :: "('q, ('k, 'l) sched_co) queue_ops \<Rightarrow> ('d, string, ('k, 'l) sched_co) dash_ops
    \<Rightarrow> ('k, 'l, 'li, ('q, 'd, 'k, 'l, 'li, 'w) sched_scheme) listener_fn
    \<Rightarrow> (unit, 'k, unit, unit, 'l, ('q, 'd, 'k, 'l, 'li, 'w) sched_scheme) user_fn
    \<Rightarrow> u64 \<Rightarrow> ('q, 'd, 'k, 'l, 'li, 'w) sched_scheme
    \<Rightarrow> ((u64, sched_error) outcome \<times> ('q, 'd, 'k, 'l, 'li, 'w) sched_scheme) option" where
  "schedule_loop Q D L f timeout_time s =
     (let (n, s) = now s; left_time = saturating_sub timeout_time n in
      if left_time = 0 then Some (Ok 0, scheduler_clean_current s)
      else case check_ready Q D s of
        (Ok _, s) \<Rightarrow>
          (case q_pop_front Q (sc_ready s) of
             None \<Rightarrow> None
           | Some (None, q) \<Rightarrow> Some (Ok left_time, scheduler_clean_current (s\<lparr>sc_ready := q\<rparr>))
           | Some (Some co, q) \<Rightarrow>
               (case run_one Q D L f timeout_time co (s\<lparr>sc_ready := q\<rparr>) of
                  (Ok _, s) \<Rightarrow> schedule_loop Q D L f timeout_time s
                | (Err e, s) \<Rightarrow> Some (Err e, s)
                | (Panic m, s) \<Rightarrow> Some (Panic m, s)))
      | (Err e, s) \<Rightarrow> Some (Err e, s)
      | (Panic m, s) \<Rightarrow> Some (Panic m, s))"

definition try_timeout_schedule :: "('q, ('k, 'l) sched_co) queue_ops \<Rightarrow> ('d, string, ('k, 'l) sched_co) dash_ops
    \<Rightarrow> ('k, 'l, 'li, ('q, 'd, 'k, 'l, 'li, 'w) sched_scheme) listener_fn
    \<Rightarrow> (unit, 'k, unit, unit, 'l, ('q, 'd, 'k, 'l, 'li, 'w) sched_scheme) user_fn
    \<Rightarrow> u64 \<Rightarrow> ('q, 'd, 'k, 'l, 'li, 'w) sched_scheme
    \<Rightarrow> ((u64, sched_error) outcome \<times> ('q, 'd, 'k, 'l, 'li, 'w) sched_scheme) option" where
  "try_timeout_schedule Q D L f timeout_time s =
     schedule_loop Q D L f timeout_time (scheduler_init_current s)"

definition try_schedule :: "('q, ('k, 'l) sched_co) queue_ops \<Rightarrow> ('d, string, ('k, 'l) sched_co) dash_ops
    \<Rightarrow> ('k, 'l, 'li, ('q, 'd, 'k, 'l, 'li, 'w) sched_scheme) listener_fn
    \<Rightarrow> (unit, 'k, unit, unit, 'l, ('q, 'd, 'k, 'l, 'li, 'w) sched_scheme) user_fn
    \<Rightarrow> ('q, 'd, 'k, 'l, 'li, 'w) sched_scheme
    \<Rightarrow> ((u64, sched_error) outcome \<times> ('q, 'd, 'k, 'l, 'li, 'w) sched_scheme) option" where
  "try_schedule Q D L f s = try_timeout_schedule Q D L f u64_MAX s"

definition try_timed_schedule :: "('q, ('k, 'l) sched_co) queue_ops \<Rightarrow> ('d, string, ('k, 'l) sched_co) dash_ops
    \<Rightarrow> ('k, 'l, 'li, ('q, 'd, 'k, 'l, 'li, 'w) sched_scheme) listener_fn
    \<Rightarrow> (unit, 'k, unit, unit, 'l, ('q, 'd, 'k, 'l, 'li, 'w) sched_scheme) user_fn
    \<Rightarrow> duration \<Rightarrow> ('q, 'd, 'k, 'l, 'li, 'w) sched_scheme
    \<Rightarrow> ((u64, sched_error) outcome \<times> ('q, 'd, 'k, 'l, 'li, 'w) sched_scheme) option" where
  "try_timed_schedule Q D L f d s =
     (let (timeout_time, s) = get_timeout_time d s in try_timeout_schedule Q D L f timeout_time s)"

definition sched_size :: "('q, ('k, 'l) sched_co) queue_ops \<Rightarrow> ('d, string, ('k, 'l) sched_co) dash_ops
    \<Rightarrow> ('q, 'd, 'k, 'l, 'li, 'w) sched_scheme \<Rightarrow> nat" where
  "sched_size Q D s = q_len Q (sc_ready s) + tl_len (sc_suspend s) + dm_len D (sc_syscall s)"

definition sched_is_empty :: "('q, ('k, 'l) sched_co) queue_ops \<Rightarrow> ('d, string, ('k, 'l) sched_co) dash_ops
    \<Rightarrow> ('q, 'd, 'k, 'l, 'li, 'w) sched_scheme \<Rightarrow> bool" where
  "sched_is_empty Q D s \<longleftrightarrow> sched_size Q D s = 0"

definition sched_drop :: "('q, ('k, 'l) sched_co) queue_ops \<Rightarrow> ('d, string, ('k, 'l) sched_co) dash_ops
    \<Rightarrow> ('q, 'd, 'k, 'l, 'li, 'w) sched_scheme \<Rightarrow> (unit, unit) outcome" where
  "sched_drop Q D s =
     (if \<not> q_is_empty Q (sc_ready s)
      then Panic ''There are still coroutines to be carried out in the ready queue''
      else if \<not> tl_is_empty (sc_suspend s)
      then Panic ''There are still coroutines to be carried out in the suspend queue''
      else if dm_len D (sc_syscall s) \<noteq> 0
      then Panic ''There are still coroutines to be carried out in the syscall queue''
      else Ok ())"

end
