(* ===== verification/Comparisons.thy ===== *)
theory Comparisons
  imports Scheduler
begin

text \<open>
  How coroutines and schedulers are compared: by their names (\<^verbatim>\<open>Eq\<close>, \<^verbatim>\<open>PartialEq\<close>, \<^verbatim>\<open>Ord\<close> and
  \<^verbatim>\<open>PartialOrd\<close> of \<^verbatim>\<open>coroutine/korosensei.rs\<close>, \<^verbatim>\<open>PartialEq\<close> of \<^verbatim>\<open>scheduler/mod.rs\<close>), and that these are the
  total orders the traits require.
\<close>

datatype ordering = Less | Equal | Greater

text \<open>Strings are compared byte by byte.\<close>

fun str_cmp :: "string \<Rightarrow> string \<Rightarrow> ordering" where
  "str_cmp [] [] = Equal"
| "str_cmp [] (b # bs) = Less"
| "str_cmp (a # as) [] = Greater"
| "str_cmp (a # as) (b # bs) =
     (if (of_char a :: nat) < of_char b then Less else if (of_char b :: nat) < of_char a then Greater else str_cmp as bs)"

definition co_eq :: "('k, 'y, 'r, 'l) coroutine \<Rightarrow> ('k, 'y, 'r, 'l) coroutine \<Rightarrow> bool" where
  "co_eq co other \<longleftrightarrow> co_name co = co_name other"

definition co_cmp :: "('k, 'y, 'r, 'l) coroutine \<Rightarrow> ('k, 'y, 'r, 'l) coroutine \<Rightarrow> ordering" where
  "co_cmp co other = str_cmp (co_name co) (co_name other)"

definition co_partial_cmp :: "('k, 'y, 'r, 'l) coroutine \<Rightarrow> ('k, 'y, 'r, 'l) coroutine \<Rightarrow> ordering option" where
  "co_partial_cmp co other = Some (co_cmp co other)"

definition scheduler_eq :: "('q, 'd, 'k, 'l, 'li, 'w) sched_scheme \<Rightarrow> ('q, 'd, 'k, 'l, 'li, 'w) sched_scheme \<Rightarrow> bool" where
  "scheduler_eq s other \<longleftrightarrow> sc_name s = sc_name other"

subsection \<open>The laws of the traits\<close>

text \<open>What \<^verbatim>\<open>Ord\<close> promises to those who sort by it: a total preorder that agrees with \<^verbatim>\<open>Eq\<close>.\<close>

locale rust_ord =
  fixes eq :: "'a \<Rightarrow> 'a \<Rightarrow> bool" and cmp :: "'a \<Rightarrow> 'a \<Rightarrow> ordering"
  assumes equal: "cmp a b = Equal \<longleftrightarrow> eq a b"
    and swap: "cmp a b = Less \<longleftrightarrow> cmp b a = Greater"
    and less_trans: "cmp a b = Less \<Longrightarrow> cmp b c = Less \<Longrightarrow> cmp a c = Less"
    and eq_trans: "eq a b \<Longrightarrow> cmp b c = cmp a c"
begin

lemma eq_refl: "eq a a"
  using swap [of a a] equal [of a a] by (cases "cmp a a") simp_all

lemma eq_sym: "eq a b \<Longrightarrow> eq b a"
  using swap [of a b] swap [of b a] equal [of a b] equal [of b a] by (cases "cmp b a") simp_all

text \<open>A list that is sorted pairwise is sorted.\<close>

definition ordered :: "'a \<Rightarrow> 'a \<Rightarrow> bool" where
  "ordered a b \<longleftrightarrow> cmp a b \<noteq> Greater"

lemma ordered_total: "ordered a b \<or> ordered b a"
  using swap [of a b] by (cases "cmp a b") (simp_all add: ordered_def)

lemma ordered_trans:
  assumes "ordered a b" "ordered b c"
  shows "ordered a c"
proof (cases "cmp a b")
  case Less
  show ?thesis
  proof (cases "cmp b c")
    case Equal
    with eq_trans [of c b a] eq_sym [of b c] swap [of a b] swap [of a c] Less show ?thesis
      by (simp add: equal ordered_def)
  qed (use Less less_trans [of a b c] assms(2) in \<open>simp_all add: ordered_def\<close>)
next
  case Equal
  with eq_trans [of a b c] assms(2) show ?thesis by (simp add: equal ordered_def)
qed (use assms(1) in \<open>simp add: ordered_def\<close>)

end

lemma str_cmp_Equal: "str_cmp a b = Equal \<longleftrightarrow> a = b"
  by (induction a b rule: str_cmp.induct) (auto simp: of_char_eq_iff linorder_neq_iff [symmetric])

lemma str_cmp_swap: "str_cmp a b = Less \<longleftrightarrow> str_cmp b a = Greater"
  by (induction a b rule: str_cmp.induct) auto

lemma str_cmp_Less_Cons:
  "str_cmp (a # as) (b # bs) = Less \<longleftrightarrow>
     (of_char a :: nat) < of_char b \<or> (of_char a :: nat) = of_char b \<and> str_cmp as bs = Less"
  by (cases "of_char a :: nat" "of_char b :: nat" rule: linorder_cases) auto

lemma str_cmp_trans: "str_cmp a b = Less \<Longrightarrow> str_cmp b c = Less \<Longrightarrow> str_cmp a c = Less"
proof (induction a arbitrary: b c)
  case Nil
  then show ?case by (cases b; cases c) simp_all
next
  case (Cons a as)
  then obtain b' bs c' cs where bc: "b = b' # bs" "c = c' # cs" by (cases b; cases c) simp_all
  define x y z :: nat where "x = of_char a" and "y = of_char b'" and "z = of_char c'"
  from Cons.prems have "x < y \<or> x = y \<and> str_cmp as bs = Less" "y < z \<or> y = z \<and> str_cmp bs cs = Less"
    unfolding bc str_cmp_Less_Cons x_def y_def z_def .
  with Cons.IH [of bs cs] have "x < z \<or> x = z \<and> str_cmp as cs = Less" by auto
  then show ?case unfolding bc str_cmp_Less_Cons x_def z_def .
qed

interpretation coroutines: rust_ord co_eq co_cmp
proof unfold_locales
  fix a b c :: "('k, 'y, 'r, 'l) coroutine"
  show "co_cmp a b = Less \<Longrightarrow> co_cmp b c = Less \<Longrightarrow> co_cmp a c = Less"
    unfolding co_cmp_def by (rule str_cmp_trans)
qed (simp_all add: co_eq_def co_cmp_def str_cmp_Equal str_cmp_swap)

text \<open>Two coroutines of a scheduler whose names differ are never equal, so a comparison identifies them.\<close>

lemma co_partial_cmp_total:
  "co_partial_cmp co other \<noteq> None" "co_partial_cmp co other = Some Equal \<longleftrightarrow> co_name co = co_name other"
  by (simp_all add: co_partial_cmp_def coroutines.equal) (simp add: co_eq_def)

end
