(* ===== verification/Version.thy ===== *)
theory Version
  imports Prelude
begin

text \<open>
  The number of a kernel version (\<^verbatim>\<open>version.rs\<close>). A \<^verbatim>\<open>c_int\<close> is a signed word of 32 bits; the shift drops what leaves
  the word, an addition that overflows is a panic in a checked build and wraps in a release build (here).
\<close>

type_synonym c_int32 = "32 word"

definition kernel_version :: "c_int32 \<Rightarrow> c_int32 \<Rightarrow> c_int32 \<Rightarrow> c_int32" where
  "kernel_version major patchlevel sublevel =
     push_bit 16 major + push_bit 8 patchlevel + (if 255 <s sublevel then 255 else sublevel)"

definition current_kernel_version :: "c_int32 \<Rightarrow> c_int32" where
  "current_kernel_version linux_version_code = linux_version_code"

text \<open>For the numbers kernels have, the version is one number with three digits, of which the last is capped.\<close>

lemma kernel_version_digits:
  assumes "unat major < 2 ^ 15" "unat patchlevel < 2 ^ 8" "unat sublevel < 2 ^ 31"
  shows "unat (kernel_version major patchlevel sublevel) = unat major * 2 ^ 16 + unat patchlevel * 2 ^ 8 + min (unat sublevel) 255"
proof -
  have s: "sint sublevel = int (unat sublevel)"
  proof -
    have u: "uint sublevel = int (unat sublevel)" by simp
    have "unat sublevel < 2147483648" using assms(3) by simp
    then have "uint sublevel < 2147483648" using u by linarith
    moreover have "- 2147483648 \<le> uint sublevel" by (rule order_trans [of _ 0]) simp_all
    ultimately show ?thesis
      using signed_take_bit_int_eq_self [of 31 "uint sublevel"] unfolding u [symmetric] by (simp add: sint_uint)
  qed
  let ?c = "if 255 <s sublevel then 255 else sublevel"
  have "255 <s sublevel \<longleftrightarrow> 255 < unat sublevel" unfolding word_sless_alt s by (simp flip: of_nat_less_iff [where ?'a = int])
  then have c: "unat ?c = min (unat sublevel) 255" by simp
  have m: "unat (push_bit 16 major) = unat major * 2 ^ 16"
    using assms(1) by (simp add: push_bit_eq_mult unat_word_ariths)
  have p: "unat (push_bit 8 patchlevel) = unat patchlevel * 2 ^ 8"
    using assms(2) by (simp add: push_bit_eq_mult unat_word_ariths)
  have "unat (push_bit 16 major + push_bit 8 patchlevel) = unat major * 2 ^ 16 + unat patchlevel * 2 ^ 8"
    using m p assms(1,2) by (simp add: unat_word_ariths)
  then show ?thesis
    using c assms(1,2) unfolding kernel_version_def by (simp add: unat_word_ariths)
qed

text \<open>So versions compare as their parts do, up to the cap.\<close>

lemma kernel_version_less:
  assumes "unat a < 2 ^ 15" "unat b < 2 ^ 8" "unat c < 2 ^ 8" "unat a' < 2 ^ 15" "unat b' < 2 ^ 8" "unat c' < 2 ^ 8"
  shows "kernel_version a b c < kernel_version a' b' c' \<longleftrightarrow>
    unat a < unat a' \<or> unat a = unat a' \<and> (unat b < unat b' \<or> unat b = unat b' \<and> unat c < unat c')"
proof -
  have "unat (kernel_version a b c) = unat a * 2 ^ 16 + unat b * 2 ^ 8 + unat c"
    "unat (kernel_version a' b' c') = unat a' * 2 ^ 16 + unat b' * 2 ^ 8 + unat c'"
    using assms kernel_version_digits [of a b c] kernel_version_digits [of a' b' c'] by simp_all
  with assms show ?thesis unfolding word_less_nat_alt by auto
qed

end
