(* ===== verification/SchedulerSpec.thy ===== *)
theory SchedulerSpec
  imports Scheduler
begin

text \<open>
  What the scheduler promises, and that it keeps it: the invariant that ties every coroutine
  to the place it waits in, and the lemmas for each operation in the locale \<open>scheduler\<close>.
\<close>

subsection \<open>Invariant\<close>

text \<open>The coroutines a scheduler owns, given what its queue and its map hold.\<close>

definition owned :: "('q \<Rightarrow> ('k, 'l) sched_co multiset) \<Rightarrow> ('d \<Rightarrow> string \<rightharpoonup> ('k, 'l) sched_co)
    \<Rightarrow> ('q, 'd, 'k, 'l, 'li, 'w) sched_scheme \<Rightarrow> ('k, 'l) sched_co multiset" where
  "owned q_items look s =
     q_items (sc_ready s) + mset (map snd (tl_pairs (sc_suspend s))) + map_vals (look (sc_syscall s))"

definition names :: "('q \<Rightarrow> ('k, 'l) sched_co multiset) \<Rightarrow> ('d \<Rightarrow> string \<rightharpoonup> ('k, 'l) sched_co)
    \<Rightarrow> ('q, 'd, 'k, 'l, 'li, 'w) sched_scheme \<Rightarrow> string multiset" where
  "names q_items look s = image_mset co_name (owned q_items look s)"

text \<open>A coroutine that is not done and continues at a place \<open>okk\<close> allows, given whether it is in a system call.\<close>

definition live :: "('k \<Rightarrow> bool \<Rightarrow> bool) \<Rightarrow> ('k, 'l) sched_co \<Rightarrow> bool" where
  "live okk co \<longleftrightarrow> \<not> in_done (co_inner co) \<and> okk (in_cont (co_inner co)) (is_syscall (co_state co))"

lemma live_not_done: "live okk co \<Longrightarrow> \<not> in_done (co_inner co)"
  by (simp add: live_def)

text \<open>
  Ready coroutines may run, suspended ones are filed under their deadline, those in the map are in a system
  call and filed under their name; every coroutine is live, no two have the same name (\<open>R\<close> are the
  names of coroutines taken out to run), and the clock does not go back.
\<close>

definition sched_inv :: "('q \<Rightarrow> ('k, 'l) sched_co multiset) \<Rightarrow> ('q \<Rightarrow> bool)
    \<Rightarrow> ('d \<Rightarrow> string \<rightharpoonup> ('k, 'l) sched_co) \<Rightarrow> ('d \<Rightarrow> bool) \<Rightarrow> ('k \<Rightarrow> bool \<Rightarrow> bool)
    \<Rightarrow> ('q, 'd, 'k, 'l, 'li, 'w) sched_scheme \<Rightarrow> string multiset \<Rightarrow> bool" where
  "sched_inv q_items q_inv look dok okk s R \<longleftrightarrow>
     q_inv (sc_ready s) \<and> tl_inv (sc_suspend s) \<and> tl_inv (sc_syscall_suspend s) \<and> dok (sc_syscall s) \<and>
     mono (clk s) \<and>
     (\<forall>co. co \<in># q_items (sc_ready s) \<longrightarrow> resumable co s) \<and>
     (\<forall>p \<in> set (tl_pairs (sc_suspend s)). co_state (snd p) = Suspend () (fst p)) \<and>
     (\<forall>n co. look (sc_syscall s) n = Some co \<longrightarrow> co_name co = n \<and> is_syscall (co_state co)) \<and>
     (\<forall>co. co \<in># owned q_items look s \<longrightarrow> live okk co) \<and>
     (\<forall>n. count (names q_items look s + R) n \<le> 1)"

text \<open>How a state may change while an operation runs: time passes, the stack of current schedulers stays.\<close>

definition advances :: "('q, 'd, 'k, 'l, 'li, 'w) sched_scheme \<Rightarrow> ('q, 'd, 'k, 'l, 'li, 'w) sched_scheme \<Rightarrow> bool" where
  "advances s s' \<longleftrightarrow> clk s' = clk s \<and> reads s \<le> reads s' \<and> SCHEDULER s' = SCHEDULER s"

lemma advances_refl [simp]: "advances s s"
  by (simp add: advances_def)

lemma advances_trans: "advances s s' \<Longrightarrow> advances s' s'' \<Longrightarrow> advances s s''"
  by (simp add: advances_def)

text \<open>The parts of the state the invariant is about.\<close>

definition same_places :: "('q, 'd, 'k, 'l, 'li, 'w) sched_scheme \<Rightarrow> ('q, 'd, 'k, 'l, 'li, 'w) sched_scheme \<Rightarrow> bool" where
  "same_places s s' \<longleftrightarrow> sc_ready s' = sc_ready s \<and> sc_suspend s' = sc_suspend s \<and>
     sc_syscall s' = sc_syscall s \<and> sc_syscall_suspend s' = sc_syscall_suspend s \<and>
     clk s' = clk s \<and> reads s \<le> reads s'"

lemma now_mono:
  assumes "mono (clk s)" "clk s' = clk s" "reads s \<le> reads s'"
  shows "fst (now s) \<le> fst (now (s' :: 'w env_scheme))"
proof -
  have "clk s (reads s) \<le> clk s' (reads s')" using assms by (simp add: monoD)
  then show ?thesis by (simp add: word_le_nat_alt unat_now min.coboundedI1)
qed

lemma resumable_mono:
  assumes "resumable co s" "mono (clk s)" "clk s' = clk s" "reads s \<le> reads s'"
  shows "resumable co (s' :: 'w env_scheme)"
  using assms(1) now_mono [OF assms(2-4)]
  by (cases "co_state co") (auto simp: resumable_def)

lemma sched_now_frame [simp]:
  "sc_ready (snd (now s)) = sc_ready s" "sc_suspend (snd (now s)) = sc_suspend s"
  "sc_syscall (snd (now s)) = sc_syscall s" "sc_syscall_suspend (snd (now s)) = sc_syscall_suspend s"
  "sc_listeners (snd (now s)) = sc_listeners s" "sc_name (snd (now s)) = sc_name s"
  by (simp_all add: now_def)

lemma same_places_now [simp]: "same_places s (snd (now s))"
  by (simp add: same_places_def now_def)

lemma advances_now [simp]: "advances s (snd (now s))"
  by (simp add: advances_def now_def)

locale scheduler = rq: ready_queue Q q_items q_inv + dm: dash_map D look dok
  for Q :: "('q, ('k, 'l) sched_co) queue_ops" and q_items :: "'q \<Rightarrow> ('k, 'l) sched_co multiset" and q_inv :: "'q \<Rightarrow> bool"
    and D :: "('d, string, ('k, 'l) sched_co) dash_ops" and look :: "'d \<Rightarrow> string \<rightharpoonup> ('k, 'l) sched_co"
    and dok :: "'d \<Rightarrow> bool" +
  fixes okk :: "'k \<Rightarrow> bool \<Rightarrow> bool"
begin

abbreviation sinv :: "('q, 'd, 'k, 'l, 'li, 'w) sched_scheme \<Rightarrow> string multiset \<Rightarrow> bool" where
  "sinv \<equiv> sched_inv q_items q_inv look dok okk"

abbreviation ownd :: "('q, 'd, 'k, 'l, 'li, 'w) sched_scheme \<Rightarrow> ('k, 'l) sched_co multiset" where
  "ownd \<equiv> owned q_items look"

abbreviation nms :: "('q, 'd, 'k, 'l, 'li, 'w) sched_scheme \<Rightarrow> string multiset" where
  "nms \<equiv> names q_items look"

lemma same_places_own: "same_places s s' \<Longrightarrow> ownd s' = ownd s \<and> nms s' = nms s"
  by (simp add: same_places_def owned_def names_def)

lemma inv_same_places:
  assumes "sinv s R" "same_places s s'"
  shows "sinv s' R"
proof -
  have "resumable co s'" if "co \<in># q_items (sc_ready s)" for co
    using assms that resumable_mono [of co s s'] unfolding sched_inv_def same_places_def by blast
  with assms show ?thesis
    unfolding sched_inv_def by (simp add: same_places_own) (simp add: same_places_def)
qed

lemma inv_now: "sinv s R \<Longrightarrow> sinv (snd (now s)) R"
  by (rule inv_same_places [OF _ same_places_now])

lemma inv_tls [simp]:
  "sinv (s\<lparr>SCHEDULER := xs\<rparr>) R = sinv s R" "sinv (s\<lparr>COROUTINE := xs\<rparr>) R = sinv s R"
  "sinv (s\<lparr>SUSPENDER := xs\<rparr>) R = sinv s R" "sinv (s\<lparr>TIMESTAMP := ts\<rparr>) R = sinv s R"
  by (simp_all add: sched_inv_def names_def owned_def resumable_def now_def)

lemma own_tls [simp]:
  "ownd (s\<lparr>SCHEDULER := xs\<rparr>) = ownd s" "ownd (s\<lparr>COROUTINE := xs\<rparr>) = ownd s"
  "ownd (s\<lparr>SUSPENDER := xs\<rparr>) = ownd s" "ownd (s\<lparr>TIMESTAMP := ts\<rparr>) = ownd s"
  by (simp_all add: owned_def)

lemma nms_tls [simp]:
  "nms (s\<lparr>SCHEDULER := xs\<rparr>) = nms s" "nms (s\<lparr>COROUTINE := xs\<rparr>) = nms s"
  "nms (s\<lparr>SUSPENDER := xs\<rparr>) = nms s" "nms (s\<lparr>TIMESTAMP := ts\<rparr>) = nms s"
  by (simp_all add: names_def)

text \<open>Filing a coroutine in each of the three places.\<close>

lemma push_ready_spec:
  assumes "sinv s (add_mset (co_name co) R)" "resumable co s" "live okk co"
  shows "sinv (push_ready Q co s) R" "ownd (push_ready Q co s) = add_mset co (ownd s)"
    "nms (push_ready Q co s) = add_mset (co_name co) (nms s)" "advances s (push_ready Q co s)"
proof -
  have q: "q_inv (sc_ready s)" using assms(1) by (simp add: sched_inv_def)
  show o: "ownd (push_ready Q co s) = add_mset co (ownd s)"
    by (simp add: owned_def push_ready_def rq.push_items [OF q])
  then show n: "nms (push_ready Q co s) = add_mset (co_name co) (nms s)"
    by (simp add: names_def)
  have r: "resumable c (push_ready Q co s) = resumable c s" for c :: "('k, 'l) sched_co"
    by (simp add: resumable_def now_def push_ready_def)
  show "sinv (push_ready Q co s) R"
    using assms unfolding sched_inv_def n o r
    by (auto simp: push_ready_def rq.push_inv [OF q] rq.push_items [OF q])
  show "advances s (push_ready Q co s)" by (simp add: advances_def push_ready_def)
qed

lemma insert_suspend_spec:
  assumes "sinv s (add_mset (co_name co) R)" "co_state co = Suspend () ts" "live okk co"
  defines "s' \<equiv> s\<lparr>sc_suspend := tl_insert ts co (sc_suspend s)\<rparr>"
  shows "sinv s' R" "nms s' = add_mset (co_name co) (nms s)" "advances s s'"
proof -
  have t: "tl_inv (sc_suspend s)" using assms(1) by (simp add: sched_inv_def)
  have ps: "mset (tl_pairs (tl_insert ts co (sc_suspend s))) = add_mset (ts, co) (mset (tl_pairs (sc_suspend s)))"
    by (rule tlq.mset_ins [OF t])
  then have "set (tl_pairs (tl_insert ts co (sc_suspend s))) = insert (ts, co) (set (tl_pairs (sc_suspend s)))"
    by (metis set_mset_add_mset_insert set_mset_mset)
  moreover have o: "ownd s' = add_mset co (ownd s)"
    using ps by (simp add: owned_def s'_def)
  moreover from o show n: "nms s' = add_mset (co_name co) (nms s)" by (simp add: names_def)
  moreover have "resumable c s' = resumable c s" for c :: "('k, 'l) sched_co"
    by (simp add: resumable_def now_def s'_def)
  ultimately show "sinv s' R"
    using assms(1-3) tlq.invar_ins [OF t, of ts co] unfolding sched_inv_def
    by (simp add: n) (auto simp: s'_def)
  show "advances s s'" by (simp add: advances_def s'_def)
qed

lemma insert_syscall_spec:
  assumes "sinv s (add_mset (co_name co) R)" "is_syscall (co_state co)" "live okk co"
  defines "s' \<equiv> s\<lparr>sc_syscall := snd (dm_insert D (co_name co) co (sc_syscall s))\<rparr>"
  shows "sinv s' R" "nms s' = add_mset (co_name co) (nms s)" "advances s s'"
proof -
  have d: "dok (sc_syscall s)" using assms(1) by (simp add: sched_inv_def)
  have fresh: "look (sc_syscall s) (co_name co) = None"
  proof (rule ccontr)
    assume "look (sc_syscall s) (co_name co) \<noteq> None"
    then obtain c where c: "look (sc_syscall s) (co_name co) = Some c" by blast
    with assms(1) have "co_name c = co_name co" by (simp add: sched_inv_def)
    moreover have "c \<in># ownd s" using dm.vals_remove [OF d c] by (simp add: owned_def)
    ultimately have "co_name co \<in># nms s" unfolding names_def by (metis imageI set_image_mset)
    moreover have "count (nms s + add_mset (co_name co) R) (co_name co) \<le> 1"
      using assms(1) unfolding sched_inv_def by blast
    ultimately show False by (simp add: not_in_iff [symmetric])
  qed
  have o: "ownd s' = add_mset co (ownd s)"
    by (simp add: owned_def s'_def dm.vals_insert_fresh [OF d fresh])
  then show n: "nms s' = add_mset (co_name co) (nms s)" by (simp add: names_def)
  have "resumable c s' = resumable c s" for c :: "('k, 'l) sched_co"
    by (simp add: resumable_def now_def s'_def)
  with assms(1-3) o n dm.insert_ok [OF d] dm.insert_look [OF d] show "sinv s' R"
    unfolding sched_inv_def by (simp add: s'_def split: if_splits) 
  show "advances s s'" by (simp add: advances_def s'_def)
qed

text \<open>Taking the first entry of the suspend list: its coroutines are running names until they are filed again.\<close>

lemma pop_suspend_spec:
  assumes "sinv s R" "tl_pop_front (sc_suspend s) = (Some (ts, e), m)"
  defines "s' \<equiv> s\<lparr>sc_suspend := m\<rparr>"
  shows "sinv s' (mset (map co_name (te_inner e)) + R)"
    "nms s = mset (map co_name (te_inner e)) + nms s'" "advances s s'"
    "\<forall>co \<in> set (te_inner e). co_state co = Suspend () ts \<and> live okk co"
proof -
  have t: "tl_inv (sc_suspend s)" using assms(1) by (simp add: sched_inv_def)
  have ps: "tl_pairs (sc_suspend s) = map (Pair ts) (te_inner e) @ tl_pairs m"
    by (rule tlq.pairs_pop [OF assms(2)])
  have m: "tl_inv m" using tlq.invar_pop [OF t] assms(2) by simp
  have o: "ownd s = mset (te_inner e) + ownd s'"
    by (simp add: owned_def s'_def ps ac_simps comp_def)
  then show n: "nms s = mset (map co_name (te_inner e)) + nms s'" by (simp add: names_def)
  show "\<forall>co \<in> set (te_inner e). co_state co = Suspend () ts \<and> live okk co"
  proof
    fix co assume co: "co \<in> set (te_inner e)"
    have "\<forall>p \<in> set (tl_pairs (sc_suspend s)). co_state (snd p) = Suspend () (fst p)"
      "\<forall>co. co \<in># ownd s \<longrightarrow> live okk co"
      using assms(1) by (simp_all add: sched_inv_def)
    then show "co_state co = Suspend () ts \<and> live okk co"
      using co o ps by (auto dest: bspec [of _ _ "(ts, co)"])
  qed
  have "resumable c s' = resumable c s" for c :: "('k, 'l) sched_co"
    by (simp add: resumable_def now_def s'_def)
  moreover have "count (nms s' + (mset (map co_name (te_inner e)) + R)) x = count (nms s + R) x" for x
    by (simp add: n)
  ultimately show "sinv s' (mset (map co_name (te_inner e)) + R)"
    using assms(1) m o ps unfolding sched_inv_def by (simp add: s'_def add.assoc [symmetric])
  show "advances s s'" by (simp add: advances_def s'_def)
qed

text \<open>Waking the coroutines of an entry that is due.\<close>

lemma co_ready_due:
  assumes "co_state co = Suspend y ts" "ts \<le> fst (now w)"
  shows "co_ready co w = (Ok (), co\<lparr>co_state := Ready\<rparr>, snd (now w))"
  using assms by (cases "now w") (simp add: co_ready_def co_state_of_def Let_def)

definition unchanged_but_ready :: "('q, 'd, 'k, 'l, 'li, 'w) sched_scheme \<Rightarrow> ('q, 'd, 'k, 'l, 'li, 'w) sched_scheme \<Rightarrow> bool" where
  "unchanged_but_ready s s' \<longleftrightarrow> sc_suspend s' = sc_suspend s \<and> sc_syscall s' = sc_syscall s \<and>
     sc_syscall_suspend s' = sc_syscall_suspend s"

lemma wake_suspended_spec:
  assumes "sinv s (mset (map co_name cos) + R)" "ts \<le> fst (now s)"
    "\<forall>co \<in> set cos. co_state co = Suspend () ts \<and> live okk co"
  shows "\<exists>s'. wake_suspended Q cos s = (Ok (), s') \<and> sinv s' R \<and> nms s' = nms s + mset (map co_name cos) \<and>
    advances s s' \<and> unchanged_but_ready s s'"
  using assms
proof (induction cos arbitrary: s)
  case Nil
  then show ?case by (simp add: unchanged_but_ready_def)
next
  case (Cons co cos)
  let ?co = "co\<lparr>co_state := Ready\<rparr>" let ?s = "snd (now s)"
  let ?s1 = "push_ready Q ?co ?s"
  have r: "co_ready co s = (Ok (), ?co, ?s)" using Cons.prems by (simp add: co_ready_due)
  have i: "sinv ?s (add_mset (co_name ?co) (mset (map co_name cos) + R))"
    using inv_now [OF Cons.prems(1)] by simp
  have res: "resumable ?co ?s" by (simp add: resumable_def)
  have nd: "live okk ?co" using Cons.prems(3) by (auto simp: live_def)
  note p = push_ready_spec [OF i res nd]
  have a: "advances s ?s1" using advances_trans [OF advances_now p(4)] .
  have mono: "mono (clk s)" using Cons.prems(1) by (simp add: sched_inv_def)
  have "ts \<le> fst (now ?s1)"
    using Cons.prems(2) now_mono [OF mono, of ?s1] a unfolding advances_def by (meson order_trans)
  then obtain s' where s': "wake_suspended Q cos ?s1 = (Ok (), s')" "sinv s' R"
    "nms s' = nms ?s1 + mset (map co_name cos)" "advances ?s1 s'" "unchanged_but_ready ?s1 s'"
    using Cons.IH [OF p(1)] Cons.prems(3) by auto
  moreover have "unchanged_but_ready s s'"
    using s'(5) by (simp add: unchanged_but_ready_def push_ready_def now_def)
  moreover have "nms ?s1 = add_mset (co_name co) (nms s)"
    using p(3) same_places_own [OF same_places_now, of s] by simp
  ultimately show ?case
    using r advances_trans [OF a s'(4)] by (intro exI [of _ s']) simp
qed

text \<open>The loop of \<open>check_ready\<close> over the suspend list stops at the first entry that is not due.\<close>

lemma front_not_due:
  assumes "tl_inv ((ts, e) # m)" "t < ts"
  shows "\<forall>p \<in> set (tl_pairs ((ts, e) # m)). t < fst p"
proof -
  have pop: "tl_pop_front ((ts, e) # m) = (Some (ts, e), m)" by (simp add: tl_pop_front_def)
  have "\<forall>p \<in> set (tl_pairs ((ts, e) # m)). ts \<le> fst p"
    using tl_pop_front_least(1) [OF assms(1) pop] tlq.pairs_pop [OF pop] by (auto intro: less_imp_le)
  with assms(2) show ?thesis by (auto intro: order.strict_trans2)
qed

lemma check_suspend_due:
  assumes "sinv s R" "sc_suspend s = (ts, e) # m" "\<not> fst (now s) < ts"
  shows "\<exists>s2. check_suspend Q (Suc n) s = check_suspend Q n s2 \<and> sinv s2 R \<and> nms s2 = nms s \<and> advances s s2 \<and>
    sc_suspend s2 = m \<and> sc_syscall s2 = sc_syscall s \<and> sc_syscall_suspend s2 = sc_syscall_suspend s"
proof -
  let ?s = "snd (now s)" let ?s1 = "?s\<lparr>sc_suspend := m\<rparr>"
  have mono: "mono (clk s)" using assms(1) by (simp add: sched_inv_def)
  have pop: "tl_pop_front (sc_suspend ?s) = (Some (ts, e), m)" by (simp add: assms(2) tl_pop_front_def)
  note p = pop_suspend_spec [OF inv_now [OF assms(1)] pop]
  have a1: "advances s ?s1" by (rule advances_trans [OF advances_now p(3)])
  have ts: "ts \<le> fst (now ?s1)"
    using assms(3) now_mono [OF mono, of ?s1] a1 unfolding advances_def by auto
  obtain s2 where s2: "wake_suspended Q (te_inner e) ?s1 = (Ok (), s2)" "sinv s2 R"
    "nms s2 = nms ?s1 + mset (map co_name (te_inner e))" "advances ?s1 s2" "unchanged_but_ready ?s1 s2"
    using wake_suspended_spec [OF p(1) ts p(4)] by auto
  have "check_suspend Q (Suc n) s = check_suspend Q n s2"
    using assms(2,3) s2(1) by (simp add: case_prod_beta tl_front_def tl_pop_front_def)
  moreover have "nms s2 = nms s" using s2(3) p(2) same_places_own [OF same_places_now, of s] by simp
  ultimately show ?thesis
    using s2(2,5) advances_trans [OF a1 s2(4)] by (auto simp: unchanged_but_ready_def)
qed

lemma check_suspend_spec:
  assumes "sinv s R" "length (sc_suspend s) \<le> n"
  shows "\<exists>s'. check_suspend Q n s = (Ok (), s') \<and> sinv s' R \<and> nms s' = nms s \<and> advances s s' \<and>
    sc_syscall s' = sc_syscall s \<and> sc_syscall_suspend s' = sc_syscall_suspend s \<and>
    (\<forall>p \<in> set (tl_pairs (sc_suspend s')). fst (now s) < fst p) \<and>
    (\<exists>woken. tl_pairs (sc_suspend s) = woken @ tl_pairs (sc_suspend s') \<and>
       (\<forall>p \<in> set woken. fst p \<le> fst (now s')))"
  using assms
proof (induction n arbitrary: s)
  case 0
  then show ?case by auto
next
  case (Suc n)
  have tinv: "tl_inv (sc_suspend s)" and mono: "mono (clk s)" using Suc.prems(1) by (simp_all add: sched_inv_def)
  consider "sc_suspend s = []" | ts e m where "sc_suspend s = (ts, e) # m" "fst (now s) < ts"
    | ts e m where "sc_suspend s = (ts, e) # m" "\<not> fst (now s) < ts"
    by (cases "sc_suspend s") force+
  then show ?case
  proof cases
    case 1
    with Suc.IH [OF Suc.prems(1)] show ?thesis by (auto simp: tl_front_def)
  next
    case (2 ts e m)
    with front_not_due [of ts e m] tinv inv_now [OF Suc.prems(1)] same_places_own [OF same_places_now, of s] show ?thesis
      by (intro exI [of _ "snd (now s)"]) (simp add: case_prod_beta tl_front_def)
  next
    case (3 ts e m)
    obtain s2 where s2: "check_suspend Q (Suc n) s = check_suspend Q n s2" "sinv s2 R" "nms s2 = nms s" "advances s s2"
      "sc_suspend s2 = m" "sc_syscall s2 = sc_syscall s" "sc_syscall_suspend s2 = sc_syscall_suspend s"
      using check_suspend_due [OF Suc.prems(1) 3] by blast
    have "length (sc_suspend s2) \<le> n" using Suc.prems(2) 3 s2(5) by simp
    then obtain s3 where s3: "check_suspend Q n s2 = (Ok (), s3)" "sinv s3 R" "nms s3 = nms s2" "advances s2 s3"
      "sc_syscall s3 = sc_syscall s2" "sc_syscall_suspend s3 = sc_syscall_suspend s2"
      "\<forall>p \<in> set (tl_pairs (sc_suspend s3)). fst (now s2) < fst p"
      and woken: "\<exists>woken. tl_pairs m = woken @ tl_pairs (sc_suspend s3) \<and> (\<forall>p \<in> set woken. fst p \<le> fst (now s3))"
      using Suc.IH [OF s2(2)] s2(5) by auto
    have a3: "advances s s3" by (rule advances_trans [OF s2(4) s3(4)])
    have le: "fst (now s) \<le> fst (now s2)" "fst (now s) \<le> fst (now s3)"
      using now_mono [OF mono] s2(4) a3 unfolding advances_def by auto
    from woken obtain wk where wk: "tl_pairs m = wk @ tl_pairs (sc_suspend s3)" "\<forall>p \<in> set wk. fst p \<le> fst (now s3)" by blast
    have "tl_pairs (sc_suspend s) = (map (Pair ts) (te_inner e) @ wk) @ tl_pairs (sc_suspend s3)"
      "\<forall>p \<in> set (map (Pair ts) (te_inner e) @ wk). fst p \<le> fst (now s3)"
      using 3 wk le(2) by (auto simp: tl_pairs_def)
    moreover have "\<forall>p \<in> set (tl_pairs (sc_suspend s3)). fst (now s) < fst p"
      using s3(7) le(1) by (meson order.strict_trans1)
    ultimately show ?thesis using s2 s3 a3 by metis
  qed
qed

text \<open>Taking a coroutine out of the system call map.\<close>

lemma remove_syscall_spec:
  assumes "sinv s R" "look (sc_syscall s) n = Some co"
  defines "s' \<equiv> s\<lparr>sc_syscall := snd (dm_remove D n (sc_syscall s))\<rparr>"
  shows "sinv s' (add_mset (co_name co) R)" "nms s = add_mset (co_name co) (nms s')"
    "co_name co = n" "is_syscall (co_state co)" "live okk co"
proof -
  have d: "dok (sc_syscall s)" using assms(1) by (simp add: sched_inv_def)
  show co: "co_name co = n" "is_syscall (co_state co)"
    using assms(1,2) by (simp_all add: sched_inv_def)
  have o: "ownd s = add_mset co (ownd s')"
    using dm.vals_remove [OF d assms(2)] by (simp add: owned_def s'_def)
  then show n: "nms s = add_mset (co_name co) (nms s')" by (simp add: names_def)
  show "live okk co" using assms(1) o by (simp add: sched_inv_def)
  have "resumable c s' = resumable c s" for c :: "('k, 'l) sched_co"
    by (simp add: resumable_def now_def s'_def)
  with assms(1) o n dm.remove_ok [OF d, of n] dm.remove_look [OF d, of n]
  show "sinv s' (add_mset (co_name co) R)"
    unfolding sched_inv_def by (simp add: s'_def split: if_splits)
qed

lemma remove_syscall_absent:
  assumes "sinv s R" "look (sc_syscall s) n = None"
  defines "s' \<equiv> s\<lparr>sc_syscall := snd (dm_remove D n (sc_syscall s))\<rparr>"
  shows "sinv s' R" "nms s' = nms s"
proof -
  have d: "dok (sc_syscall s)" using assms(1) by (simp add: sched_inv_def)
  have l: "look (snd (dm_remove D n (sc_syscall s))) = look (sc_syscall s)"
    using assms(2) dm.remove_look [OF d, of n] by (simp add: fun_upd_idem)
  then have o: "ownd s' = ownd s" by (simp add: owned_def s'_def)
  then show n: "nms s' = nms s" by (simp add: names_def)
  have "resumable c s' = resumable c s" for c :: "('k, 'l) sched_co"
    by (simp add: resumable_def now_def s'_def)
  with assms(1) o n l dm.remove_ok [OF d, of n] show "sinv s' R"
    unfolding sched_inv_def by (simp add: s'_def)
qed

text \<open>A coroutine in a system call may always run, and its call may always change its state.\<close>

lemma wake_one_syscall:
  assumes "is_syscall (co_state co)"
  obtains sc st co' where "co_state co = SystemCall () sc st"
    "(case st of Sys_Suspend _ \<Rightarrow> co_syscall () sc Sys_Timeout co | _ \<Rightarrow> (Ok (), co)) = (Ok (), co')"
    "co_name co' = co_name co" "co_inner co' = co_inner co" "is_syscall (co_state co')"
proof -
  obtain sc st where st: "co_state co = SystemCall () sc st" using assms by (auto simp: is_syscall_def)
  show thesis
  proof (cases "\<exists>ts. st = Sys_Suspend ts")
    case True
    then show thesis
      by (intro that [OF st, of "co\<lparr>co_state := SystemCall () sc Sys_Timeout\<rparr>"])
        (auto simp: co_syscall_def co_state_of_def st)
  next
    case False
    then show thesis
      using assms by (intro that [OF st, of co]) (auto split: syscall_state.splits)
  qed
qed

lemma resumable_syscall: "is_syscall (co_state co) \<Longrightarrow> resumable co w"
  by (simp add: resumable_def)

lemma wake_syscall_step:
  assumes inv: "sinv s R"
  shows "\<exists>s2. wake_syscalls Q D (n # ns) s = wake_syscalls Q D ns s2 \<and> sinv s2 R \<and> nms s2 = nms s \<and> advances s s2 \<and>
    sc_suspend s2 = sc_suspend s \<and> sc_syscall_suspend s2 = sc_syscall_suspend s \<and>
    look (sc_syscall s2) = (look (sc_syscall s))(n := None)"
proof -
  let ?s = "s\<lparr>sc_syscall := snd (dm_remove D n (sc_syscall s))\<rparr>"
  have d: "dok (sc_syscall s)" using inv by (simp add: sched_inv_def)
  have rm: "dm_remove D n (sc_syscall s) = (look (sc_syscall s) n, snd (dm_remove D n (sc_syscall s)))"
    by (rule dm.remove_eq [OF d])
  have l: "look (sc_syscall ?s) = (look (sc_syscall s))(n := None)" using dm.remove_look [OF d] by simp
  show ?thesis
  proof (cases "look (sc_syscall s) n")
    case None
    have "wake_syscalls Q D (n # ns) s = wake_syscalls Q D ns ?s"
      by (subst wake_syscalls.simps, subst rm) (simp add: None)
    with remove_syscall_absent [OF inv None] l show ?thesis by (intro exI [of _ ?s]) (simp add: advances_def)
  next
    case (Some co)
    note r = remove_syscall_spec [OF inv Some]
    obtain sc st co' where co: "co_state co = SystemCall () sc st"
      "(case st of Sys_Suspend _ \<Rightarrow> co_syscall () sc Sys_Timeout co | _ \<Rightarrow> (Ok (), co)) = (Ok (), co')"
      "co_name co' = co_name co" "co_inner co' = co_inner co" "is_syscall (co_state co')"
      by (rule wake_one_syscall [OF r(4)])
    have i: "sinv ?s (add_mset (co_name co') R)" using r(1) co(3) by simp
    have nd: "live okk co'" using r(4,5) co(4,5) by (simp add: live_def)
    note p = push_ready_spec [OF i resumable_syscall [OF co(5)] nd]
    have "wake_syscalls Q D (n # ns) s = wake_syscalls Q D ns (push_ready Q co' ?s)"
      by (subst wake_syscalls.simps, subst rm) (simp add: Some co_state_of_def co(1,2))
    with p(1,3) r(2) co(3) l show ?thesis
      by (intro exI [of _ "push_ready Q co' ?s"]) (simp add: push_ready_def advances_def)
  qed
qed

lemma wake_syscalls_spec:
  assumes "sinv s R"
  shows "\<exists>s'. wake_syscalls Q D ns s = (Ok (), s') \<and> sinv s' R \<and> nms s' = nms s \<and> advances s s' \<and>
    sc_suspend s' = sc_suspend s \<and> sc_syscall_suspend s' = sc_syscall_suspend s \<and>
    look (sc_syscall s') = (look (sc_syscall s)) |` (- set ns)"
  using assms
proof (induction ns arbitrary: s)
  case (Cons n ns)
  obtain s2 where s2: "wake_syscalls Q D (n # ns) s = wake_syscalls Q D ns s2" "sinv s2 R" "nms s2 = nms s" "advances s s2"
    "sc_suspend s2 = sc_suspend s" "sc_syscall_suspend s2 = sc_syscall_suspend s"
    "look (sc_syscall s2) = (look (sc_syscall s))(n := None)"
    using wake_syscall_step [OF Cons.prems] by blast
  obtain s' where s': "wake_syscalls Q D ns s2 = (Ok (), s')" "sinv s' R" "nms s' = nms s" "advances s2 s'"
    "sc_suspend s' = sc_suspend s" "sc_syscall_suspend s' = sc_syscall_suspend s"
    "look (sc_syscall s') = ((look (sc_syscall s))(n := None)) |` (- set ns)"
    using Cons.IH [OF s2(2)] s2(3,5-7) by metis
  have "look (sc_syscall s') = (look (sc_syscall s)) |` (- set (n # ns))"
    unfolding s'(7) by (auto simp: restrict_map_def fun_eq_iff)
  with s' s2(1) advances_trans [OF s2(4) s'(4)] show ?case by metis
qed (simp add: restrict_map_def)

lemma pop_syscall_suspend_inv:
  assumes "sinv s R" "tl_pop_front (sc_syscall_suspend s) = (e, m)"
  shows "sinv (s\<lparr>sc_syscall_suspend := m\<rparr>) R" "nms (s\<lparr>sc_syscall_suspend := m\<rparr>) = nms s"
proof -
  have t: "tl_inv m" using assms tlq.invar_pop [of "sc_syscall_suspend s"] by (simp add: sched_inv_def)
  show "nms (s\<lparr>sc_syscall_suspend := m\<rparr>) = nms s" by (simp add: names_def owned_def)
  with assms(1) t show "sinv (s\<lparr>sc_syscall_suspend := m\<rparr>) R"
    by (simp add: sched_inv_def owned_def resumable_def now_def)
qed

lemma check_syscall_due:
  assumes "sinv s R" "sc_syscall_suspend s = (ts, e) # m" "\<not> fst (now s) < ts"
  shows "\<exists>s2. check_syscall_suspend Q D (Suc n) s = check_syscall_suspend Q D n s2 \<and> sinv s2 R \<and> nms s2 = nms s \<and> advances s s2 \<and>
    sc_suspend s2 = sc_suspend s \<and> sc_syscall_suspend s2 = m \<and>
    look (sc_syscall s2) = (look (sc_syscall s)) |` (- set (te_inner e))"
proof -
  let ?s = "snd (now s)" let ?s1 = "?s\<lparr>sc_syscall_suspend := m\<rparr>"
  have pop: "tl_pop_front (sc_syscall_suspend ?s) = (Some (ts, e), m)" by (simp add: assms(2) tl_pop_front_def)
  have p: "sinv ?s1 R" "nms ?s1 = nms s"
    using pop_syscall_suspend_inv [OF inv_now [OF assms(1)] pop] same_places_own [OF same_places_now, of s] by simp_all
  have a1: "advances s ?s1" by (simp add: advances_def)
  obtain s2 where s2: "wake_syscalls Q D (te_inner e) ?s1 = (Ok (), s2)" "sinv s2 R" "nms s2 = nms ?s1"
    "advances ?s1 s2" "sc_suspend s2 = sc_suspend ?s1" "sc_syscall_suspend s2 = m"
    "look (sc_syscall s2) = (look (sc_syscall s)) |` (- set (te_inner e))"
    using wake_syscalls_spec [OF p(1)] by auto
  have "check_syscall_suspend Q D (Suc n) s = check_syscall_suspend Q D n s2"
    using assms(2,3) s2(1) by (simp add: case_prod_beta tl_front_def tl_pop_front_def)
  with s2 p(2) advances_trans [OF a1 s2(4)] show ?thesis by auto
qed

text \<open>What an entry woke is gone for good, so after the rest of the list everything due is gone.\<close>

lemma woken_stay_gone:
  assumes "f2 = f |` (- set (te_inner e))" "map_le f3 f2" "p \<in> set (tl_pairs ((ts, e) # m))"
    "p \<in> set (tl_pairs m) \<Longrightarrow> f3 (snd p) = None"
  shows "f3 (snd p) = None"
proof (cases "p \<in> set (tl_pairs m)")
  case False
  with assms(3) have "snd p \<in> set (te_inner e)" by (auto simp: tl_pairs_def)
  with assms(1) have "f2 (snd p) = None" by simp
  with assms(2) show ?thesis by (metis domIff map_le_implies_dom_le subsetD)
qed (rule assms(4))

lemma check_syscall_suspend_spec:
  assumes "sinv s R" "length (sc_syscall_suspend s) \<le> n"
  shows "\<exists>s'. check_syscall_suspend Q D n s = (Ok (), s') \<and> sinv s' R \<and> nms s' = nms s \<and> advances s s' \<and>
    sc_suspend s' = sc_suspend s \<and> map_le (look (sc_syscall s')) (look (sc_syscall s)) \<and>
    (\<forall>p \<in> set (tl_pairs (sc_syscall_suspend s)). fst p \<le> fst (now s) \<longrightarrow> look (sc_syscall s') (snd p) = None)"
  using assms
proof (induction n arbitrary: s)
  case 0
  then show ?case by auto
next
  case (Suc n)
  have tinv: "tl_inv (sc_syscall_suspend s)" and mono: "mono (clk s)"
    using Suc.prems(1) by (simp_all add: sched_inv_def)
  consider "sc_syscall_suspend s = []" | ts e m where "sc_syscall_suspend s = (ts, e) # m" "fst (now s) < ts"
    | ts e m where "sc_syscall_suspend s = (ts, e) # m" "\<not> fst (now s) < ts"
    by (cases "sc_syscall_suspend s") force+
  then show ?case
  proof cases
    case 1
    with Suc.IH [OF Suc.prems(1)] show ?thesis by (auto simp: tl_front_def)
  next
    case (2 ts e m)
    have "\<forall>p \<in> set (tl_pairs (sc_syscall_suspend s)). \<not> fst p \<le> fst (now s)"
      using front_not_due [of ts e m] tinv 2 by (auto simp: not_le)
    with 2 inv_now [OF Suc.prems(1)] same_places_own [OF same_places_now, of s] show ?thesis
      by (intro exI [of _ "snd (now s)"]) (auto simp: case_prod_beta tl_front_def)
  next
    case (3 ts e m)
    obtain s2 where s2: "check_syscall_suspend Q D (Suc n) s = check_syscall_suspend Q D n s2" "sinv s2 R" "nms s2 = nms s"
      "advances s s2" "sc_suspend s2 = sc_suspend s" "sc_syscall_suspend s2 = m"
      "look (sc_syscall s2) = (look (sc_syscall s)) |` (- set (te_inner e))"
      using check_syscall_due [OF Suc.prems(1) 3] by blast
    have "length (sc_syscall_suspend s2) \<le> n" using Suc.prems(2) 3 s2(6) by simp
    then obtain s3 where s3: "check_syscall_suspend Q D n s2 = (Ok (), s3)" "sinv s3 R" "nms s3 = nms s2"
      "advances s2 s3" "sc_suspend s3 = sc_suspend s2"
      "\<forall>p \<in> set (tl_pairs m). fst p \<le> fst (now s2) \<longrightarrow> look (sc_syscall s3) (snd p) = None"
      and sub: "map_le (look (sc_syscall s3)) (look (sc_syscall s2))"
      using Suc.IH [OF s2(2)] s2(6) by auto
    have a3: "advances s s3" by (rule advances_trans [OF s2(4) s3(4)])
    have le: "fst (now s) \<le> fst (now s2)" using now_mono [OF mono] s2(4) unfolding advances_def by auto
    have "\<forall>p \<in> set (tl_pairs (sc_syscall_suspend s)). fst p \<le> fst (now s) \<longrightarrow> look (sc_syscall s3) (snd p) = None"
      unfolding 3(1) using woken_stay_gone [OF s2(7) sub] s3(6) le by (meson order_trans)
    moreover have "map_le (look (sc_syscall s3)) (look (sc_syscall s))"
      by (rule map_le_trans [OF sub]) (auto simp: s2(7) map_le_def restrict_map_def)
    ultimately show ?thesis using s2 s3 a3 by auto
  qed
qed

lemma check_ready_spec:
  assumes "sinv s R"
  shows "\<exists>s'. check_ready Q D s = (Ok (), s') \<and> sinv s' R \<and> nms s' = nms s \<and> advances s s' \<and>
    (\<forall>p \<in> set (tl_pairs (sc_suspend s')). fst (now s) < fst p) \<and>
    (\<exists>woken. tl_pairs (sc_suspend s) = woken @ tl_pairs (sc_suspend s') \<and> (\<forall>p \<in> set woken. fst p \<le> fst (now s'))) \<and>
    (\<forall>p \<in> set (tl_pairs (sc_syscall_suspend s)). fst p \<le> fst (now s) \<longrightarrow> look (sc_syscall s') (snd p) = None)"
proof -
  obtain s1 where s1: "check_suspend Q (length (sc_suspend s)) s = (Ok (), s1)" "sinv s1 R" "nms s1 = nms s"
    "advances s s1" "sc_syscall_suspend s1 = sc_syscall_suspend s"
    "\<forall>p \<in> set (tl_pairs (sc_suspend s1)). fst (now s) < fst p"
    and w: "\<exists>woken. tl_pairs (sc_suspend s) = woken @ tl_pairs (sc_suspend s1) \<and>
       (\<forall>p \<in> set woken. fst p \<le> fst (now s1))"
    using check_suspend_spec [OF assms, of "length (sc_suspend s)"] by auto
  obtain s2 where s2: "check_syscall_suspend Q D (length (sc_syscall_suspend s1)) s1 = (Ok (), s2)" "sinv s2 R"
    "nms s2 = nms s1" "advances s1 s2" "sc_suspend s2 = sc_suspend s1"
    "\<forall>p \<in> set (tl_pairs (sc_syscall_suspend s1)). fst p \<le> fst (now s1) \<longrightarrow> look (sc_syscall s2) (snd p) = None"
    using check_syscall_suspend_spec [OF s1(2), of "length (sc_syscall_suspend s1)"] by auto
  have mono: "mono (clk s)" "mono (clk s1)" using assms s1(2) by (simp_all add: sched_inv_def)
  have le: "fst (now s) \<le> fst (now s1)" "fst (now s1) \<le> fst (now s2)"
    using now_mono [OF mono(1), of s1] now_mono [OF mono(2), of s2] s1(4) s2(4) unfolding advances_def by auto
  have "check_ready Q D s = (Ok (), s2)"
    using s1(1) s2(1) by (simp add: check_ready_def tl_entry_len_def)
  moreover have "\<exists>woken. tl_pairs (sc_suspend s) = woken @ tl_pairs (sc_suspend s2) \<and>
      (\<forall>p \<in> set woken. fst p \<le> fst (now s2))"
    using w le(2) unfolding s2(5) by (meson order_trans)
  moreover have "\<forall>p \<in> set (tl_pairs (sc_syscall_suspend s)). fst p \<le> fst (now s) \<longrightarrow> look (sc_syscall s2) (snd p) = None"
    using s2(6) le(1) unfolding s1(5) by (meson order_trans)
  ultimately show ?thesis
    using s2(2,3) s1(3,6) advances_trans [OF s1(4) s2(4)] by (intro exI [of _ s2]) (simp add: s2(5))
qed

end

end
