(* ===== verification/SchedulingLoop.thy ===== *)
theory SchedulingLoop
  imports SchedulerSpec
begin

text \<open>
  The scheduling loop, in the locale \<open>scheduling\<close>: what is asked of coroutines and listeners, and that under these
  terms every turn of the loop files its coroutine and the loop returns.
\<close>

subsection \<open>What belongs to the client of a scheduler\<close>

text \<open>The fields no operation of the scheduler changes; only coroutines and listeners do.\<close>

definition same_client :: "('q, 'd, 'k, 'l, 'li, 'w) sched_scheme \<Rightarrow> ('q, 'd, 'k, 'l, 'li, 'w) sched_scheme \<Rightarrow> bool" where
  "same_client s s' \<longleftrightarrow> COROUTINE_POOL s' = COROUTINE_POOL s \<and> sc_name s' = sc_name s \<and>
     sc_stack_size s' = sc_stack_size s \<and> sc_listeners s' = sc_listeners s \<and> sched.more s' = sched.more s"

lemma same_client_refl [simp]: "same_client s s"
  by (simp add: same_client_def)

lemma same_client_trans: "same_client s s' \<Longrightarrow> same_client s' s'' \<Longrightarrow> same_client s s''"
  by (simp add: same_client_def)

named_theorems client_frame \<open>operations that leave the client's fields alone\<close>

lemma same_client_fields [client_frame, simp]:
  "same_client s (s\<lparr>sc_ready := q\<rparr>)" "same_client s (s\<lparr>sc_suspend := m\<rparr>)" "same_client s (s\<lparr>sc_syscall := d\<rparr>)"
  "same_client s (s\<lparr>sc_syscall_suspend := n\<rparr>)" "same_client s (s\<lparr>SCHEDULER := xs\<rparr>)" "same_client s (s\<lparr>COROUTINE := xs\<rparr>)"
  "same_client s (s\<lparr>SUSPENDER := xs\<rparr>)" "same_client s (s\<lparr>TIMESTAMP := ts\<rparr>)" "same_client s (snd (now s))"
  "same_client s (setup_trap_handler s)" "same_client s (push_ready Q co s)"
  by (simp_all add: same_client_def now_def setup_trap_handler_def push_ready_def)

text \<open>
  What \<open>check_ready\<close> does to a state is a sequence of a few updates; a relation that holds for each of them holds for
  \<open>check_ready\<close>.
\<close>

locale ready_frame =
  fixes Q :: "('q, ('k, 'l) sched_co) queue_ops"
    and rel :: "('q, 'd, 'k, 'l, 'li, 'w) sched_scheme \<Rightarrow> ('q, 'd, 'k, 'l, 'li, 'w) sched_scheme \<Rightarrow> bool"
  assumes rel_refl: "rel s s" and rel_trans: "rel s s' \<Longrightarrow> rel s' s'' \<Longrightarrow> rel s s''"
    and rel_now: "rel s (snd (now s))" and rel_push: "rel s (push_ready Q co s)"
    and rel_fields: "rel s (s\<lparr>sc_suspend := m\<rparr>)" "rel s (s\<lparr>sc_syscall := d\<rparr>)" "rel s (s\<lparr>sc_syscall_suspend := n\<rparr>)"
      "rel s (s\<lparr>SCHEDULER := xs\<rparr>)"
begin

lemma rel_co_ready: "co_ready co s = (r, co', s') \<Longrightarrow> rel s s'"
  using rel_now [of s] by (auto simp: co_ready_def co_state_of_def rel_refl Let_def split: coroutine_state.splits prod.splits if_splits)

lemma rel_clean: "rel s s' \<Longrightarrow> rel s (scheduler_clean_current s')"
  by (auto simp: scheduler_clean_current_def intro: rel_trans rel_fields)

lemma rel_wake_suspended: "rel s (snd (wake_suspended Q cos s))"
proof (induction cos arbitrary: s)
  case (Cons co cos)
  obtain r co' s' where r: "co_ready co s = (r, co', s')" by (metis prod_cases3)
  note s' = rel_co_ready [OF r]
  show ?case
    using r s' rel_clean [OF s'] rel_trans [OF rel_trans [OF s' rel_push] Cons.IH] by (cases r) simp_all
qed (simp add: rel_refl)

lemma rel_check_suspend: "rel s (snd (check_suspend Q n s))"
proof (induction n arbitrary: s)
  case (Suc n)
  show ?case
  proof (cases "sc_suspend s")
    case (Cons te m)
    obtain ts e where te: "te = (ts, e)" by force
    let ?s = "(snd (now s))\<lparr>sc_suspend := m\<rparr>"
    obtain r s' where r: "wake_suspended Q (te_inner e) ?s = (r, s')" by force
    have "rel s ?s" by (rule rel_trans [OF rel_now rel_fields(1)])
    then have s': "rel s s'" using rel_wake_suspended [of ?s "te_inner e"] r by (auto intro: rel_trans)
    with rel_trans [OF s' Suc.IH] rel_now [of s] Cons te r show ?thesis
      by (cases r) (simp_all add: tl_front_def tl_pop_front_def case_prod_beta)
  qed (use Suc.IH in \<open>simp add: tl_front_def\<close>)
qed (simp add: rel_refl)

lemma rel_wake_syscalls: "rel s (snd (wake_syscalls Q D ns s))"
proof (induction ns arbitrary: s)
  case (Cons n ns)
  obtain r d where r: "dm_remove D n (sc_syscall s) = (r, d)" by force
  let ?s = "s\<lparr>sc_syscall := d\<rparr>"
  have "rel s (snd (wake_syscalls Q D ns (push_ready Q co ?s)))" for co
    by (rule rel_trans [OF rel_trans [OF rel_fields(2) rel_push] Cons.IH])
  moreover have "rel s (snd (wake_syscalls Q D ns ?s))" by (rule rel_trans [OF rel_fields(2) Cons.IH])
  ultimately show ?case
    using r rel_fields(2) [of s d] rel_clean [OF rel_fields(2), of s d]
    by (auto simp: co_state_of_def co_syscall_def Let_def
        split: option.splits coroutine_state.splits syscall_state.splits outcome.splits)
qed (simp add: rel_refl)

lemma rel_check_syscall_suspend: "rel s (snd (check_syscall_suspend Q D n s))"
proof (induction n arbitrary: s)
  case (Suc n)
  show ?case
  proof (cases "sc_syscall_suspend s")
    case (Cons te m)
    obtain ts e where te: "te = (ts, e)" by force
    let ?s = "(snd (now s))\<lparr>sc_syscall_suspend := m\<rparr>"
    obtain r s' where r: "wake_syscalls Q D (te_inner e) ?s = (r, s')" by force
    have "rel s ?s" by (rule rel_trans [OF rel_now rel_fields(3)])
    then have s': "rel s s'" using rel_wake_syscalls [of ?s D "te_inner e"] r by (auto intro: rel_trans)
    with rel_trans [OF s' Suc.IH] rel_now [of s] Cons te r show ?thesis
      by (cases r) (simp_all add: tl_front_def tl_pop_front_def case_prod_beta)
  qed (use Suc.IH in \<open>simp add: tl_front_def\<close>)
qed (simp add: rel_refl)

lemma rel_check_ready: "rel s (snd (check_ready Q D s))"
proof -
  obtain r s' where r: "check_suspend Q (tl_entry_len (sc_suspend s)) s = (r, s')" by force
  have s': "rel s s'" using rel_check_suspend [of s "tl_entry_len (sc_suspend s)"] r by simp
  with r rel_trans [OF s' rel_check_syscall_suspend] show ?thesis by (cases r) (simp_all add: check_ready_def)
qed

end

interpretation client: ready_frame Q same_client for Q
  by unfold_locales (auto intro: same_client_trans)

context scheduler
begin

text \<open>\<open>check_ready\<close> only adds to the ready queue.\<close>

lemma ready_kept: "ready_frame Q (\<lambda>s s' :: ('q, 'd, 'k, 'l, 'li, 'w) sched_scheme. q_inv (sc_ready s) \<longrightarrow>
    q_inv (sc_ready s') \<and> q_items (sc_ready s) \<subseteq># q_items (sc_ready s'))"
  by unfold_locales (auto simp: push_ready_def rq.push_inv rq.push_items intro: subset_mset.order_trans)

end

text \<open>When time is over, the loop only reads the clock.\<close>

lemma schedule_loop_over:
  "timeout_time \<le> fst (now s) \<Longrightarrow>
     schedule_loop Q D L f timeout_time s = Some (Ok 0, scheduler_clean_current (snd (now s)))"
  by (subst schedule_loop.simps) (simp add: case_prod_beta Let_def)

lemma submit_eq:
  "submit Q L alloc page_size uuid k l stack_size s =
     (let co = \<lparr>co_name = sc_name s @ ''|'' @ uuid, co_inner = \<lparr>in_started = False, in_done = False, in_cont = k\<rparr>,
            co_state = Ready, co_local = l\<rparr>
      in if alloc (max (case stack_size of Some n \<Rightarrow> n | None \<Rightarrow> sc_stack_size s) page_size)
         then (Ok (), push_ready Q co (dispatch L (On_create co) s)) else (Err Stack_alloc, s))"
  by (simp add: submit_def co_new_def co_ready_def co_state_of_def Let_def)

context scheduler
begin

text \<open>Telling the listeners of an event does what each of them does.\<close>

lemma dispatch_keeps:
  fixes L :: "('k, 'l, 'li, ('q, 'd, 'k, 'l, 'li, 'w) sched_scheme) listener_fn"
  assumes step: "\<forall>l s. sinv s R \<longrightarrow> P s \<longrightarrow>
      sinv (L l e s) R \<and> advances s (L l e s) \<and> nms s \<subseteq># nms (L l e s) \<and> P (L l e s)"
    and "sinv s R" "P s"
  shows "sinv (dispatch L e s) R \<and> advances s (dispatch L e s) \<and> nms s \<subseteq># nms (dispatch L e s) \<and> P (dispatch L e s)"
proof -
  let ?d = "\<lambda>ls. fold (\<lambda>l. L l e) ls"
  have "sinv (?d ls s) R \<and> advances s (?d ls s) \<and> nms s \<subseteq># nms (?d ls s) \<and> P (?d ls s)" for ls
    using assms(2,3)
  proof (induction ls arbitrary: s)
    case (Cons l ls)
    have l: "sinv (L l e s) R" "advances s (L l e s)" "nms s \<subseteq># nms (L l e s)" "P (L l e s)"
      using step Cons.prems by blast+
    with Cons.IH [OF l(1,4)] show ?case by (auto intro: advances_trans subset_mset.trans)
  qed simp
  then show ?thesis by (simp add: dispatch_def)
qed

end

text \<open>What \<open>submit\<close> needs: listeners that, told of a new coroutine, keep the invariant and take no coroutine away.\<close>

locale creating = scheduler Q q_items q_inv D look dok okk
  for Q :: "('q, ('k, 'l) sched_co) queue_ops" and q_items :: "'q \<Rightarrow> ('k, 'l) sched_co multiset" and q_inv :: "'q \<Rightarrow> bool"
    and D :: "('d, string, ('k, 'l) sched_co) dash_ops" and look :: "'d \<Rightarrow> string \<rightharpoonup> ('k, 'l) sched_co"
    and dok :: "'d \<Rightarrow> bool" and okk :: "'k \<Rightarrow> bool \<Rightarrow> bool" +
  fixes L :: "('k, 'l, 'li, ('q, 'd, 'k, 'l, 'li, 'w) sched_scheme) listener_fn"
    and I :: "('q, 'd, 'k, 'l, 'li, 'w) sched_scheme \<Rightarrow> bool"
  assumes on_create: "sched_inv q_items q_inv look dok okk s R \<Longrightarrow> I s \<Longrightarrow>
      sched_inv q_items q_inv look dok okk (L l (On_create co) s) R \<and> advances s (L l (On_create co) s) \<and>
      names q_items look s \<subseteq># names q_items look (L l (On_create co) s) \<and> I (L l (On_create co) s)"
    and I_same: "same_client s s' \<Longrightarrow> I s \<Longrightarrow> I s'"
begin

lemma dispatch_create:
  assumes "sinv s R" "I s"
  shows "sinv (dispatch L (On_create co) s) R \<and> advances s (dispatch L (On_create co) s) \<and>
    nms s \<subseteq># nms (dispatch L (On_create co) s) \<and> I (dispatch L (On_create co) s)"
  by (rule dispatch_keeps [where P = I, OF _ assms]) (use on_create in blast)

lemma submit_spec:
  assumes "sinv s (add_mset (sc_name s @ ''|'' @ uuid) R)" "I s" "okk k False"
    "alloc (max (case stack_size of Some n \<Rightarrow> n | None \<Rightarrow> sc_stack_size s) page_size)"
  shows "\<exists>s'. submit Q L alloc page_size uuid k l stack_size s = (Ok (), s') \<and> sinv s' R \<and> I s' \<and>
    advances s s' \<and> add_mset (sc_name s @ ''|'' @ uuid) (nms s) \<subseteq># nms s' \<and> q_items (sc_ready s') \<noteq> {#}"
proof -
  define co where "co = \<lparr>co_name = sc_name s @ ''|'' @ uuid, co_inner = \<lparr>in_started = False, in_done = False, in_cont = k\<rparr>,
      co_state = Ready :: (unit, unit) coroutine_state, co_local = l\<rparr>"
  let ?s1 = "dispatch L (On_create co) s"
  have n: "co_name co = sc_name s @ ''|'' @ uuid" by (simp add: co_def)
  have d: "sinv ?s1 (add_mset (co_name co) R)" "advances s ?s1" "nms s \<subseteq># nms ?s1" "I ?s1"
    using dispatch_create [OF assms(1,2)] by (simp_all add: n)
  have r: "resumable co ?s1" "live okk co" using assms(3) by (simp_all add: resumable_def live_def co_def)
  note p = push_ready_spec [OF d(1) r]
  have "submit Q L alloc page_size uuid k l stack_size s = (Ok (), push_ready Q co ?s1)"
    using assms(4) by (simp add: submit_eq co_def Let_def)
  moreover have "q_items (sc_ready (push_ready Q co ?s1)) \<noteq> {#}"
    using d(1) rq.push_items [of "sc_ready ?s1" co] by (simp add: push_ready_def sched_inv_def)
  ultimately show ?thesis
    using p(1,3) d(2-4) n advances_trans [OF d(2) p(4)] I_same [OF same_client_fields(11) d(4), of Q co] by simp
qed

end

text \<open>The coroutine an event is about.\<close>

fun event_co :: "('k, 'l) event \<Rightarrow> ('k, 'l) sched_co" where
  "event_co (On_create co) = co"
| "event_co (On_resume t co) = co"
| "event_co (On_suspend t co) = co"
| "event_co (On_syscall t co sc st) = co"
| "event_co (On_complete t co) = co"
| "event_co (On_error t co m) = co"

definition is_create :: "('k, 'l) event \<Rightarrow> bool" where
  "is_create e \<longleftrightarrow> (\<exists>co. e = On_create co)"

text \<open>The events before a coroutine runs; the others come after it has run.\<close>

fun starts :: "('k, 'l) event \<Rightarrow> bool" where
  "starts (On_create co) = True"
| "starts (On_resume t co) = True"
| "starts e = False"

definition is_error :: "('k, 'l) event \<Rightarrow> bool" where
  "is_error e \<longleftrightarrow> (\<exists>t co m. e = On_error t co m)"

text \<open>A call of the loop runs at least one coroutine when there is time and the ready queue has one to give.\<close>

definition runs_one :: "('q, ('k, 'l) sched_co) queue_ops \<Rightarrow> ('d, string, ('k, 'l) sched_co) dash_ops \<Rightarrow> u64
    \<Rightarrow> ('q, 'd, 'k, 'l, 'li, 'w) sched_scheme \<Rightarrow> bool" where
  "runs_one Q D timeout_time s \<longleftrightarrow> fst (now s) < timeout_time \<and>
     (\<exists>s1 co q. check_ready Q D (snd (now s)) = (Ok (), s1) \<and> q_pop_front Q (sc_ready s1) = Some (Some co, q))"

context scheduler
begin

lemma runs_oneI:
  assumes "ready_queue_quiet Q q_items q_inv" "sinv s R" "q_items (sc_ready s) \<noteq> {#}" "fst (now s) < timeout_time"
  shows "runs_one Q D timeout_time s"
proof -
  obtain s1 where s1: "check_ready Q D (snd (now s)) = (Ok (), s1)" "sinv s1 R"
    using check_ready_spec [OF inv_now [OF assms(2)]] by blast
  have "q_items (sc_ready s) \<subseteq># q_items (sc_ready s1)"
    using ready_frame.rel_check_ready [OF ready_kept, of "snd (now s)" D] s1(1) assms(2) by (simp add: sched_inv_def)
  then have "q_items (sc_ready s1) \<noteq> {#}" using assms(3) by auto
  moreover have "q_inv (sc_ready s1)" using s1(2) by (simp add: sched_inv_def)
  ultimately show ?thesis
    using ready_queue_quiet.pop_finds [OF assms(1)] s1(1) assms(4) unfolding runs_one_def by blast
qed

end

text \<open>
  What is asked of listeners and coroutines. Both act on the scheduler only through its operations: they keep the
  invariant and take no coroutine away. A coroutine is in the state \<open>Running\<close> or in a system call when it
  yields, and \<open>Running\<close> when it ends; it panics only if it is \<open>failing\<close>. Beyond this, \<open>I\<close> is an invariant of the
  client's own, which coroutines and the listeners before them may rely on, and \<open>J\<close> what every coroutine that
  has run brings about and the listeners after it keep.
\<close>

locale scheduling = scheduler Q q_items q_inv D look dok okk
  for Q :: "('q, ('k, 'l) sched_co) queue_ops" and q_items :: "'q \<Rightarrow> ('k, 'l) sched_co multiset" and q_inv :: "'q \<Rightarrow> bool"
    and D :: "('d, string, ('k, 'l) sched_co) dash_ops" and look :: "'d \<Rightarrow> string \<rightharpoonup> ('k, 'l) sched_co"
    and dok :: "'d \<Rightarrow> bool" and okk :: "'k \<Rightarrow> bool \<Rightarrow> bool" +
  fixes L :: "('k, 'l, 'li, ('q, 'd, 'k, 'l, 'li, 'w) sched_scheme) listener_fn"
    and f :: "(unit, 'k, unit, unit, 'l, ('q, 'd, 'k, 'l, 'li, 'w) sched_scheme) user_fn"
    and I J :: "('q, 'd, 'k, 'l, 'li, 'w) sched_scheme \<Rightarrow> bool" and failing :: bool
  assumes before: "sched_inv q_items q_inv look dok okk s R \<Longrightarrow> I s \<Longrightarrow> starts e \<Longrightarrow>
      is_create e \<or> R = {#co_name (event_co e)#} \<Longrightarrow>
      sched_inv q_items q_inv look dok okk (L l e s) R \<and> advances s (L l e s) \<and>
      names q_items look s \<subseteq># names q_items look (L l e s) \<and> I (L l e s)"
    and after: "sched_inv q_items q_inv look dok okk s {#co_name (event_co e)#} \<Longrightarrow> J s \<Longrightarrow> \<not> starts e \<Longrightarrow>
      is_error e \<longrightarrow> failing \<Longrightarrow>
      sched_inv q_items q_inv look dok okk (L l e s) {#co_name (event_co e)#} \<and> advances s (L l e s) \<and>
      names q_items look s \<subseteq># names q_items look (L l e s) \<and> J (L l e s)"
    and body: "sched_inv q_items q_inv look dok okk s {#co_name co#} \<Longrightarrow> I s \<Longrightarrow>
      suspender_current s = Some (co_name co) \<Longrightarrow> co_state co = Running \<or> is_syscall (co_state co) \<Longrightarrow>
      okk k (is_syscall (co_state co)) \<Longrightarrow> f () k co s = (seg, k', co', s') \<Longrightarrow>
      sched_inv q_items q_inv look dok okk s' {#co_name co#} \<and> advances s s' \<and>
      names q_items look s \<subseteq># names q_items look s' \<and> co_name co' = co_name co \<and> J s' \<and>
      (case seg of Yields _ \<Rightarrow> (co_state co' = Running \<or> is_syscall (co_state co')) \<and> okk k' (is_syscall (co_state co'))
       | Returns _ \<Rightarrow> co_state co' = Running
       | Panics _ \<Rightarrow> co_state co' = Running \<and> failing)"
    and J_I: "J s \<Longrightarrow> I s"
    and I_frame: "same_client s s' \<Longrightarrow> I s \<Longrightarrow> I s'"
    and J_frame: "same_client s s' \<Longrightarrow> J s \<Longrightarrow> J s'"
begin

text \<open>What a step of the loop may do to the state.\<close>

abbreviation grows :: "('q, 'd, 'k, 'l, 'li, 'w) sched_scheme \<Rightarrow> ('q, 'd, 'k, 'l, 'li, 'w) sched_scheme \<Rightarrow> bool" where
  "grows s s' \<equiv> advances s s' \<and> nms s \<subseteq># nms s'"

lemma grows_trans: "grows s s' \<Longrightarrow> grows s' s'' \<Longrightarrow> grows s s''"
  by (auto intro: advances_trans subset_mset.trans)

lemma dispatch_before:
  assumes "sinv s {#co_name (event_co e)#}" "I s" "starts e"
  shows "sinv (dispatch L e s) {#co_name (event_co e)#} \<and> advances s (dispatch L e s) \<and> nms s \<subseteq># nms (dispatch L e s) \<and>
    I (dispatch L e s)"
  by (rule dispatch_keeps [where P = I, OF _ assms(1,2)]) (use before [OF _ _ assms(3)] in blast)

lemma dispatch_after:
  assumes "sinv s {#co_name (event_co e)#}" "J s" "\<not> starts e" "is_error e \<longrightarrow> failing"
  shows "sinv (dispatch L e s) {#co_name (event_co e)#} \<and> advances s (dispatch L e s) \<and> nms s \<subseteq># nms (dispatch L e s) \<and>
    J (dispatch L e s)"
  by (rule dispatch_keeps [where P = J, OF _ assms(1,2)]) (use after [OF _ _ assms(3,4)] in blast)

lemma inv_weaken:
  assumes "sinv s (add_mset x R)"
  shows "sinv s R"
proof -
  have "count (nms s + R) n \<le> 1" for n
  proof -
    have "count (nms s + R) n \<le> count (nms s + add_mset x R) n" by simp
    also have "\<dots> \<le> 1" using assms unfolding sched_inv_def by blast
    finally show ?thesis .
  qed
  with assms show ?thesis unfolding sched_inv_def by blast
qed

lemma setup_trap_handler_sched:
  "sinv (setup_trap_handler s) R = sinv s R" "nms (setup_trap_handler s) = nms s" "advances s (setup_trap_handler s)"
  by (simp_all add: setup_trap_handler_def sched_inv_def names_def owned_def resumable_def now_def advances_def)

lemma inner_resume_spec:
  assumes inv: "sinv s {#co_name co#}" "I s" and lv: "live okk co"
    and st: "co_state co = Running \<or> is_syscall (co_state co)"
  obtains res co' s' where "inner_resume f () co s = (Ok res, co', s')" "sinv s' {#co_name co#}"
    "grows s s'" "co_name co' = co_name co"
    "case res of CoYield _ \<Rightarrow> (co_state co' = Running \<or> is_syscall (co_state co')) \<and> live okk co'
     | CoReturn r \<Rightarrow> co_state co' = Running \<and> (\<forall>m. r \<noteq> Panic m \<and> (r = Err m \<longrightarrow> failing))"
    "J s'"
proof -
  let ?s = "suspender_init_current (co_name co) s"
  obtain seg k' co1 s1 where f: "f () (in_cont (co_inner co)) co ?s = (seg, k', co1, s1)" by (metis prod_cases4)
  have i: "sinv ?s {#co_name co#}" "I ?s" "suspender_current ?s = Some (co_name co)"
    using inv lv I_frame [OF same_client_fields(7), of s "co_name co # SUSPENDER s"]
    by (simp_all add: suspender_init_current_def live_def suspender_current_def front_def)
  have nd: "\<not> in_done (co_inner co)" using lv by (rule live_not_done)
  have "okk (in_cont (co_inner co)) (is_syscall (co_state co))" using lv by (simp add: live_def)
  note b = body [OF i st this f]
  have g: "grows s (suspender_clean_current s1)"
    using b by (simp add: suspender_clean_current_def suspender_init_current_def advances_def)
  have i1: "sinv (suspender_clean_current s1) {#co_name co#}" "J (suspender_clean_current s1)"
    using b J_frame [OF same_client_fields(7), of s1 "tl (SUSPENDER s1)"] by (simp_all add: suspender_clean_current_def)
  define fin where "fin d = co1\<lparr>co_inner := \<lparr>in_started = True, in_done = d, in_cont = k'\<rparr>\<rparr>" for d
  have fin: "co_name (fin d) = co_name co" "co_state (fin d) = co_state co1" "in_done (co_inner (fin d)) = d"
    "in_cont (co_inner (fin d)) = k'" for d
    using b by (simp_all add: fin_def)
  show thesis
  proof (cases seg)
    case (Yields y)
    with nd f have "inner_resume f () co s = (Ok (CoYield y), fin False, suspender_clean_current s1)"
      by (simp add: inner_resume_def Let_def fin_def)
    then show thesis by (rule that) (use i1 g fin b Yields in \<open>auto simp: live_def\<close>)
  next
    case (Returns r)
    with nd f have "inner_resume f () co s = (Ok (CoReturn (Ok r)), fin True, suspender_clean_current s1)"
      by (simp add: inner_resume_def Let_def fin_def)
    then show thesis by (rule that) (use i1 g fin b Returns in auto)
  next
    case (Panics m)
    with nd f have "inner_resume f () co s = (Ok (CoReturn (Err (case m of Some message \<Rightarrow> message
        | None \<Rightarrow> ''coroutine failed without message''))), fin True, suspender_clean_current s1)"
      by (simp add: inner_resume_def Let_def fin_def)
    then show thesis by (rule that) (use i1 g fin b Panics in auto)
  qed
qed

text \<open>Resuming a coroutine that may run always succeeds.\<close>

lemma after_inner_succeeds:
  fixes co :: "('k, 'l) sched_co"
  assumes "case res of CoYield _ \<Rightarrow> (co_state co = Running \<or> is_syscall (co_state co)) \<and> live okk co
     | CoReturn r \<Rightarrow> co_state co = Running \<and> (\<forall>m. r \<noteq> Panic m \<and> (r = Err m \<longrightarrow> failing))"
  obtains st s' where "after_inner res co s = (Ok st, co\<lparr>co_state := st\<rparr>, s')"
    "s' = s \<or> s' = s\<lparr>TIMESTAMP := tl (TIMESTAMP s)\<rparr>"
    "st \<in> range Complete \<union> range Error \<or> live okk (co\<lparr>co_state := st\<rparr>)" "st \<noteq> Created" "st \<noteq> Ready" "st \<noteq> Running"
    "st \<in> range Error \<longrightarrow> failing"
proof (cases res)
  case (CoYield y)
  consider "co_state co = Running" | sc st where "co_state co = SystemCall () sc st"
    using assms CoYield by (auto simp: is_syscall_def)
  then show thesis
  proof cases
    case 1
    then show thesis
      using assms CoYield
      by (intro that [of "Suspend () (case front (TIMESTAMP s) of None \<Rightarrow> 0 | Some ts \<Rightarrow> ts)"])
        (auto simp: after_inner_def co_ops Let_def suspender_timestamp_def live_def)
  next
    case 2
    then have "co\<lparr>co_state := SystemCall () sc st\<rparr> = co" by simp
    with 2 show thesis
      using assms CoYield by (intro that [of "SystemCall () sc st" s]) (auto simp: after_inner_def co_ops Let_def live_def)
  qed
next
  case (CoReturn r)
  then show thesis
    using assms
    by (cases r) (auto simp: after_inner_def co_ops intro: that [of "Complete ()" s] that [of "Error _" s])
qed

text \<open>What \<open>resume_with\<close> does before the coroutine runs.\<close>

lemma resume_entry:
  fixes co :: "('k, 'l) sched_co"
  assumes inv: "sinv s {#n#}" "I s" and w1: "w1 = setup_trap_handler s \<or> w1 = snd (now (setup_trap_handler s))"
  defines "w \<equiv> coroutine_init_current co w1"
  shows "sinv w {#n#}" "I w" "grows s w"
proof -
  have i0: "sinv (setup_trap_handler s) {#n#}" using inv(1) by (simp add: setup_trap_handler_sched)
  have w: "sinv w1 {#n#}" "grows s w1"
    using w1 i0 inv_now [OF i0] setup_trap_handler_sched [of s]
      advances_trans [OF setup_trap_handler_sched(3) advances_now]
      same_places_own [OF same_places_now, of "setup_trap_handler s"] by auto
  have c: "same_client s w"
    using w1 by (auto simp: w_def coroutine_init_current_def same_client_def now_def setup_trap_handler_def)
  show "sinv w {#n#}" "I w" "grows s w"
    using w I_frame [OF c inv(2)] by (simp_all add: w_def coroutine_init_current_def advances_def)
qed

lemma resume_spec:
  assumes inv: "sinv s {#co_name co#}" "I s" and res: "resumable co s" and lv: "live okk co"
  obtains st co' s' where "resume f co s = (Ok st, co', s')" "sinv s' {#co_name co#}" "grows s s'"
    "co_name co' = co_name co" "co_state co' = st" "st \<noteq> Created" "st \<noteq> Ready" "st \<noteq> Running"
    "st \<in> range Complete \<union> range Error \<or> live okk co'" "J s'" "st \<in> range Error \<longrightarrow> failing"
proof (rule resume_with_cases [of co f "()" s])
  fix s1 w1
  assume s1: "s1 = Running \<or> s1 = co_state co \<and> is_syscall s1"
    and w1: "w1 = setup_trap_handler s \<or> w1 = snd (now (setup_trap_handler s))"
    and run: "resume_with f () co s = (case inner_resume f () (co\<lparr>co_state := s1\<rparr>) (coroutine_init_current co w1) of
            (Ok res, co1, w1) \<Rightarrow>
              (case after_inner res co1 w1 of
                 (Ok s, co2, w2) \<Rightarrow> (Ok s, co2, coroutine_clean_current w2)
               | (Err e, co2, w2) \<Rightarrow> (Err e, co2, w2)
               | (Panic m, co2, w2) \<Rightarrow> (Panic m, co2, w2))
          | (Err e, co1, w1) \<Rightarrow> (Panic [], co1, w1)
          | (Panic m, co1, w1) \<Rightarrow> (Panic m, co1, w1))"
    and sys: "is_syscall s1 = is_syscall (co_state co)"
  let ?co = "co\<lparr>co_state := s1\<rparr>" let ?w = "coroutine_init_current co w1"
  have i: "sinv ?w {#co_name ?co#}" "I ?w" "grows s ?w" using resume_entry [OF inv w1, of co] by simp_all
  have st: "co_state ?co = Running \<or> is_syscall (co_state ?co)" using s1 by auto
  have lv': "live okk ?co" using lv sys by (simp add: live_def)
  obtain r co1 s2 where r: "inner_resume f () ?co ?w = (Ok r, co1, s2)" "sinv s2 {#co_name ?co#}"
    "grows ?w s2" "co_name co1 = co_name ?co"
    "case r of CoYield _ \<Rightarrow> (co_state co1 = Running \<or> is_syscall (co_state co1)) \<and> live okk co1
     | CoReturn r \<Rightarrow> co_state co1 = Running \<and> (\<forall>m. r \<noteq> Panic m \<and> (r = Err m \<longrightarrow> failing))" "J s2"
    by (rule inner_resume_spec [OF i(1,2) lv' st])
  obtain st s3 where a: "after_inner r co1 s2 = (Ok st, co1\<lparr>co_state := st\<rparr>, s3)"
    "s3 = s2 \<or> s3 = s2\<lparr>TIMESTAMP := tl (TIMESTAMP s2)\<rparr>"
    "st \<in> range Complete \<union> range Error \<or> live okk (co1\<lparr>co_state := st\<rparr>)" "st \<noteq> Created" "st \<noteq> Ready" "st \<noteq> Running"
    "st \<in> range Error \<longrightarrow> failing"
    by (rule after_inner_succeeds [OF r(5)])
  have "grows s2 (coroutine_clean_current s3)" "sinv (coroutine_clean_current s3) {#co_name co#}"
    using a(2) r(2) by (auto simp: coroutine_clean_current_def advances_def)
  moreover have "J (coroutine_clean_current s3)"
  proof (rule J_frame [OF _ r(6)])
    show "same_client s2 (coroutine_clean_current s3)"
      using a(2) same_client_trans [OF same_client_fields(8,6)] by (auto simp: coroutine_clean_current_def)
  qed
  moreover have "resume f co s = (Ok st, co1\<lparr>co_state := st\<rparr>, coroutine_clean_current s3)"
    using run r(1) a(1) by (simp add: resume_def)
  moreover have "grows s s2" using grows_trans [OF i(3) r(3)] .
  ultimately show thesis
    using r(4) a(3-7) by (intro that [of st "co1\<lparr>co_state := st\<rparr>" "coroutine_clean_current s3"])
      (auto intro: advances_trans subset_mset.trans)
qed (use res in \<open>auto simp: resumable_def\<close>)

text \<open>One turn of the loop files the coroutine in exactly one place, or it has ended.\<close>

lemma insert_deadline_inv:
  fixes n :: string and ts :: u64
  assumes "sinv s R"
  defines "s' \<equiv> s\<lparr>sc_syscall_suspend := tl_insert ts n (sc_syscall_suspend s)\<rparr>"
  shows "sinv s' R" "nms s' = nms s" "advances s s'"
proof -
  have "tl_inv (tl_insert ts n (sc_syscall_suspend s))"
    using assms(1) tlq.invar_ins [of "sc_syscall_suspend s" ts n] by (simp add: sched_inv_def)
  with assms(1) show "sinv s' R" "nms s' = nms s" "advances s s'"
    by (simp_all add: s'_def sched_inv_def names_def owned_def resumable_def now_def advances_def)
qed

lemma filed:
  assumes "grows s s2" "J s2" "same_client s2 s'" "nms s' = add_mset n (nms s2)" "advances s2 s'"
  shows "grows s s' \<and> J s' \<and> add_mset n (nms s) \<subseteq># nms s'"
proof -
  have "add_mset n (nms s) \<subseteq># nms s'" using assms(1,4) by simp
  moreover have "nms s \<subseteq># add_mset n (nms s)" by simp
  ultimately show ?thesis
    using advances_trans [of s s2 s'] J_frame [OF assms(3,2)] assms(1,5) by (blast intro: subset_mset.order_trans)
qed

text \<open>What the loop does with a coroutine that has been resumed, for each state it may be in.\<close>

lemma file_suspended:
  assumes i: "sinv s2 {#co_name co#}" "J s2" "grows s s2" and co: "co_state co = Suspend () ts" "live okk co"
  defines "s3 \<equiv> snd (now s2)"
  defines "s' \<equiv> if ts \<le> fst (now s2) then push_ready Q co s3 else s3\<lparr>sc_suspend := tl_insert ts co (sc_suspend s3)\<rparr>"
  shows "sinv s' {#} \<and> grows s s' \<and> J s' \<and> add_mset (co_name co) (nms s) \<subseteq># nms s'"
proof -
  have i3: "sinv s3 {#co_name co#}" "J s3" "grows s s3"
    using inv_now [OF i(1)] J_frame [OF same_client_fields(9) i(2)] same_places_own [OF same_places_now, of s2]
      grows_trans [OF i(3), of s3] by (simp_all add: s3_def)
  show ?thesis
  proof (cases "ts \<le> fst (now s2)")
    case True
    have "fst (now s2) \<le> fst (now s3)"
      using i(1) unfolding s3_def by (intro now_mono) (simp_all add: sched_inv_def)
    with True have re: "resumable co s3" using co(1) by (auto simp: resumable_def)
    note p = push_ready_spec [OF i3(1) re co(2)]
    show ?thesis using p(1) filed [OF i3(3,2) same_client_fields(11) p(3,4)] True by (simp add: s'_def)
  next
    case False
    note p = insert_suspend_spec [OF i3(1) co]
    show ?thesis using p(1) filed [OF i3(3,2) same_client_fields(2) p(2,3)] False by (simp add: s'_def)
  qed
qed

lemma file_syscall:
  assumes i: "sinv s2 {#co_name co#}" "J s2" "grows s s2" and co: "co_state co = SystemCall () sc st" "live okk co"
  defines "s3 \<equiv> (case st of
      Sys_Suspend ts \<Rightarrow> s2\<lparr>sc_syscall_suspend := tl_insert ts (co_name co) (sc_syscall_suspend s2)\<rparr> | _ \<Rightarrow> s2)"
  defines "s' \<equiv> s3\<lparr>sc_syscall := snd (dm_insert D (co_name co) co (sc_syscall s3))\<rparr>"
  shows "sinv s' {#} \<and> grows s s' \<and> J s' \<and> add_mset (co_name co) (nms s) \<subseteq># nms s'"
proof -
  have "sinv s3 {#co_name co#} \<and> same_client s2 s3 \<and> grows s2 s3"
    unfolding s3_def by (cases st) (simp_all add: i(1) insert_deadline_inv [OF i(1)])
  then have i3: "sinv s3 {#co_name co#}" "J s3" "grows s s3"
    using J_frame [OF _ i(2)] grows_trans [OF i(3), of s3] by blast+
  have sys: "is_syscall (co_state co)" using co(1) by simp
  note p = insert_syscall_spec [OF i3(1) sys co(2)]
  show ?thesis using p(1) filed [OF i3(3,2) same_client_fields(3) p(2,3)] by (simp add: s'_def)
qed

lemma run_one_spec:
  assumes inv: "sinv s {#co_name co#}" "I s" and res: "resumable co s" and lv: "live okk co"
  shows "\<exists>s'. run_one Q D L f timeout_time co s = (Ok (), s') \<and> sinv s' {#} \<and> grows s s' \<and> J s' \<and>
    (add_mset (co_name co) (nms s) \<subseteq># nms s' \<or>
     (\<exists>s0 co' s1. resume f co s0 = (Ok (co_state co'), co', s1) \<and> co_state co' \<in> range Complete \<union> range Error))"
proof -
  let ?s = "dispatch L (On_resume timeout_time co) s"
  have d: "sinv ?s {#co_name co#}" "grows s ?s" "I ?s"
    using dispatch_before [of s "On_resume timeout_time co"] inv by simp_all
  have mono: "mono (clk s)" using inv(1) by (simp add: sched_inv_def)
  have res': "resumable co ?s" using resumable_mono [OF res mono, of ?s] d(2) by (simp add: advances_def)
  obtain st co' s1 where r: "resume f co ?s = (Ok st, co', s1)" "sinv s1 {#co_name co#}" "grows ?s s1"
    "co_name co' = co_name co" "co_state co' = st" "st \<noteq> Created" "st \<noteq> Ready" "st \<noteq> Running"
    "st \<in> range Complete \<union> range Error \<or> live okk co'" "J s1" "st \<in> range Error \<longrightarrow> failing"
    by (rule resume_spec [OF d(1,3) res' lv])
  have disp: "sinv (dispatch L e s1) {#co_name co'#}" "J (dispatch L e s1)" "grows s (dispatch L e s1)"
    if "event_co e = co'" "\<not> starts e" "is_error e \<longrightarrow> failing" for e
    using dispatch_after [OF _ r(10) that(2,3)] grows_trans [OF grows_trans [OF d(2) r(3)]] r(2,4) that(1) by simp_all
  show ?thesis
  proof (cases st)
    case (Suspend y ts)
    have co: "co_state co' = Suspend () ts" "live okk co'" using r(5,9) Suspend by auto
    let ?s2 = "dispatch L (On_suspend timeout_time co') s1" let ?s3 = "snd (now ?s2)"
    have "run_one Q D L f timeout_time co s = (Ok (), if ts \<le> fst (now ?s2) then push_ready Q co' ?s3
        else ?s3\<lparr>sc_suspend := tl_insert ts co' (sc_suspend ?s3)\<rparr>)"
      using r(1) Suspend by (simp add: run_one_def case_prod_beta Let_def)
    with file_suspended [OF disp [of "On_suspend timeout_time co'"] co] show ?thesis unfolding r(4) by (simp add: is_error_def)
  next
    case (SystemCall y sc sst)
    have co: "co_state co' = SystemCall () sc sst" "live okk co'" using r(5,9) SystemCall by auto
    let ?s2 = "dispatch L (On_syscall timeout_time co' sc sst) s1"
    let ?s3 = "case sst of
        Sys_Suspend ts \<Rightarrow> ?s2\<lparr>sc_syscall_suspend := tl_insert ts (co_name co') (sc_syscall_suspend ?s2)\<rparr> | _ \<Rightarrow> ?s2"
    have "run_one Q D L f timeout_time co s =
        (Ok (), ?s3\<lparr>sc_syscall := snd (dm_insert D (co_name co') co' (sc_syscall ?s3))\<rparr>)"
      using r(1) SystemCall by (simp add: run_one_def Let_def)
    with file_syscall [OF disp [of "On_syscall timeout_time co' sc sst"] co] show ?thesis unfolding r(4) by (simp add: is_error_def)
  next
    case (Complete v)
    from r(1) Complete have "run_one Q D L f timeout_time co s = (Ok (), dispatch L (On_complete timeout_time co') s1)"
      by (simp add: run_one_def Let_def)
    moreover note disp [of "On_complete timeout_time co'"]
    ultimately show ?thesis using r(1,5) Complete inv_weaken by (fastforce simp: is_error_def)
  next
    case (Error m)
    from r(1) Error have "run_one Q D L f timeout_time co s = (Ok (), dispatch L (On_error timeout_time co' m) s1)"
      by (simp add: run_one_def Let_def)
    moreover note disp [of "On_error timeout_time co' m"]
    ultimately show ?thesis using r(1,5,11) Error inv_weaken by (fastforce simp: is_error_def)
  qed (use r in auto)
qed

lemma pop_ready_spec:
  assumes "sinv s R" "q_pop_front Q (sc_ready s) = Some (Some co, q)"
  shows "sinv (s\<lparr>sc_ready := q\<rparr>) (add_mset (co_name co) R)" "resumable co (s\<lparr>sc_ready := q\<rparr>)" "live okk co"
    "nms s = add_mset (co_name co) (nms (s\<lparr>sc_ready := q\<rparr>))"
proof -
  have qi: "q_inv (sc_ready s)" using assms(1) by (simp add: sched_inv_def)
  note p = rq.pop_Some [OF qi assms(2)]
  have o: "ownd s = add_mset co (ownd (s\<lparr>sc_ready := q\<rparr>))" by (simp add: owned_def p(2))
  then show n: "nms s = add_mset (co_name co) (nms (s\<lparr>sc_ready := q\<rparr>))" by (simp add: names_def)
  have r: "resumable c (s\<lparr>sc_ready := q\<rparr>) = resumable c s" for c :: "('k, 'l) sched_co"
    by (simp add: resumable_def now_def)
  show "resumable co (s\<lparr>sc_ready := q\<rparr>)" "live okk co"
    using assms(1) o p(2) r by (simp_all add: sched_inv_def)
  show "sinv (s\<lparr>sc_ready := q\<rparr>) (add_mset (co_name co) R)"
    using assms(1) o n p r unfolding sched_inv_def by simp
qed

lemma pop_ready_None:
  assumes "sinv s R" "q_pop_front Q (sc_ready s) = Some (None, q)"
  shows "sinv (s\<lparr>sc_ready := q\<rparr>) R" "nms (s\<lparr>sc_ready := q\<rparr>) = nms s"
proof -
  have qi: "q_inv (sc_ready s)" using assms(1) by (simp add: sched_inv_def)
  note p = rq.pop_None [OF qi assms(2)]
  show n: "nms (s\<lparr>sc_ready := q\<rparr>) = nms s" by (simp add: names_def owned_def p)
  with assms(1) p show "sinv (s\<lparr>sc_ready := q\<rparr>) R"
    unfolding sched_inv_def by (simp add: owned_def resumable_def now_def)
qed

text \<open>The loop returns once the clock has passed the timeout, at the latest.\<close>

lemma time_left_reads:
  fixes s :: "('q, 'd, 'k, 'l, 'li, 'w) sched_scheme"
  assumes "mono (clk s)" "unat timeout_time \<le> clk s K" "fst (now s) < timeout_time"
  shows "reads s < K"
proof (rule ccontr)
  assume "\<not> reads s < K"
  then have "unat timeout_time \<le> clk s (reads s)"
    using assms(2) monoD [OF assms(1), of K "reads s"] by simp
  moreover have "unat timeout_time < 2 ^ 64" using unsigned_less [of timeout_time, where ?'a = nat] by simp
  ultimately show False using assms(3) by (simp add: word_less_nat_alt unat_now)
qed

text \<open>The first turn of the loop: time is over, or nothing is ready, or a coroutine runs.\<close>

lemma schedule_loop_cases:
  assumes inv: "sinv s {#}" "I s"
  obtains (over) "timeout_time \<le> fst (now s)"
      "schedule_loop Q D L f timeout_time s = Some (Ok 0, scheduler_clean_current (snd (now s)))"
  | (idle) s1 q where "fst (now s) < timeout_time" "check_ready Q D (snd (now s)) = (Ok (), s1)"
      "q_pop_front Q (sc_ready s1) = Some (None, q)" "advances s s1" "sinv (s1\<lparr>sc_ready := q\<rparr>) {#}"
      "same_client s (s1\<lparr>sc_ready := q\<rparr>)"
      "schedule_loop Q D L f timeout_time s =
         Some (Ok (saturating_sub timeout_time (fst (now s))), scheduler_clean_current (s1\<lparr>sc_ready := q\<rparr>))"
  | (ran) s2 where "fst (now s) < timeout_time" "advances (snd (now s)) s2" "sinv s2 {#}" "J s2"
      "schedule_loop Q D L f timeout_time s = schedule_loop Q D L f timeout_time s2"
proof (cases "saturating_sub timeout_time (fst (now s)) = 0")
  case True
  then show thesis by (intro over) (simp_all add: schedule_loop_over)
next
  case False
  then have lt: "fst (now s) < timeout_time" by (simp add: not_le)
  let ?s = "snd (now s)"
  obtain s1 where s1: "check_ready Q D ?s = (Ok (), s1)" "sinv s1 {#}" "advances ?s s1"
    using check_ready_spec [OF inv_now [OF inv(1)]] by auto
  have c1: "same_client s s1"
    using same_client_trans [OF same_client_fields(9) client.rel_check_ready [of ?s Q D]] s1(1) by simp
  have qi: "q_inv (sc_ready s1)" using s1(2) by (simp add: sched_inv_def)
  obtain v q where pop: "q_pop_front Q (sc_ready s1) = Some (v, q)" using rq.pop_spec [OF qi] by blast
  let ?s1 = "s1\<lparr>sc_ready := q\<rparr>"
  have c: "same_client s ?s1" by (rule same_client_trans [OF c1 same_client_fields(1)])
  show thesis
  proof (cases v)
    case None
    have "schedule_loop Q D L f timeout_time s =
        Some (Ok (saturating_sub timeout_time (fst (now s))), scheduler_clean_current ?s1)"
      by (subst schedule_loop.simps) (use False s1(1) pop None in \<open>simp add: case_prod_beta Let_def\<close>)
    with idle lt s1(1) pop None advances_trans [OF advances_now s1(3)] pop_ready_None(1) [OF s1(2)] c show thesis by blast
  next
    case (Some co)
    note p = pop_ready_spec [OF s1(2) pop [unfolded Some]]
    obtain s2 where s2: "run_one Q D L f timeout_time co ?s1 = (Ok (), s2)" "sinv s2 {#}" "advances ?s1 s2" "J s2"
      using run_one_spec [OF p(1) I_frame [OF c inv(2)] p(2,3)] by blast
    have "schedule_loop Q D L f timeout_time s = schedule_loop Q D L f timeout_time s2"
      by (subst schedule_loop.simps) (use False s1(1) pop Some s2(1) in \<open>simp add: case_prod_beta Let_def\<close>)
    moreover have "advances ?s s2" using s1(3) s2(3) by (simp add: advances_def)
    ultimately show thesis using ran lt s2(2,4) by blast
  qed
qed

lemma clean_current_frame [simp]:
  "sinv (scheduler_clean_current s) R = sinv s R" "same_client s (scheduler_clean_current s)"
  "SCHEDULER (scheduler_clean_current s) = tl (SCHEDULER s)" "sc_ready (scheduler_clean_current s) = sc_ready s"
  by (simp_all add: scheduler_clean_current_def)

lemma schedule_loop_spec:
  assumes "sinv s {#}" "I s" "unat timeout_time \<le> clk s K"
  shows "\<exists>left s'. schedule_loop Q D L f timeout_time s = Some (Ok left, s') \<and> sinv s' {#} \<and> I s' \<and>
    SCHEDULER s' = tl (SCHEDULER s) \<and> unat left \<le> unat timeout_time - unat (fst (now s)) \<and>
    (left \<noteq> 0 \<longrightarrow> (\<exists>q. q_pop_front Q q = Some (None, sc_ready s'))) \<and>
    (J s \<or> runs_one Q D timeout_time s \<longrightarrow> J s')"
  using assms
proof (induction "K - reads s" arbitrary: s rule: less_induct)
  case less
  have mono: "mono (clk s)" using less.prems(1) by (simp add: sched_inv_def)
  have left: "unat (saturating_sub timeout_time (fst (now s))) = unat timeout_time - unat (fst (now s))"
    by (rule unat_saturating_sub)
  show ?case
  proof (cases rule: schedule_loop_cases [OF less.prems(1,2), of timeout_time, case_names over idle ran])
    case over
    let ?s = "scheduler_clean_current (snd (now s))"
    have "same_client s ?s" by (rule same_client_trans [OF same_client_fields(9)]) simp
    from over I_frame [OF this less.prems(2)] J_frame [OF this] inv_now [OF less.prems(1)] show ?thesis
      by (auto simp: runs_one_def)
  next
    case (idle s1 q)
    let ?s = "scheduler_clean_current (s1\<lparr>sc_ready := q\<rparr>)"
    have "same_client s ?s" by (rule same_client_trans [OF idle(6)]) simp
    from idle left I_frame [OF this less.prems(2)] J_frame [OF this] show ?thesis
      by (auto simp: runs_one_def advances_def)
  next
    case (ran s2)
    have c: "clk s2 = clk s" "SCHEDULER s2 = SCHEDULER s" "reads s < reads s2"
      using ran(2) by (simp_all add: advances_def now_def)
    then have "K - reads s2 < K - reads s"
      using time_left_reads [OF mono less.prems(3) ran(1)] by simp
    then obtain left s' where s': "schedule_loop Q D L f timeout_time s2 = Some (Ok left, s')" "sinv s' {#}" "I s'"
      "SCHEDULER s' = tl (SCHEDULER s)" "unat left \<le> unat timeout_time - unat (fst (now s2))"
      "left \<noteq> 0 \<longrightarrow> (\<exists>q. q_pop_front Q q = Some (None, sc_ready s'))" "J s'"
      using less.hyps [OF _ ran(3) J_I [OF ran(4)]] less.prems(3) ran(4) unfolding c by blast
    have "unat (fst (now s)) \<le> unat (fst (now s2))"
      using now_mono [OF mono c(1)] c(3) by (simp add: word_le_nat_alt)
    with s' ran(5) show ?thesis by auto
  qed
qed

lemma try_timeout_schedule_spec:
  assumes "sinv s {#}" "I s" "unat timeout_time \<le> clk s K"
  shows "\<exists>left s'. try_timeout_schedule Q D L f timeout_time s = Some (Ok left, s') \<and> sinv s' {#} \<and>
    SCHEDULER s' = SCHEDULER s \<and> I s' \<and> unat left \<le> unat timeout_time - unat (fst (now s)) \<and>
    (left \<noteq> 0 \<longrightarrow> (\<exists>q. q_pop_front Q q = Some (None, sc_ready s'))) \<and>
    (J s \<or> runs_one Q D timeout_time (scheduler_init_current s) \<longrightarrow> J s')"
proof -
  let ?s = "scheduler_init_current s"
  have c: "same_client s ?s" by (simp add: scheduler_init_current_def)
  have i: "sinv ?s {#}" "clk ?s = clk s" "fst (now ?s) = fst (now s)" "tl (SCHEDULER ?s) = SCHEDULER s"
    using assms(1) by (simp_all add: scheduler_init_current_def now_def)
  from schedule_loop_spec [OF i(1) I_frame [OF c assms(2)], of timeout_time K] assms(3) J_frame [OF c] i
  show ?thesis unfolding try_timeout_schedule_def by metis
qed

lemma creates: "creating Q q_items q_inv D look dok okk L I"
proof unfold_locales
  fix s :: "('q, 'd, 'k, 'l, 'li, 'w) sched_scheme" and R l co
  assume i: "sinv s R" "I s"
  have "is_create (On_create co :: ('k, 'l) event)" by (simp add: is_create_def)
  with before [OF i, of "On_create co" l]
  show "sinv (L l (On_create co) s) R \<and> advances s (L l (On_create co) s) \<and>
      nms s \<subseteq># nms (L l (On_create co) s) \<and> I (L l (On_create co) s)" by simp
qed (rule I_frame)

end

sublocale scheduling \<subseteq> creating Q q_items q_inv D look dok okk L I
  by (rule creates)

end
