(* ===== verification/SchedulerClaims.thy ===== *)
theory SchedulerClaims
  imports SchedulingLoop
begin

text \<open>
  The claims about the scheduler, and the instance that shows what they ask for can be had: the
  work stealing queue over the list-based containers, the association list map, and coroutines
  that yield a number of times before they return.
\<close>

subsection \<open>An instance\<close>

type_synonym ref_co = "(nat, unit) sched_co"

type_synonym ref_sched = "(ref_co ref_queue, (string \<times> ref_co) list, nat, unit, unit) sched"

text \<open>A coroutine leaves its system call, if it is in one; it yields as often as its continuation says, then returns.\<close>

definition leave_syscall :: "('k, 'l) sched_co \<Rightarrow> ('k, 'l) sched_co" where
  "leave_syscall co =
     (case co_state co of
        SystemCall y sc st \<Rightarrow> snd (co_syscall_resume (snd (co_syscall y sc Sys_Finished co)))
      | _ \<Rightarrow> co)"

definition yield_times :: "(unit, nat, unit, unit, unit, ref_sched) user_fn" where
  "yield_times arg k co s =
     (case k of 0 \<Rightarrow> (Returns (), 0, leave_syscall co, s) | Suc n \<Rightarrow> (Yields (), n, leave_syscall co, s))"

lemma leave_syscall_spec:
  "co_name (leave_syscall co) = co_name co"
  "co_state co = Running \<or> is_syscall (co_state co) \<Longrightarrow> co_state (leave_syscall co) = Running"
  by (cases "co_state co"; simp add: leave_syscall_def co_ops Let_def)+

abbreviation (input) any :: "'a \<Rightarrow> bool" where
  "any \<equiv> \<lambda>_. True"

abbreviation (input) any_place :: "'a \<Rightarrow> bool \<Rightarrow> bool" where
  "any_place \<equiv> \<lambda>_ _. True"

definition silent :: "(nat, unit, unit, ref_sched) listener_fn" where
  "silent l e s = s"

interpretation ref_sched: scheduling ref_ops ref_items ref_ok alist_map map_of alist_ok any_place silent yield_times any any True
  by (intro scheduling.intro scheduling_axioms.intro scheduler.intro ref_queue.ready_queue_axioms alist.dash_map_axioms)
    (auto simp: silent_def yield_times_def leave_syscall_spec split: nat.splits)

definition ref_co :: "string \<Rightarrow> (unit, unit) coroutine_state \<Rightarrow> nat \<Rightarrow> ref_co" where
  "ref_co n st k = \<lparr>co_name = n, co_inner = \<lparr>in_started = True, in_done = False, in_cont = k\<rparr>,
     co_state = st, co_local = ()\<rparr>"

text \<open>One coroutine ready, one suspended until 50, one in a system call with an old and a new deadline.\<close>

definition ref_state :: ref_sched where
  "ref_state = \<lparr>clk = (\<lambda>i. 10 * i), reads = 1, TIMESTAMP = [], COROUTINE = [], SUSPENDER = [], SYSCALL = [],
     SCHEDULER = [], COROUTINE_POOL = [], TRAP_HANDLER_INITED = True, signal_handlers = [],
     sc_name = ''s'', sc_stack_size = 0,
     sc_ready = (lq_new 0 \<lparr>one = 1, two = 2\<rparr>,
       \<lparr>shared_queue = ([], 1), wsq_len = 0, local_queues = [(2, [ref_co ''a'' Ready 2])], wsq_index = 1,
        seed_generator = \<lparr>gen_state = \<lparr>one = 1, two = 2\<rparr>\<rparr>\<rparr>),
     sc_suspend = [(50, \<lparr>te_timestamp = 50, te_inner = [ref_co ''b'' (Suspend () 50) 1]\<rparr>)],
     sc_syscall = [(''c'', ref_co ''c'' (SystemCall () Sys_sleep (Sys_Suspend 90)) 0)],
     sc_syscall_suspend = [(5, \<lparr>te_timestamp = 5, te_inner = [''c'']\<rparr>), (90, \<lparr>te_timestamp = 90, te_inner = [''c'']\<rparr>)],
     sc_listeners = [()]\<rparr>"

lemma ref_state_names: "names ref_items map_of ref_state = {#''a'', ''b'', ''c''#}"
  by (simp add: names_def owned_def ref_state_def ref_items_def ws_items_def map_vals_def ref_co_def)

lemma ref_state_inv: "sched_inv ref_items ref_ok map_of alist_ok any_place ref_state {#}"
proof -
  have "ref_ok (sc_ready ref_state)" "tl_inv (sc_suspend ref_state)" "tl_inv (sc_syscall_suspend ref_state)"
    "alist_ok (sc_syscall ref_state)" "mono (clk ref_state)"
    by (simp_all add: ref_state_def ref_ok_def ws_inv_def handle_ok_def lq_new_def list_worker_ok_def tl_inv_def
        alist_ok_def mono_def)
  moreover have "\<forall>co. co \<in># ref_items (sc_ready ref_state) \<longrightarrow> resumable co ref_state"
    by (simp add: ref_state_def ref_items_def ws_items_def resumable_def ref_co_def)
  moreover have "\<forall>p \<in> set (tl_pairs (sc_suspend ref_state)). co_state (snd p) = Suspend () (fst p)"
    by (simp add: ref_state_def ref_co_def)
  moreover have "\<forall>n co. map_of (sc_syscall ref_state) n = Some co \<longrightarrow> co_name co = n \<and> is_syscall (co_state co)"
    by (simp add: ref_state_def ref_co_def)
  moreover have "\<forall>co. co \<in># owned ref_items map_of ref_state \<longrightarrow> live any_place co"
    by (simp add: owned_def ref_state_def ref_items_def ws_items_def map_vals_def ref_co_def live_def)
  moreover have "\<forall>n. count (names ref_items map_of ref_state + {#}) n \<le> 1"
    by (auto simp: ref_state_names)
  ultimately show ?thesis unfolding sched_inv_def by blast
qed

subsection \<open>Claims\<close>



text \<open>
  C3: The scheduling loop returns, with \<^verbatim>\<open>Ok\<close>, once the clock has reached the timeout, provided that coroutines
  and listeners act on the scheduler only through its operations and coroutines follow the state machine.
  The stack of current schedulers is as before the call, the invariant holds, the time left is at most what was
  left at the start, and time is left only if the ready queue had nothing more to give.
\<close>

theorem schedule_returns:
  assumes "scheduling Q q_items q_inv D look dok okk L f I J failing" and "sched_inv q_items q_inv look dok okk s {#}" and "I s"
    and "unat timeout_time \<le> clk s K"
  shows "\<exists>left s'. try_timeout_schedule Q D L f timeout_time s = Some (Ok left, s') \<and>
    sched_inv q_items q_inv look dok okk s' {#} \<and> SCHEDULER s' = SCHEDULER s \<and> I s' \<and>
    unat left \<le> unat timeout_time - unat (fst (now s)) \<and>
    (left \<noteq> 0 \<longrightarrow> (\<exists>q. q_pop_front Q q = Some (None, sc_ready s'))) \<and>
    (J s \<or> runs_one Q D timeout_time (scheduler_init_current s) \<longrightarrow> J s')"
  using scheduling.try_timeout_schedule_spec [OF assms] .

theorem schedule_returns_witness:
  "\<exists>left s'. try_timeout_schedule ref_ops alist_map silent yield_times 1000 ref_state = Some (Ok left, s') \<and>
     SCHEDULER s' = [] \<and> unat left \<le> 990"
proof -
  have "unat (1000 :: u64) \<le> clk ref_state 100" by (simp add: ref_state_def)
  from schedule_returns [OF ref_sched.scheduling_axioms ref_state_inv TrueI this]
  show ?thesis by (simp add: ref_state_def now_def u64_try_from_def) blast
qed


lemma ref_state_running:
  "sched_inv ref_items ref_ok map_of alist_ok any_place ref_state (add_mset ''d'' {#})"
proof -
  have "\<forall>n. count (names ref_items map_of ref_state + add_mset ''d'' {#}) n \<le> 1" by (auto simp: ref_state_names)
  then show ?thesis using ref_state_inv unfolding sched_inv_def by blast
qed


text \<open>
  Submitting a function, when its stack can be allocated, adds exactly one coroutine to what the scheduler owns (and
  whatever its listeners add); its name is the scheduler's followed by the fresh suffix, and it may run at once. When the
  stack cannot be allocated, nothing changes.
\<close>

theorem submit_adds:
  assumes "scheduling Q q_items q_inv D look dok okk L f I J failing"
    and "sched_inv q_items q_inv look dok okk s (add_mset (sc_name s @ ''|'' @ uuid) R)" and "I s" and "okk k False"
    and "alloc (max (case stack_size of Some n \<Rightarrow> n | None \<Rightarrow> sc_stack_size s) page_size)"
  shows "\<exists>s'. submit Q L alloc page_size uuid k l stack_size s = (Ok (), s') \<and>
    sched_inv q_items q_inv look dok okk s' R \<and> I s' \<and>
    add_mset (sc_name s @ ''|'' @ uuid) (names q_items look s) \<subseteq># names q_items look s'"
  using creating.submit_spec [OF scheduling.creates [OF assms(1)] assms(2-4), where alloc = alloc, OF assms(5)] by blast

theorem submit_adds_witness:
  "\<exists>s'. submit ref_ops silent (\<lambda>n. n \<le> 8192) 4096 ''7'' 3 () None ref_state = (Ok (), s') \<and>
     add_mset ''s|7'' {#''a'', ''b'', ''c''#} \<subseteq># names ref_items map_of s'"
proof -
  have n: "sc_name ref_state @ ''|'' @ ''7'' = ''s|7''" by (simp add: ref_state_def)
  have "\<forall>n. count (names ref_items map_of ref_state + add_mset ''s|7'' {#}) n \<le> 1" by (auto simp: ref_state_names)
  then have "sched_inv ref_items ref_ok map_of alist_ok any_place ref_state (add_mset (sc_name ref_state @ ''|'' @ ''7'') {#})"
    using ref_state_inv unfolding sched_inv_def n by blast
  moreover have "max (case None of Some n \<Rightarrow> n | None \<Rightarrow> sc_stack_size ref_state) 4096 \<le> 8192" by (simp add: ref_state_def)
  ultimately show ?thesis
    using submit_adds [OF ref_sched.scheduling_axioms, of ref_state "''7''" "{#}" "\<lambda>n. n \<le> 8192" None 4096 3 "()"]
    unfolding n ref_state_names by blast
qed

lemma try_resume_moves:
  assumes "scheduler Q q_items q_inv D look dok" and "sched_inv q_items q_inv look dok okk s R"
    and "look (sc_syscall s) n = Some co" and "co_state co = SystemCall () sc st"
  shows "\<exists>s'. try_resume Q D n s = (Ok (), s') \<and> sched_inv q_items q_inv look dok okk s' R \<and>
    names q_items look s' = names q_items look s \<and> look (sc_syscall s') n = None \<and>
    co\<lparr>co_state := SystemCall () sc Sys_Computing\<rparr> \<in># q_items (sc_ready s') \<and>
    sc_syscall_suspend s' = sc_syscall_suspend s"
proof -
  let ?s = "s\<lparr>sc_syscall := snd (dm_remove D n (sc_syscall s))\<rparr>"
  let ?co = "co\<lparr>co_state := SystemCall () sc Sys_Computing\<rparr>"
  have dm: "dash_map D look dok" and rq: "ready_queue Q q_items q_inv"
    using assms(1) by (auto elim: scheduler.axioms)
  have d: "dok (sc_syscall s)" "q_inv (sc_ready s)" using assms(2) by (simp_all add: sched_inv_def)
  note r = scheduler.remove_syscall_spec [OF assms(1-3)]
  have i: "sched_inv q_items q_inv look dok okk ?s (add_mset (co_name ?co) R)" "resumable ?co ?s"
    "live okk ?co" using r(1,5) assms(4) by (simp_all add: resumable_def live_def)
  note p = scheduler.push_ready_spec [OF assms(1) i]
  have "try_resume Q D n s = (Ok (), push_ready Q ?co ?s)"
    using assms(3,4) dash_map.remove_old [OF dm d(1), of n]
    by (simp add: try_resume_def co_ops case_prod_beta Let_def)
  moreover have "?co \<in># q_items (sc_ready (push_ready Q ?co ?s))"
    using ready_queue.push_items [OF rq, of "sc_ready ?s"] d(2) by (simp add: push_ready_def)
  moreover have "look (sc_syscall (push_ready Q ?co ?s)) n = None"
    using dash_map.remove_look [OF dm d(1), of n] by (simp add: push_ready_def)
  ultimately show ?thesis
    using p(1,3) r(2) by (auto simp: push_ready_def)
qed


lemma try_resume_absent:
  assumes "scheduler Q q_items q_inv D look dok" and "sched_inv q_items q_inv look dok okk s R"
    and "look (sc_syscall s) n = None"
  shows "\<exists>s'. try_resume Q D n s = (Ok (), s') \<and> sched_inv q_items q_inv look dok okk s' R \<and>
    names q_items look s' = names q_items look s \<and> sc_ready s' = sc_ready s \<and>
    sc_syscall_suspend s' = sc_syscall_suspend s"
proof -
  have dm: "dash_map D look dok" using assms(1) by (auto elim: scheduler.axioms)
  have d: "dok (sc_syscall s)" using assms(2) by (simp add: sched_inv_def)
  have "try_resume Q D n s = (Ok (), s\<lparr>sc_syscall := snd (dm_remove D n (sc_syscall s))\<rparr>)"
    using assms(3) dash_map.remove_old [OF dm d, of n] by (simp add: try_resume_def case_prod_beta Let_def)
  with scheduler.remove_syscall_absent [OF assms] show ?thesis by simp
qed

text \<open>
  C35: \<open>try_resume\<close> moves the named coroutine from the system call map to the ready queue with its call in the state
  \<open>Computing\<close>; a name that is not there changes nothing. Either way the scheduler owns the same coroutines. The
  deadline of the call, if it had one, stays in the list of deadlines.
\<close>

theorem try_resume_exact:
  assumes "scheduler Q q_items q_inv D look dok" and "sched_inv q_items q_inv look dok okk s R"
  shows "\<exists>s'. try_resume Q D n s = (Ok (), s') \<and> sched_inv q_items q_inv look dok okk s' R \<and>
    names q_items look s' = names q_items look s \<and> sc_syscall_suspend s' = sc_syscall_suspend s \<and>
    (case look (sc_syscall s) n of
       None \<Rightarrow> sc_ready s' = sc_ready s
     | Some co \<Rightarrow> look (sc_syscall s') n = None \<and>
         (\<exists>sc st. co_state co = SystemCall () sc st \<and>
            co\<lparr>co_state := SystemCall () sc Sys_Computing\<rparr> \<in># q_items (sc_ready s')))"
proof (cases "look (sc_syscall s) n")
  case None
  with try_resume_absent [OF assms None] show ?thesis by auto
next
  case (Some co)
  then have "is_syscall (co_state co)" using assms(2) by (simp add: sched_inv_def)
  then obtain sc st where st: "co_state co = SystemCall () sc st" by (auto simp: is_syscall_def)
  from try_resume_moves [OF assms Some st] st Some show ?thesis by auto
qed

theorem try_resume_exact_witness:
  "\<exists>s'. try_resume ref_ops alist_map ''c'' ref_state = (Ok (), s') \<and>
     names ref_items map_of s' = {#''a'', ''b'', ''c''#} \<and> sc_syscall_suspend s' = sc_syscall_suspend ref_state"
  using try_resume_exact [OF ref_sched.scheduler_axioms ref_state_inv, of "''c''"]
  unfolding ref_state_names by blast

text \<open>
  C36: A deadline that an earlier system call of a coroutine left behind ends a later one too early: when such a deadline
  has passed, \<open>check_ready\<close> takes the coroutine out of its system call although the deadline of that call is
  still in the future.
\<close>

theorem stale_deadline_wakes_early:
  assumes "scheduler Q q_items q_inv D look dok" and "sched_inv q_items q_inv look dok okk s R"
    and "look (sc_syscall s) n = Some co" and "co_state co = SystemCall () sc (Sys_Suspend later)"
    and "(earlier, n) \<in> set (tl_pairs (sc_syscall_suspend s))" and "earlier \<le> fst (now s)" and "fst (now s) < later"
  shows "\<exists>s'. check_ready Q D s = (Ok (), s') \<and> look (sc_syscall s') n = None \<and>
    n \<in># names q_items look s'"
proof -
  obtain s' where s': "check_ready Q D s = (Ok (), s')" "names q_items look s' = names q_items look s"
    "\<forall>p \<in> set (tl_pairs (sc_syscall_suspend s)). fst p \<le> fst (now s) \<longrightarrow> look (sc_syscall s') (snd p) = None"
    using scheduler.check_ready_spec [OF assms(1,2)] by auto
  have "n \<in># names q_items look s"
    using scheduler.remove_syscall_spec(2,3) [OF assms(1-3)] by simp
  with s' assms(5,6) show ?thesis by force
qed

theorem stale_deadline_wakes_early_witness:
  "\<exists>s'. check_ready ref_ops alist_map ref_state = (Ok (), s') \<and> map_of (sc_syscall s') ''c'' = None"
proof -
  have "map_of (sc_syscall ref_state) ''c'' = Some (ref_co ''c'' (SystemCall () Sys_sleep (Sys_Suspend 90)) 0)"
    "co_state (ref_co ''c'' (SystemCall () Sys_sleep (Sys_Suspend 90)) 0) = SystemCall () Sys_sleep (Sys_Suspend 90)"
    "(5, ''c'') \<in> set (tl_pairs (sc_syscall_suspend ref_state))"
    "5 \<le> fst (now ref_state)" "fst (now ref_state) < 90"
    by (simp_all add: ref_state_def ref_co_def now_def u64_try_from_def)
  from stale_deadline_wakes_early [OF ref_sched.scheduler_axioms ref_state_inv this] show ?thesis by blast
qed

end
