(* ===== verification/Pool.thy ===== *)
theory Pool
  imports SchedulerSpec
begin

text \<open>
  The coroutine pool of \<^verbatim>\<open>open-coroutine-core/src/pool\<close>: tasks in a queue, worker coroutines that take
  them, the table of results and of threads waiting for a result, and the life of a pool.

  The record \<open>pool\<close> extends the scheduler (the field \<^verbatim>\<open>workers\<close>), so that a worker acts on the pool it belongs
  to. Parameters: the task queue \<open>T\<close>, the two concurrent maps (\<open>E\<close> for results, \<open>V\<close> for waiting threads), what
  a task's function does (\<open>run\<close>, to its end), what a blocker does (\<open>block\<close>), and what other threads do while
  this one waits on a condition variable (\<open>others\<close>).
\<close>

subsection \<open>Tasks\<close>

record 'f task =
  tk_name :: string
  tk_func :: 'f
  tk_param :: "usize option"

definition task_new :: "string \<Rightarrow> 'f \<Rightarrow> usize option \<Rightarrow> 'f task" where
  "task_new name func param = \<lparr>tk_name = name, tk_func = func, tk_param = param\<rparr>"

definition set_param :: "usize \<Rightarrow> 'f task \<Rightarrow> usize option \<times> 'f task" where
  "set_param param t = (tk_param t, t\<lparr>tk_param := Some param\<rparr>)"

definition get_param :: "'f task \<Rightarrow> usize option" where
  "get_param t = tk_param t"

text \<open>The function returns a value or panics, with a message or without one.\<close>

datatype task_end = Gives "usize option" | Panicked "string option"

type_synonym task_result = "(usize option, string) outcome"

definition task_run :: "('f \<Rightarrow> usize option \<Rightarrow> 's \<Rightarrow> task_end \<times> 's) \<Rightarrow> 'f task \<Rightarrow> 's \<Rightarrow> (string \<times> task_result) \<times> 's" where
  "task_run run t s =
     (case run (tk_func t) (tk_param t) s of
        (Gives v, s) \<Rightarrow> ((tk_name t, Ok v), s)
      | (Panicked m, s) \<Rightarrow>
          ((tk_name t, Err (case m of Some message \<Rightarrow> message | None \<Rightarrow> ''task failed without message'')), s))"

subsection \<open>State\<close>

record ('i, 'a) task_queue_ops = "('i, 'a) injector_ops" +
  inj_len :: "'i \<Rightarrow> nat"

record ('q, 'd, 'k, 'l, 'li, 'i, 'b, 'e, 'v) pool = "('q, 'd, 'k, 'l, 'li) sched" +
  pl_cpu :: nat
  pl_state :: pool_state
  pl_task_queue :: 'i
  pl_scheduling :: bool
  pl_running :: usize
  pl_pop_fail_times :: usize
  pl_min_size :: usize
  pl_max_size :: usize
  pl_keep_alive_time :: u64
  pl_blocker :: 'b
  pl_results :: 'e
  pl_waits :: 'v
  pl_stop_pending :: bool

datatype pool_error =
    Sched_error sched_error
  | Wait_timeout
  | Stop_timeout
  | Need_other_blocker
  | Invalid_task_name

definition pool_name where "pool_name s = sc_name s"

definition pool_get_state where "pool_get_state s = pl_state s"

definition pool_change_state where "pool_change_state st s = (pl_state s, s\<lparr>pl_state := st\<rparr>)"

definition pool_set_min_size where "pool_set_min_size n s = s\<lparr>pl_min_size := n\<rparr>"

definition pool_get_min_size where "pool_get_min_size s = pl_min_size s"

definition pool_get_running_size where "pool_get_running_size s = pl_running s"

definition pool_set_max_size where "pool_set_max_size n s = s\<lparr>pl_max_size := n\<rparr>"

definition pool_get_max_size where "pool_get_max_size s = pl_max_size s"

definition pool_set_keep_alive_time where "pool_set_keep_alive_time t s = s\<lparr>pl_keep_alive_time := t\<rparr>"

definition pool_get_keep_alive_time where "pool_get_keep_alive_time s = pl_keep_alive_time s"

definition pool_size where "pool_size T s = inj_len T (pl_task_queue s)"

definition pool_is_empty where "pool_is_empty T s \<longleftrightarrow> pool_size T s = 0"

definition pool_change_blocker where "pool_change_blocker b s = (pl_blocker s, s\<lparr>pl_blocker := b\<rparr>)"

definition pool_set_stack_size where "pool_set_stack_size n s = set_stack_size n s"

definition pool_try_resume where "pool_try_resume Q D name s = try_resume Q D name s"

text \<open>\<open>init\<close> adds the listener that creates workers; its name among the listeners is \<open>creator\<close>.\<close>

definition pool_init where "pool_init creator s = add_raw_listener creator s"

definition pool_new where
  "pool_new D T E V monitor_creator creator name cpu stack_size min_size max_size keep_alive_time blocker local_queue s =
     (let s = sched_new D monitor_creator name stack_size local_queue s;
          s = s\<lparr>pl_cpu := cpu, pl_state := Pool_Created, pl_task_queue := inj_new T, pl_scheduling := False,
                pl_running := 0, pl_pop_fail_times := 0, pl_min_size := min_size, pl_max_size := max_size,
                pl_keep_alive_time := keep_alive_time, pl_blocker := blocker, pl_results := dm_new E,
                pl_waits := dm_new V, pl_stop_pending := True\<rparr>
      in pool_init creator s)"

definition pool_default where
  "pool_default D T E V monitor_creator creator uuid sleep_blocker local_queue s =
     pool_new D T E V monitor_creator creator (''open-coroutine-pool-'' @ uuid) 1 DEFAULT_STACK_SIZE 0 65536 0
       sleep_blocker local_queue s"

definition pool_drop where
  "pool_drop T s =
     (if pool_get_running_size s \<noteq> 0 then Panic ''There are still tasks in progress !''
      else if pool_size T s \<noteq> 0 then Panic ''There are still tasks to be carried out !''
      else (Ok () :: (unit, unit) outcome))"

definition pool_init_current where "pool_init_current s = s\<lparr>COROUTINE_POOL := pool_name s # COROUTINE_POOL s\<rparr>"

definition pool_current where "pool_current s = front (COROUTINE_POOL s)"

definition pool_clean_current where "pool_clean_current s = s\<lparr>COROUTINE_POOL := tl (COROUTINE_POOL s)\<rparr>"

subsection \<open>Taking and running tasks\<close>

partial_function (option) pool_pop_loop :: "('i, 'a, 'm) task_queue_ops_scheme
    \<Rightarrow> ('q, 'd, 'k, 'l, 'li, 'i, 'b, 'e, 'v, 'w) pool_scheme
    \<Rightarrow> ('a option \<times> ('q, 'd, 'k, 'l, 'li, 'i, 'b, 'e, 'v, 'w) pool_scheme) option" where
  "pool_pop_loop T s =
     (case inj_steal T (pl_task_queue s) of
        (Success item, i) \<Rightarrow> Some (Some item, s\<lparr>pl_task_queue := i\<rparr>)
      | (Retry, i) \<Rightarrow> pool_pop_loop T (s\<lparr>pl_task_queue := i\<rparr>)
      | (Empty, i) \<Rightarrow> Some (None, s\<lparr>pl_task_queue := i\<rparr>))"

definition pool_pop where
  "pool_pop T s = (if pool_is_empty T s then Some (None, s) else pool_pop_loop T s)"

definition notify where
  "notify V name s =
     (case dm_get V name (pl_waits s) of
        None \<Rightarrow> s
      | Some pending \<Rightarrow> s\<lparr>pl_waits := snd (dm_insert V name False (pl_waits s))\<rparr>)"

text \<open>What \<open>try_run\<close> does with the result of a task; then \<open>try_run\<close>: whether a task was run, or the panic of its assertion.\<close>

definition file_result where
  "file_result E V name result s =
     (let (old, e) = dm_insert E name result (pl_results s);
          s = s\<lparr>pl_results := e\<rparr>
      in if old \<noteq> None then (Panic ''The previous result was not retrieved in a timely manner'', s)
         else (Ok () :: (unit, unit) outcome, notify V name s))"

definition pool_try_run where
  "pool_try_run T E V run s =
     (case pool_pop T s of
        None \<Rightarrow> None
      | Some (None, s) \<Rightarrow> Some (Ok False :: (bool, unit) outcome, s)
      | Some (Some t, s) \<Rightarrow>
          (let ((name, result), s) = task_run run t s in
           case file_result E V name result s of
             (Ok _, s) \<Rightarrow> Some (Ok True, s)
           | (Err e, s) \<Rightarrow> Some (Err e, s)
           | (Panic m, s) \<Rightarrow> Some (Panic m, s)))"

definition pool_try_get_result where
  "pool_try_get_result E name s =
     (let (r, e) = dm_remove E name (pl_results s)
      in (map_option (Pair name) r, s\<lparr>pl_results := e\<rparr>))"

text \<open>
  A join handle keeps the name of its task as a C string, so a name with a NUL byte makes no handle: \<open>submit\<close> panics after
  the task has been queued. The handle is represented by the name; the one made by \<open>error\<close> has the empty name.
\<close>

definition join_handle_new :: "string \<Rightarrow> (string, pool_error) outcome" where
  "join_handle_new name = (if CHR 0x00 \<in> set name then Panic ''init JoinHandle failed!'' else Ok name)"

definition join_handle_error :: "(string, pool_error) outcome" where
  "join_handle_error = join_handle_new []"

definition pool_submit_raw where
  "pool_submit_raw T t s = (join_handle_new (tk_name t), s\<lparr>pl_task_queue := inj_push T t (pl_task_queue s)\<rparr>)"

definition pool_submit where
  "pool_submit T uuid name func param s =
     pool_submit_raw T
       (task_new (case name of Some n \<Rightarrow> n | None \<Rightarrow> pool_name s @ ''|'' @ uuid) func param) s"

subsection \<open>Waiting for a result\<close>

text \<open>In a coroutine, the caller runs tasks itself until the result is there or the time is over.\<close>

partial_function (option) wait_loop :: "('i, 'f task, 'm) task_queue_ops_scheme \<Rightarrow> ('e, string, task_result) dash_ops
    \<Rightarrow> ('v, string, bool) dash_ops
    \<Rightarrow> ('f \<Rightarrow> usize option \<Rightarrow> ('q, 'd, 'k, 'l, 'li, 'i, 'b, 'e, 'v, 'w) pool_scheme
          \<Rightarrow> task_end \<times> ('q, 'd, 'k, 'l, 'li, 'i, 'b, 'e, 'v, 'w) pool_scheme)
    \<Rightarrow> string \<Rightarrow> u64 \<Rightarrow> ('q, 'd, 'k, 'l, 'li, 'i, 'b, 'e, 'v, 'w) pool_scheme
    \<Rightarrow> (((string \<times> task_result) option, pool_error) outcome \<times> ('q, 'd, 'k, 'l, 'li, 'i, 'b, 'e, 'v, 'w) pool_scheme) option" where
  "wait_loop T E V run key timeout_time s =
     (case pool_try_run T E V run s of
        None \<Rightarrow> None
      | Some (Panic m, s) \<Rightarrow> Some (Panic m, s)
      | Some (Err e, s) \<Rightarrow> Some (Panic [], s)
      | Some (Ok b, s) \<Rightarrow>
          (case pool_try_get_result E key s of
             (Some r, s) \<Rightarrow> Some (Ok (Some r), s)
           | (None, s) \<Rightarrow>
               (let (n, s) = now s in
                if saturating_sub timeout_time n = 0 then Some (Err Wait_timeout, s)
                else wait_loop T E V run key timeout_time s)))"

text \<open>In a thread, the caller waits on a condition variable while other threads run.\<close>

definition wait_in_thread where
  "wait_in_thread E V others key wait_time s =
     (let s = (case dm_get V key (pl_waits s) of
                 Some _ \<Rightarrow> s
               | None \<Rightarrow> s\<lparr>pl_waits := snd (dm_insert V key True (pl_waits s))\<rparr>);
          s = others wait_time s
      in case pool_try_get_result E key s of
           (Some r, s) \<Rightarrow>
             (let (w, v) = dm_remove V key (pl_waits s); s = s\<lparr>pl_waits := v\<rparr> in
              if w = None then (Panic ''assertion failed: self.waits.remove(key).is_some()'', s)
              else (Ok (Some r), s))
         | (None, s) \<Rightarrow> (Err Wait_timeout, s))"

definition pool_wait_result where
  "pool_wait_result T E V run others key wait_time s =
     (case pool_try_get_result E key s of
        (Some r, s) \<Rightarrow> Some (Ok (Some r), s\<lparr>pl_waits := snd (dm_remove V key (pl_waits s))\<rparr>)
      | (None, s) \<Rightarrow>
          (if coroutine_current s \<noteq> None then
             (let (timeout_time, s) = get_timeout_time wait_time s in wait_loop T E V run key timeout_time s)
           else Some (wait_in_thread E V others key wait_time s)))"

definition pool_submit_and_wait where
  "pool_submit_and_wait T E V run others uuid name func param wait_time s =
     (case pool_submit T uuid name func param s of
        (Ok join_name, s) \<Rightarrow> pool_wait_result T E V run others join_name wait_time s
      | (Err e, s) \<Rightarrow> Some (Err e, s)
      | (Panic m, s) \<Rightarrow> Some (Panic m, s))"

text \<open>Joining. An empty name is that of the handle made by \<open>error\<close>.\<close>

definition timeout_at_join where
  "timeout_at_join T E V run others name timeout_time s =
     (if name = [] then Some (Err Invalid_task_name, s)
      else let (n, s) = now s in
        (case pool_wait_result T E V run others name (unat (saturating_sub timeout_time n)) s of
           None \<Rightarrow> None
         | Some (Ok (Some r), s) \<Rightarrow> Some (Ok (snd r), s)
         | Some (Ok None, s) \<Rightarrow> Some (Panic ''result is None !'', s)
         | Some (Err e, s) \<Rightarrow> Some (Err e, s)
         | Some (Panic m, s) \<Rightarrow> Some (Panic m, s)))"

definition timeout_join where
  "timeout_join T E V run others name d s =
     (let (timeout_time, s) = get_timeout_time d s in timeout_at_join T E V run others name timeout_time s)"

definition join_handle where
  "join_handle T E V run others name s = timeout_at_join T E V run others name u64_MAX s"


subsection \<open>Workers\<close>

text \<open>\<open>worker create_time\<close> is the continuation at which the closure of \<open>grow\<close> starts.\<close>

definition pool_grow where
  "pool_grow T Q L alloc page_size uuid worker local_default should_grow s =
     (if \<not> should_grow \<or> pool_is_empty T s \<or> pool_get_running_size s \<ge> pool_get_max_size s then (Ok (), s)
      else
        let (create_time, s) = now s in
        (case submit Q L alloc page_size uuid (worker create_time) local_default None s of
           (Ok _, s) \<Rightarrow> (Ok (), s\<lparr>pl_running := pl_running s + 1\<rparr>)
         | (Err e, s) \<Rightarrow> (Err (Sched_error e), s)
         | (Panic m, s) \<Rightarrow> (Panic m, s)))"

text \<open>What a worker that finds no task does next: it suspends, waits on the blocker, or ends.\<close>

datatype worker_turn = Suspends | Blocks | Exits

definition stopping :: "pool_state \<Rightarrow> bool" where
  "stopping st = (case st of Pool_Created \<Rightarrow> False | Pool_Running \<Rightarrow> False | Pool_Stopping _ \<Rightarrow> True | Pool_Stopped \<Rightarrow> True)"

definition worker_idle where
  "worker_idle create_time s =
     (let recycle = stopping (pool_get_state s);
          running = pool_get_running_size s;
          (n, s) = now s
      in if saturating_sub n create_time \<ge> pool_get_keep_alive_time s \<and> running > pool_get_min_size s \<or> recycle
         then (Exits, s\<lparr>pl_running := saturating_sub running 1\<rparr>)
         else
           let s = s\<lparr>pl_pop_fail_times := pl_pop_fail_times s + 1\<rparr> in
           if pl_pop_fail_times s < running then (Suspends, s) else (Blocks, s))"

text \<open>The listener \<^verbatim>\<open>CoroutineCreator\<close>; \<open>grow\<close> is \<open>pool_grow\<close> of the current pool with \<open>should_grow\<close> set.\<close>

definition creator_on_event where
  "creator_on_event grow e s =
     (if pool_current s = None then s
      else case e of
        On_suspend _ _ \<Rightarrow> snd (grow s)
      | On_syscall _ _ _ _ \<Rightarrow> snd (grow s)
      | On_error _ _ _ \<Rightarrow> snd (grow (s\<lparr>pl_running := pl_running s - 1\<rparr>))
      | _ \<Rightarrow> s)"

subsection \<open>Scheduling\<close>

definition pool_try_timeout_schedule where
  "pool_try_timeout_schedule T Q D L f alloc page_size uuid worker local_default timeout_time s =
     (if pl_scheduling s then
        (let (n, s) = now s in Some (Ok (saturating_sub timeout_time n), s))
      else
        let s = pool_init_current (s\<lparr>pl_scheduling := True\<rparr>);
            should_grow = \<not> stopping (pool_get_state s)
        in (case pool_grow T Q L alloc page_size uuid worker local_default should_grow s of
              (Err e, s) \<Rightarrow> Some (Err e, s\<lparr>pl_scheduling := False\<rparr>)
            | (Panic m, s) \<Rightarrow> Some (Panic m, s)
            | (Ok _, s) \<Rightarrow>
                (case try_timeout_schedule Q D L f timeout_time s of
                   None \<Rightarrow> None
                 | Some (Ok left, s) \<Rightarrow> Some (Ok left, (pool_clean_current s)\<lparr>pl_scheduling := False\<rparr>)
                 | Some (Err e, s) \<Rightarrow> Some (Err (Sched_error e), (pool_clean_current s)\<lparr>pl_scheduling := False\<rparr>)
                 | Some (Panic m, s) \<Rightarrow> Some (Panic m, s))))"

definition pool_try_timed_schedule where
  "pool_try_timed_schedule schedule d s = (let (timeout_time, s) = get_timeout_time d s in schedule timeout_time s)"

definition pool_try_schedule where
  "pool_try_schedule schedule s = schedule u64_MAX s"

subsection \<open>Start and stop\<close>

text \<open>
  \<open>schedule\<close> is the pool's own \<open>try_timeout_schedule\<close>. \<open>is_sleep_blocker\<close> compares the name of the blocker. The
  thread \<open>start\<close> creates runs \<open>consumer_round\<close> until it says it is done.
\<close>

definition pool_start where
  "pool_start is_sleep_blocker s =
     (if is_sleep_blocker (pl_blocker s) then (Err Need_other_blocker, s)
      else let (old, s) = pool_change_state Pool_Running s in
        if old = Pool_Created then (Ok (), s) else (Panic ''assertion failed: Created'', s))"

type_synonym ('e, 's) schedule_fn = "u64 \<Rightarrow> 's \<Rightarrow> ((u64, 'e) outcome \<times> 's) option"

partial_function (option) drain :: "('i, 'a, 'm) task_queue_ops_scheme
    \<Rightarrow> (pool_error, ('q, 'd, 'k, 'l, 'li, 'i, 'b, 'e, 'v, 'w) pool_scheme) schedule_fn
    \<Rightarrow> ('q, 'd, 'k, 'l, 'li, 'i, 'b, 'e, 'v, 'w) pool_scheme
    \<Rightarrow> ((unit, pool_error) outcome \<times> ('q, 'd, 'k, 'l, 'li, 'i, 'b, 'e, 'v, 'w) pool_scheme) option" where
  "drain T schedule s =
     (if \<not> pool_is_empty T s \<or> pool_get_running_size s > 0 then
        (case pool_try_timed_schedule schedule 10000000 s of
           None \<Rightarrow> None
         | Some (Panic m, s) \<Rightarrow> Some (Panic m, s)
         | Some (_, s) \<Rightarrow> drain T schedule s)
      else Some (Ok (), s))"

definition consumer_round where
  "consumer_round T schedule s =
     (case pool_get_state s of
        Pool_Running \<Rightarrow>
          (case pool_try_timed_schedule schedule 10000000 s of
             None \<Rightarrow> None
           | Some (Panic m, s) \<Rightarrow> Some (Panic m, s)
           | Some (_, s) \<Rightarrow> Some (Ok False, s))
      | Pool_Stopping True \<Rightarrow>
          (case drain T schedule s of
             None \<Rightarrow> None
           | Some (Ok _, s) \<Rightarrow> Some (Ok True, s\<lparr>pl_stop_pending := False\<rparr>)
           | Some (Err e, s) \<Rightarrow> Some (Err e, s)
           | Some (Panic m, s) \<Rightarrow> Some (Panic m, s))
      | _ \<Rightarrow> Some (Panic ''never happens'', s))"

text \<open>The loop of \<open>stop\<close> for a pool without a thread of its own.\<close>

partial_function (option) stop_loop :: "('i, 'a, 'm) task_queue_ops_scheme
    \<Rightarrow> (pool_error, ('q, 'd, 'k, 'l, 'li, 'i, 'b, 'e, 'v, 'w) pool_scheme) schedule_fn \<Rightarrow> duration
    \<Rightarrow> ('q, 'd, 'k, 'l, 'li, 'i, 'b, 'e, 'v, 'w) pool_scheme
    \<Rightarrow> ((unit, pool_error) outcome \<times> ('q, 'd, 'k, 'l, 'li, 'i, 'b, 'e, 'v, 'w) pool_scheme) option" where
  "stop_loop T schedule left s =
     (case pool_try_timed_schedule schedule left s of
        None \<Rightarrow> None
      | Some (Err e, s) \<Rightarrow> Some (Err e, s)
      | Some (Panic m, s) \<Rightarrow> Some (Panic m, s)
      | Some (Ok left_time, s) \<Rightarrow>
          (if pool_is_empty T s \<and> pool_get_running_size s = 0 then
             (let (old, s) = pool_change_state Pool_Stopped s in
              if old = Pool_Stopping False then Some (Ok (), s)
              else Some (Panic ''assertion failed: Stopping(false)'', s))
           else if left_time = 0 then Some (Err Stop_timeout, s)
           else stop_loop T schedule (unat left_time) s))"

definition stop_thread where
  "stop_thread others wait_time s =
     (let (old, s) = pool_change_state (Pool_Stopping True) s in
      if old \<noteq> Pool_Running then (Panic ''assertion failed: Running'', s)
      else
        let s = others wait_time s in
        if pl_stop_pending s then (Err Stop_timeout, s)
        else let (old, s) = pool_change_state Pool_Stopped s in
          if old = Pool_Stopping True then (Ok (), s)
          else (Panic ''assertion failed: Stopping(true)'', s))"

definition pool_stop where
  "pool_stop T schedule others wait_time s =
     (let state = pool_get_state s in
      if state = Pool_Stopped then Some (Ok (), s)
      else case pool_try_timed_schedule schedule 0 s of
        None \<Rightarrow> None
      | Some (Err e, s) \<Rightarrow> Some (Err e, s)
      | Some (Panic m, s) \<Rightarrow> Some (Panic m, s)
      | Some (Ok _, s) \<Rightarrow>
          (if state = Pool_Running then Some (stop_thread others wait_time s)
           else
             let (old, s) = pool_change_state (Pool_Stopping False) s in
             if old \<noteq> Pool_Created then Some (Panic ''assertion failed: Created'', s)
             else stop_loop T schedule wait_time s))"

end
