(* ===== verification/PoolClaims.thy ===== *)
theory PoolClaims
  imports Pool
begin

text \<open>
  What the pool promises: a task that was submitted is run once and its result is handed to whoever waits for
  it; the number of workers stays within its bounds; only one thread schedules; a pool stops only when
  it has nothing left to do.
\<close>

subsection \<open>The task queue\<close>

locale task_queue =
  fixes T :: "('i, 'a) task_queue_ops" and contents :: "'i \<Rightarrow> 'a list" and contention :: "'i \<Rightarrow> nat"
  assumes inj: "crossbeam_injector (injector_ops.truncate T) contents contention"
    and len_contents: "inj_len T i = length (contents i)"
begin

lemma pool_pop_loop_spec:
  "\<exists>i. pool_pop_loop T s =
     Some (case contents (pl_task_queue s) of [] \<Rightarrow> None | t # ts \<Rightarrow> Some t, s\<lparr>pl_task_queue := i\<rparr>) \<and>
     contents i = tl (contents (pl_task_queue s))"
proof (induction "contention (pl_task_queue s)" arbitrary: s rule: less_induct)
  case less
  have steal: "inj_steal (injector_ops.truncate T) = inj_steal T" by (simp add: injector_ops.truncate_def)
  note laws = crossbeam_injector.steal_Success [OF inj] crossbeam_injector.steal_Empty [OF inj]
    crossbeam_injector.steal_Retry [OF inj]
  obtain r i where r: "inj_steal T (pl_task_queue s) = (r, i)" by force
  show ?case
  proof (cases r)
    case Empty
    with r laws(2) [of "pl_task_queue s" i] show ?thesis
      by (subst pool_pop_loop.simps) (auto simp: steal)
  next
    case (Success x)
    with r laws(1) [of "pl_task_queue s" x i] show ?thesis
      by (subst pool_pop_loop.simps) (auto simp: steal)
  next
    case Retry
    with r laws(3) [of "pl_task_queue s" i]
    have i: "contents i = contents (pl_task_queue s)" "contention i < contention (pl_task_queue s)"
      by (simp_all add: steal)
    have "pool_pop_loop T s = pool_pop_loop T (s\<lparr>pl_task_queue := i\<rparr>)"
      by (subst pool_pop_loop.simps) (simp add: r Retry)
    with less [of "s\<lparr>pl_task_queue := i\<rparr>"] i show ?thesis by simp
  qed
qed

text \<open>\<open>pop\<close> takes the oldest task and always returns.\<close>

lemma pool_pop_spec:
  "\<exists>i. pool_pop T s =
     Some (case contents (pl_task_queue s) of [] \<Rightarrow> None | t # ts \<Rightarrow> Some t, s\<lparr>pl_task_queue := i\<rparr>) \<and>
     contents i = tl (contents (pl_task_queue s))"
proof (cases "pool_is_empty T s")
  case True
  then have "contents (pl_task_queue s) = []" by (simp add: pool_is_empty_def pool_size_def len_contents)
  with True show ?thesis by (intro exI [of _ "pl_task_queue s"]) (simp add: pool_pop_def)
next
  case False
  with pool_pop_loop_spec [of s] show ?thesis by (simp add: pool_pop_def)
qed

end

definition list_task_queue :: "('a list \<times> nat, 'a) task_queue_ops" where
  "list_task_queue = \<lparr>inj_new = ([], 0), inj_push = (\<lambda>x (xs, n). (xs @ [x], n)), inj_steal = list_steal,
     inj_len = (\<lambda>i. length (fst i))\<rparr>"

lemma truncate_list_task_queue: "injector_ops.truncate list_task_queue = list_injector"
  by (simp add: list_task_queue_def list_injector_def injector_ops.truncate_def)

interpretation ref_tasks: task_queue list_task_queue fst snd
  by (rule task_queue.intro)
    (simp_all add: truncate_list_task_queue ref.crossbeam_injector_axioms, simp add: list_task_queue_def)

subsection \<open>Results of tasks that run to their end\<close>

definition result_of :: "task_end \<Rightarrow> task_result" where
  "result_of e = (case e of Gives v \<Rightarrow> Ok v
     | Panicked m \<Rightarrow> Err (case m of Some message \<Rightarrow> message | None \<Rightarrow> ''task failed without message''))"

text \<open>What the tasks in a queue will leave behind.\<close>

definition due :: "('f \<Rightarrow> usize option \<Rightarrow> task_end) \<Rightarrow> 'f task list \<Rightarrow> (string \<times> task_result) list" where
  "due fin ts = map (\<lambda>t. (tk_name t, result_of (fin (tk_func t) (tk_param t)))) ts"

lemma due_simps [simp]: "due fin [] = []"
  "due fin (t # ts) = (tk_name t, result_of (fin (tk_func t) (tk_param t))) # due fin ts"
  by (simp_all add: due_def)

text \<open>The results there are and those still due, under different names, make up \<open>whole\<close>.\<close>

definition accounted :: "('n \<rightharpoonup> 'r) \<Rightarrow> ('n \<times> 'r) list \<Rightarrow> ('n \<rightharpoonup> 'r) \<Rightarrow> bool" where
  "accounted whole ps m \<longleftrightarrow> distinct (map fst ps) \<and> fst ` set ps \<inter> dom m = {} \<and> m ++ map_of ps = whole"

lemma accounted_file:
  assumes "accounted whole ((n, r) # ps) m"
  shows "m n = None" "accounted whole ps (m(n \<mapsto> r))"
proof -
  show "m n = None" using assms by (auto simp: accounted_def)
  have "n \<notin> dom (map_of ps)" using assms by (simp add: accounted_def dom_map_of_conv_image_fst)
  then have "m(n \<mapsto> r) ++ map_of ps = m ++ map_of ((n, r) # ps)" by (simp add: map_add_upd_left)
  with assms show "accounted whole ps (m(n \<mapsto> r))" by (auto simp: accounted_def)
qed

lemma map_add_drop_last:
  assumes "m n = None" "n \<notin> fst ` set ps"
  shows "(m ++ map_of (ps @ [(n, r)]))(n := None) = m ++ map_of ps"
proof -
  have "map_of ps n = None" using assms(2) by (simp add: map_of_eq_None_iff)
  with assms(1) show ?thesis by (auto simp: fun_eq_iff map_add_def split: option.splits)
qed

subsection \<open>Running tasks\<close>

lemma task_run_at_once:
  assumes "run (tk_func t) (tk_param t) s = (e, s)"
  shows "task_run run t s = ((tk_name t, result_of e), s)"
  using assms by (cases e) (simp_all add: task_run_def result_of_def)

lemma notify_waits:
  assumes "dash_map V vlook vok" "vok (pl_waits s)"
  shows "\<exists>v. notify V n s = s\<lparr>pl_waits := v\<rparr> \<and> vok v \<and> vlook v n = map_option (\<lambda>_. False) (vlook (pl_waits s) n)"
proof (cases "vlook (pl_waits s) n")
  case None
  with assms dash_map.get_look [OF assms] show ?thesis by (intro exI [of _ "pl_waits s"]) (simp add: notify_def)
next
  case (Some b)
  with dash_map.get_look [OF assms] dash_map.insert_look [OF assms] dash_map.insert_ok [OF assms] show ?thesis
    by (intro exI [of _ "snd (dm_insert V n False (pl_waits s))"]) (simp add: notify_def)
qed

text \<open>What \<open>try_run\<close> does with the oldest task, when its function leaves the state alone.\<close>

lemma try_run_spec:
  assumes "task_queue T contents contention" and E: "dash_map E elook eok" and V: "dash_map V vlook vok"
    and "contents (pl_task_queue s) = t # ts" and fin: "\<And>s. run (tk_func t) (tk_param t) s = (e, s)"
    and ok: "eok (pl_results s)" "vok (pl_waits s)"
  shows "\<exists>q m v. contents q = ts \<and> eok m \<and> elook m = (elook (pl_results s))(tk_name t \<mapsto> result_of e) \<and> vok v \<and>
    pool_try_run T E V run s =
      Some (if elook (pl_results s) (tk_name t) = None then Ok True
            else Panic ''The previous result was not retrieved in a timely manner'',
          s\<lparr>pl_task_queue := q, pl_results := m, pl_waits := v\<rparr>) \<and>
    (elook (pl_results s) (tk_name t) = None \<longrightarrow>
      vlook v (tk_name t) = map_option (\<lambda>_. False) (vlook (pl_waits s) (tk_name t)))"
proof -
  obtain q where q: "pool_pop T s = Some (Some t, s\<lparr>pl_task_queue := q\<rparr>)" "contents q = ts"
    using task_queue.pool_pop_spec [OF assms(1), of s] assms(4) by auto
  let ?m = "snd (dm_insert E (tk_name t) (result_of e) (pl_results s))"
  let ?s = "s\<lparr>pl_task_queue := q, pl_results := ?m\<rparr>"
  note m = dash_map.insert_ok [OF E ok(1)] dash_map.insert_look [OF E ok(1)] dash_map.insert_old [OF E ok(1)]
  have run: "pool_try_run T E V run s =
      Some (if elook (pl_results s) (tk_name t) = None then (Ok True, notify V (tk_name t) ?s)
            else (Panic ''The previous result was not retrieved in a timely manner'', ?s))"
    using q(1) m(3) task_run_at_once [of run t "s\<lparr>pl_task_queue := q\<rparr>" e] fin
    by (simp add: pool_try_run_def file_result_def case_prod_beta Let_def)
  have "vok (pl_waits ?s)" using ok(2) by simp
  from notify_waits [OF V this, of "tk_name t"] obtain v where v: "notify V (tk_name t) ?s = ?s\<lparr>pl_waits := v\<rparr>" "vok v"
    "vlook v (tk_name t) = map_option (\<lambda>_. False) (vlook (pl_waits s) (tk_name t))" by auto
  show ?thesis
  proof (cases "elook (pl_results s) (tk_name t) = None")
    case True
    with run v q(2) m(1,2) show ?thesis by (intro exI [of _ q] exI [of _ ?m] exI [of _ v]) simp
  next
    case False
    with run ok(2) q(2) m(1,2) show ?thesis by (intro exI [of _ q] exI [of _ ?m] exI [of _ "pl_waits s"]) auto
  qed
qed

text \<open>
  C19: \<open>try_run\<close> takes the oldest task, runs it once with its parameter, and files what it returned, or the
  message of its panic, under the name of the task; a thread waiting for that name is told. When an older result of the same
  name has not been fetched, it panics instead of overwriting it silently.
\<close>

theorem try_run_files_result:
  assumes "task_queue T contents contention" and "dash_map E elook eok" and "dash_map V vlook vok"
    and "contents (pl_task_queue s) = t # ts"
    and "\<And>s. run (tk_func t) (tk_param t) s = (e, s)"
    and "eok (pl_results s)" and "vok (pl_waits s)"
  shows "\<exists>r s'. pool_try_run T E V run s = Some (r, s') \<and> contents (pl_task_queue s') = ts \<and>
    elook (pl_results s') = (elook (pl_results s))(tk_name t \<mapsto> result_of e) \<and>
    (if elook (pl_results s) (tk_name t) = None
     then r = Ok True \<and> vlook (pl_waits s') (tk_name t) = map_option (\<lambda>_. False) (vlook (pl_waits s) (tk_name t))
     else r = Panic ''The previous result was not retrieved in a timely manner'')"
  using try_run_spec [OF assms(1-4), where run = run and e = e, OF assms(5-7)] by auto

text \<open>A pool over list-based containers, with tasks that add a number to their parameter.\<close>

type_synonym ref_pool = "(unit, unit, unit, unit, unit, nat task list \<times> nat, bool, (string \<times> task_result) list,
  (string \<times> bool) list) pool"

definition ref_pool :: "pool_state \<Rightarrow> nat task list \<Rightarrow> (string \<times> task_result) list \<Rightarrow> (string \<times> bool) list \<Rightarrow> usize \<Rightarrow> ref_pool" where
  "ref_pool st tasks results waits running = \<lparr>clk = (\<lambda>i. 10 * i), reads = 1, TIMESTAMP = [], COROUTINE = [''co''], SUSPENDER = [],
     SYSCALL = [], SCHEDULER = [], COROUTINE_POOL = [''p''], TRAP_HANDLER_INITED = True, signal_handlers = [],
     sc_name = ''p'', sc_stack_size = 0, sc_ready = (), sc_suspend = [], sc_syscall = (), sc_syscall_suspend = [],
     sc_listeners = [], pl_cpu = 1, pl_state = st, pl_task_queue = (tasks, 1), pl_scheduling = False, pl_running = running,
     pl_pop_fail_times = 0, pl_min_size = 1, pl_max_size = 4, pl_keep_alive_time = 5, pl_blocker = True,
     pl_results = results, pl_waits = waits, pl_stop_pending = True\<rparr>"

definition add_task :: "nat \<Rightarrow> usize option \<Rightarrow> ref_pool \<Rightarrow> task_end \<times> ref_pool" where
  "add_task n p s = (case p of None \<Rightarrow> (Panicked None, s) | Some v \<Rightarrow> (Gives (Some (v + of_nat n)), s))"

lemma add_task_end: "add_task n (Some v) s = (Gives (Some (v + of_nat n)), s)"
  by (simp add: add_task_def)

theorem try_run_files_result_witness:
  "\<exists>r s'. pool_try_run list_task_queue alist_map alist_map add_task
       (ref_pool Pool_Created [task_new ''t'' 2 (Some 40)] [] [(''t'', True)] 1) = Some (r, s') \<and>
     r = Ok True \<and> map_of (pl_results s') ''t'' = Some (Ok (Some 42)) \<and> map_of (pl_waits s') ''t'' = Some False"
proof -
  let ?t = "task_new ''t'' 2 (Some 40) :: nat task"
  let ?s = "ref_pool Pool_Created [?t] [] [(''t'', True)] 1"
  have "fst (pl_task_queue ?s) = ?t # []" "alist_ok (pl_results ?s)" "alist_ok (pl_waits ?s)"
    by (simp_all add: ref_pool_def alist_ok_def)
  note pre = this
  have ends: "add_task (tk_func ?t) (tk_param ?t) s = (Gives (Some 42), s)" for s
    by (simp add: add_task_def task_new_def)
  obtain r s' where run: "pool_try_run list_task_queue alist_map alist_map add_task ?s = Some (r, s')"
    and res: "map_of (pl_results s') = (map_of (pl_results ?s))(tk_name ?t \<mapsto> result_of (Gives (Some 42)))"
    and ok: "if map_of (pl_results ?s) (tk_name ?t) = None
      then r = Ok True \<and> map_of (pl_waits s') (tk_name ?t) = map_option (\<lambda>_. False) (map_of (pl_waits ?s) (tk_name ?t))
      else r = Panic ''The previous result was not retrieved in a timely manner''"
    using try_run_files_result [OF ref_tasks.task_queue_axioms alist.dash_map_axioms alist.dash_map_axioms pre(1),
        where run = add_task and e = "Gives (Some 42)", OF ends pre(2,3)] by blast
  have "tk_name ?t = ''t''" "result_of (Gives (Some 42)) = Ok (Some 42)"
    "map_of (pl_results ?s) ''t'' = None" "map_of (pl_waits ?s) ''t'' = Some True"
    by (simp_all add: task_new_def result_of_def ref_pool_def)
  with run res ok show ?thesis by auto
qed

text \<open>
  Waiting in a coroutine: the caller runs the tasks in front of its own one by one. The clock is read once after each of
  them, so it must not reach the deadline in as many readings.
\<close>

lemma wait_loop_step:
  assumes T: "task_queue T contents contention" and E: "dash_map E elook eok" and V: "dash_map V vlook vok"
    and run: "\<And>f p s. run f p s = (fin f p, s)" and ok: "eok (pl_results s)" "vok (pl_waits s)"
    and q: "contents (pl_task_queue s) = t # ts" and acc: "accounted whole (due fin (t # ts)) (elook (pl_results s))"
  shows "\<exists>s1. pool_try_run T E V run s = Some (Ok True, s1) \<and> contents (pl_task_queue s1) = ts \<and> eok (pl_results s1) \<and>
    vok (pl_waits s1) \<and> accounted whole (due fin ts) (elook (pl_results s1)) \<and>
    elook (pl_results s1) = (elook (pl_results s))(tk_name t \<mapsto> result_of (fin (tk_func t) (tk_param t))) \<and>
    clk s1 = clk s \<and> reads s1 = reads s"
proof -
  note a = accounted_file [OF acc [unfolded due_simps]]
  from try_run_spec [OF T E V q, where run = run, OF run ok] a show ?thesis by force
qed

lemma try_get_result_look:
  assumes "dash_map E elook eok" "eok (pl_results s)"
  shows "\<exists>m. pool_try_get_result E n s = (map_option (Pair n) (elook (pl_results s) n), s\<lparr>pl_results := m\<rparr>) \<and> eok m \<and>
    elook m = (elook (pl_results s))(n := None)"
  using dash_map.remove_old [OF assms, of n] dash_map.remove_look [OF assms, of n] dash_map.remove_ok [OF assms, of n]
  by (auto simp: pool_try_get_result_def case_prod_beta)

lemma wait_loop_gets:
  assumes T: "task_queue T contents contention" and E: "dash_map E elook eok" and V: "dash_map V vlook vok"
    and run: "\<And>f p s. run f p s = (fin f p, s)" and ok: "eok (pl_results s)" "vok (pl_waits s)"
    and q: "contents (pl_task_queue s) = ts @ [t]"
    and acc: "accounted whole (due fin (ts @ [t])) (elook (pl_results s))"
    and time: "\<forall>i < length ts. fst (now (s\<lparr>reads := reads s + i\<rparr>)) < deadline"
  shows "\<exists>s'. wait_loop T E V run (tk_name t) deadline s =
      Some (Ok (Some (tk_name t, result_of (fin (tk_func t) (tk_param t)))), s') \<and>
    contents (pl_task_queue s') = [] \<and> elook (pl_results s') = whole(tk_name t := None)"
  using ok q acc time
proof (induction ts arbitrary: s)
  case Nil
  from Nil.prems obtain s1 where s1: "pool_try_run T E V run s = Some (Ok True, s1)" "contents (pl_task_queue s1) = []"
    "eok (pl_results s1)" "accounted whole [] (elook (pl_results s1))"
    "elook (pl_results s1) = (elook (pl_results s))(tk_name t \<mapsto> result_of (fin (tk_func t) (tk_param t)))"
    using wait_loop_step [OF T E V, where run = run and fin = fin, OF run Nil.prems(1,2), of t "[]" whole] by auto
  from try_get_result_look [OF E s1(3), of "tk_name t"] s1(4,5) show ?case
    by (subst wait_loop.simps) (auto simp: s1(1,2) accounted_def)
next
  case (Cons u us)
  have "contents (pl_task_queue s) = u # (us @ [t])" "accounted whole (due fin (u # (us @ [t]))) (elook (pl_results s))"
    using Cons.prems(3,4) by simp_all
  from wait_loop_step [OF T E V, where run = run and fin = fin, OF run Cons.prems(1,2) this] obtain s1 where
    s1: "pool_try_run T E V run s = Some (Ok True, s1)" "contents (pl_task_queue s1) = us @ [t]" "eok (pl_results s1)"
    "vok (pl_waits s1)" "accounted whole (due fin (us @ [t])) (elook (pl_results s1))" "clk s1 = clk s" "reads s1 = reads s"
    by blast
  have no: "elook (pl_results s1) (tk_name t) = None" using s1(5) by (auto simp: accounted_def due_def)
  obtain m where m: "pool_try_get_result E (tk_name t) s1 = (None, s1\<lparr>pl_results := m\<rparr>)" "eok m" "elook m = elook (pl_results s1)"
    using try_get_result_look [OF E s1(3), of "tk_name t"] no by (auto simp: fun_upd_idem)
  let ?s = "snd (now (s1\<lparr>pl_results := m\<rparr>))"
  have "\<not> deadline \<le> fst (now (s1\<lparr>pl_results := m\<rparr>))"
    using Cons.prems(5) [rule_format, of 0] s1(6,7) by (simp add: now_def not_le)
  then have step: "wait_loop T E V run (tk_name t) deadline s = wait_loop T E V run (tk_name t) deadline ?s"
    by (subst wait_loop.simps) (simp add: s1(1) m(1) case_prod_beta)
  have "\<forall>i < length us. fst (now (?s\<lparr>reads := reads ?s + i\<rparr>)) < deadline"
  proof (intro allI impI)
    fix i assume "i < length us"
    then show "fst (now (?s\<lparr>reads := reads ?s + i\<rparr>)) < deadline"
      using Cons.prems(5) [rule_format, of "Suc i"] s1(6,7) by (simp add: now_def)
  qed
  moreover have "eok (pl_results ?s)" "vok (pl_waits ?s)" "contents (pl_task_queue ?s) = us @ [t]"
    "accounted whole (due fin (us @ [t])) (elook (pl_results ?s))"
    using s1 m by (simp_all add: now_def)
  ultimately show ?case unfolding step by (intro Cons.IH)
qed

lemma readings_shift:
  fixes s s2 :: "'w env_scheme"
  assumes "clk s2 = clk s" "reads s2 = reads s \<or> reads s2 = Suc (reads s)"
    and "n = 0 \<or> (\<forall>i \<le> n. fst (now (s\<lparr>reads := reads s + i\<rparr>)) < deadline)"
  shows "\<forall>i < n. fst (now (s2\<lparr>reads := reads s2 + i\<rparr>)) < deadline"
proof (intro allI impI)
  fix i assume i: "i < n"
  with assms(3) have "\<forall>i \<le> n. fst (now (s\<lparr>reads := reads s + i\<rparr>)) < deadline" by auto
  from this [rule_format, of i] this [rule_format, of "Suc i"] i assms(1,2)
  show "fst (now (s2\<lparr>reads := reads s2 + i\<rparr>)) < deadline" by (auto simp: now_def)
qed

text \<open>
  C8: In a coroutine, submitting a task and waiting for it returns that task's own result and removes it from the table. The
  tasks that were pending are run before it, each result filed under its name, provided that the deadline is not reached while
  they run; with no task pending the waiting time does not matter. The name must not contain the NUL byte, which makes \<open>submit\<close> panic.
\<close>

theorem submit_and_wait_returns:
  assumes "task_queue T contents contention" and "dash_map E elook eok" and "dash_map V vlook vok"
    and "\<And>f p s. run f p s = (fin f p, s)" and "eok (pl_results s)" and "vok (pl_waits s)"
    and "coroutine_current s \<noteq> None" and "elook (pl_results s) name = None"
    and "distinct (name # map tk_name (contents (pl_task_queue s)))"
    and "\<forall>t \<in> set (contents (pl_task_queue s)). elook (pl_results s) (tk_name t) = None"
    and "contents (pl_task_queue s) = [] \<or> (\<forall>i \<le> length (contents (pl_task_queue s)).
      fst (now (s\<lparr>reads := reads s + i\<rparr>)) < fst (get_timeout_time wait_time s))"
    and "CHR 0x00 \<notin> set name"
  shows "\<exists>s'. pool_submit_and_wait T E V run others uuid (Some name) func param wait_time s =
      Some (Ok (Some (name, result_of (fin func param))), s') \<and> contents (pl_task_queue s') = [] \<and>
    elook (pl_results s') = elook (pl_results s) ++ map_of (due fin (contents (pl_task_queue s)))"
proof -
  let ?t = "task_new name func param" and ?ts = "contents (pl_task_queue s)"
  define s1 where "s1 = s\<lparr>pl_task_queue := inj_push T ?t (pl_task_queue s)\<rparr>"
  have push: "contents (pl_task_queue s1) = ?ts @ [?t]"
    using crossbeam_injector.contents_push [OF task_queue.inj [OF assms(1)], of ?t "pl_task_queue s"]
    by (simp add: s1_def injector_ops.truncate_def)
  obtain m where m: "pool_try_get_result E name s1 = (None, s1\<lparr>pl_results := m\<rparr>)" "eok m" "elook m = elook (pl_results s)"
    using try_get_result_look [of E elook eok s1 name, OF assms(2)] assms(5,8) by (auto simp: fun_upd_idem s1_def)
  obtain deadline s2 where s2: "get_timeout_time wait_time (s1\<lparr>pl_results := m\<rparr>) = (deadline, s2)" by force
  have f2: "deadline = fst (get_timeout_time wait_time s)" "clk s2 = clk s" "reads s2 = reads s \<or> reads s2 = Suc (reads s)"
    "pl_results s2 = m" "pl_waits s2 = pl_waits s" "pl_task_queue s2 = pl_task_queue s1"
    using s2 by (auto simp: get_timeout_time_def now_def s1_def Let_def split: option.splits)
  define whole where "whole = elook (pl_results s) ++ map_of (due fin (?ts @ [?t]))"
  have n: "tk_name ?t = name" "tk_func ?t = func" "tk_param ?t = param" by (simp_all add: task_new_def)
  have acc: "accounted whole (due fin (?ts @ [?t])) (elook (pl_results s2))"
    using assms(8-10) n by (auto simp: accounted_def whole_def f2(4) m(3) due_def comp_def)
  have time: "\<forall>i < length ?ts. fst (now (s2\<lparr>reads := reads s2 + i\<rparr>)) < deadline"
    by (rule readings_shift [OF f2(2,3)]) (use assms(11) f2(1) in auto)
  have ok: "eok (pl_results s2)" "vok (pl_waits s2)" "contents (pl_task_queue s2) = ?ts @ [?t]"
    using f2(4-6) m(2) assms(6) push by simp_all
  obtain s' where s': "wait_loop T E V run name deadline s2 = Some (Ok (Some (name, result_of (fin func param))), s')"
    "contents (pl_task_queue s') = []" "elook (pl_results s') = whole(name := None)"
    using wait_loop_gets [OF assms(1-3), where run = run and fin = fin, OF assms(4) ok acc time] unfolding n by blast
  have "whole(name := None) = elook (pl_results s) ++ map_of (due fin ?ts)"
    using map_add_drop_last [of "elook (pl_results s)" name "due fin ?ts"] assms(8,9) n
    by (simp add: whole_def due_def image_image)
  moreover have "coroutine_current (s1\<lparr>pl_results := m\<rparr>) \<noteq> None"
    using assms(7) by (simp add: coroutine_current_def s1_def)
  ultimately show ?thesis
    using s' m(1) s2 n(1) assms(12)
    by (simp add: pool_submit_and_wait_def pool_submit_def pool_submit_raw_def join_handle_new_def pool_wait_result_def
        s1_def [symmetric])
qed

theorem submit_and_wait_returns_witness:
  "\<exists>s'. pool_submit_and_wait list_task_queue alist_map alist_map add_task (\<lambda>d s. s) ''u'' (Some ''t'') 2 (Some 40) 1000
     (ref_pool Pool_Created [task_new ''w'' 1 None] [] [] 1) = Some (Ok (Some (''t'', Ok (Some 42))), s') \<and>
     map_of (pl_results s') = [''w'' \<mapsto> Err ''task failed without message'']"
proof -
  let ?s = "ref_pool Pool_Created [task_new ''w'' 1 None] [] [] 1"
  let ?fin = "\<lambda>n p. case p of None \<Rightarrow> Panicked None | Some v \<Rightarrow> Gives (Some (v + of_nat n))"
  have pre: "alist_ok (pl_results ?s)" "alist_ok (pl_waits ?s)" "coroutine_current ?s \<noteq> None" "map_of (pl_results ?s) ''t'' = None"
    "distinct (''t'' # map tk_name (fst (pl_task_queue ?s)))"
    "\<forall>t \<in> set (fst (pl_task_queue ?s)). map_of (pl_results ?s) (tk_name t) = None"
    by (simp_all add: ref_pool_def alist_ok_def coroutine_current_def front_def task_new_def)
  have time: "fst (pl_task_queue ?s) = [] \<or> (\<forall>i \<le> length (fst (pl_task_queue ?s)).
      fst (now (?s\<lparr>reads := reads ?s + i\<rparr>)) < fst (get_timeout_time 1000 ?s))"
    by (auto simp: ref_pool_def now_def get_timeout_time_def u64_try_from_def saturating_add_def le_Suc_eq word_less_nat_alt)
  have fin: "add_task n p s = (?fin n p, s)" for n p s by (simp add: add_task_def split: option.split)
  have nul: "CHR 0x00 \<notin> set ''t''" by simp
  have r: "result_of (?fin 2 (Some 40)) = Ok (Some 42)"
    "map_of (pl_results ?s) ++ map_of (due ?fin (fst (pl_task_queue ?s))) = [''w'' \<mapsto> Err ''task failed without message'']"
    by (simp_all add: result_of_def ref_pool_def task_new_def)
  show ?thesis
    using submit_and_wait_returns [OF ref_tasks.task_queue_axioms alist.dash_map_axioms alist.dash_map_axioms,
        where run = add_task and fin = ?fin and func = 2 and param = "Some 40", OF fin pre time nul] unfolding r by blast
qed

subsection \<open>Workers\<close>

lemma running_dispatch:
  fixes s :: "('q, 'd, 'k, 'l, 'li, 'i, 'b, 'e, 'v, 'w) pool_scheme"
  assumes "\<And>l s. pl_running (L l e s) = pl_running (s :: ('q, 'd, 'k, 'l, 'li, 'i, 'b, 'e, 'v, 'w) pool_scheme)"
  shows "pl_running (dispatch L e s) = pl_running s"
proof -
  have "pl_running (fold (\<lambda>l. L l e) ls s) = pl_running s" for ls
    by (induction ls arbitrary: s) (simp_all add: assms)
  then show ?thesis by (simp add: dispatch_def)
qed

lemma running_submit:
  fixes s :: "('q, 'd, 'k, 'l, 'li, 'i, 'b, 'e, 'v, 'w) pool_scheme"
  assumes "\<And>l co s. pl_running (L l (On_create co) s) = pl_running (s :: ('q, 'd, 'k, 'l, 'li, 'i, 'b, 'e, 'v, 'w) pool_scheme)"
  shows "pl_running (snd (submit Q L alloc page_size uuid k l stack_size s)) = pl_running s"
  using running_dispatch [where L = L, OF assms]
  by (auto simp: submit_def co_new_def co_ready_def co_state_of_def push_ready_def Let_def)

lemma pool_grow_cases:
  fixes s :: "('q, 'd, 'k, 'l, 'li, 'i, 'b, 'e, 'v, 'w) pool_scheme"
  assumes "\<And>l co s. pl_running (L l (On_create co) s) = pl_running (s :: ('q, 'd, 'k, 'l, 'li, 'i, 'b, 'e, 'v, 'w) pool_scheme)"
  shows "if \<not> should_grow \<or> pool_is_empty T s \<or> pl_running s \<ge> pl_max_size s
    then pool_grow T Q L alloc page_size uuid worker l should_grow s = (Ok (), s)
    else pl_running (snd (pool_grow T Q L alloc page_size uuid worker l should_grow s)) =
      pl_running s + (if is_ok (fst (pool_grow T Q L alloc page_size uuid worker l should_grow s)) then 1 else 0)"
proof (cases "\<not> should_grow \<or> pool_is_empty T s \<or> pl_running s \<ge> pl_max_size s")
  case True
  then show ?thesis by (auto simp: pool_grow_def pool_get_running_size_def pool_get_max_size_def)
next
  case False
  obtain r s1 where sub: "submit Q L alloc page_size uuid (worker (fst (now s))) l None (snd (now s)) = (r, s1)" by force
  have "pl_running s1 = pl_running (snd (now s))"
    using running_submit [where L = L, OF assms, of Q alloc page_size uuid "worker (fst (now s))" l None "snd (now s)"] sub
    by simp
  also have "\<dots> = pl_running s" by (simp add: now_def)
  finally have run: "pl_running s1 = pl_running s" .
  from False have "pool_grow T Q L alloc page_size uuid worker l should_grow s =
      (case r of Ok _ \<Rightarrow> (Ok (), s1\<lparr>pl_running := pl_running s1 + 1\<rparr>) | Err e \<Rightarrow> (Err (Sched_error e), s1) | Panic m \<Rightarrow> (Panic m, s1))"
    using sub by (cases r) (auto simp: pool_grow_def pool_get_running_size_def pool_get_max_size_def case_prod_beta)
  with run show ?thesis unfolding if_not_P [OF False] by (cases r) auto
qed

text \<open>
  C26: The number of workers never exceeds the maximum. A pool grows only while tasks are pending and fewer workers
  than the maximum run, by exactly one worker; in all other cases \<open>grow\<close> changes nothing. (Listeners do not touch the
  count when a coroutine is created.)
\<close>

theorem grow_bounded:
  fixes s :: "('q, 'd, 'k, 'l, 'li, 'i, 'b, 'e, 'v, 'w) pool_scheme"
  assumes "\<And>l co s. pl_running (L l (On_create co) s) = pl_running (s :: ('q, 'd, 'k, 'l, 'li, 'i, 'b, 'e, 'v, 'w) pool_scheme)"
    and "pl_running s \<le> pl_max_size s"
    and "pool_grow T Q L alloc page_size uuid worker l should_grow s = (r, s')"
  shows "pl_running s' \<le> pl_max_size s \<and>
    (s' = s \<or> should_grow \<and> \<not> pool_is_empty T s \<and> pl_running s < pl_max_size s \<and>
      unat (pl_running s') = unat (pl_running s) + (if is_ok r then 1 else 0))"
proof (cases "\<not> should_grow \<or> pool_is_empty T s \<or> pl_running s \<ge> pl_max_size s")
  case True
  with pool_grow_cases [where L = L, OF assms(1), of should_grow T s Q alloc page_size uuid worker l] assms(2,3)
  show ?thesis by simp
next
  case False
  then have lt: "pl_running s < pl_max_size s" by auto
  have "unat (pl_running s) + 1 \<le> unat (pl_max_size s)" using lt by (simp add: word_less_nat_alt)
  moreover have "unat (pl_max_size s) < 2 ^ 64" using unsigned_less [of "pl_max_size s", where ?'a = nat] by simp
  ultimately have inc: "unat (pl_running s + 1) = unat (pl_running s) + 1" "pl_running s + 1 \<le> pl_max_size s"
    by (simp_all add: unat_word_ariths word_le_nat_alt)
  have "pl_running s' = pl_running s + (if is_ok r then 1 else 0)"
    using pool_grow_cases [where L = L, OF assms(1), of should_grow T s Q alloc page_size uuid worker l] assms(3) False
    by (simp split: if_splits)
  with inc lt False show ?thesis by (cases "is_ok r") auto
qed

definition counting_queue :: "(unit, (unit, unit) sched_co) queue_ops" where
  "counting_queue = \<lparr>q_push_back = (\<lambda>c q. q), q_pop_front = (\<lambda>q. Some (None, q)), q_len = (\<lambda>q. 0), q_is_empty = (\<lambda>q. True)\<rparr>"

theorem grow_bounded_witness:
  "\<exists>s'. pool_grow list_task_queue counting_queue (\<lambda>l e s. s) (\<lambda>n. True) 4096 ''u'' (\<lambda>t. ()) () True
       (ref_pool Pool_Created [task_new ''t'' 2 None] [] [] 1) = (Ok (), s') \<and> pl_running s' = 2 \<and> pl_running s' \<le> 4"
proof -
  let ?s = "ref_pool Pool_Created [task_new ''t'' 2 None] [] [] 1"
  obtain s' where g: "pool_grow list_task_queue counting_queue (\<lambda>l e s. s) (\<lambda>n. True) 4096 ''u'' (\<lambda>t. ()) () True ?s = (Ok (), s')"
    and run: "pl_running s' = 2"
    by (simp add: pool_grow_def pool_is_empty_def pool_size_def list_task_queue_def ref_pool_def pool_get_running_size_def
        pool_get_max_size_def submit_def co_new_def co_ready_def co_state_of_def push_ready_def dispatch_def now_def Let_def
        word_le_nat_alt)
  have le: "pl_running ?s \<le> pl_max_size ?s" by (simp add: ref_pool_def)
  show ?thesis
    using grow_bounded [where L = "\<lambda>l e s. s", OF refl le g] g run by (simp add: ref_pool_def)
qed

subsection \<open>Scheduling and stopping\<close>

lemma pool_schedule_busy:
  "pl_scheduling s \<Longrightarrow>
     pool_try_timeout_schedule T Q D L f alloc page_size uuid worker l timeout_time s =
       Some (Ok (saturating_sub timeout_time (fst (now s))), snd (now s))"
  by (simp add: pool_try_timeout_schedule_def case_prod_beta)

lemma pool_schedule_unlocks:
  assumes "\<not> pl_scheduling s"
    and "pool_try_timeout_schedule T Q D L f alloc page_size uuid worker l timeout_time s = Some (r, s')"
    and "\<forall>m. r \<noteq> Panic m"
  shows "\<not> pl_scheduling s'"
  using assms unfolding pool_try_timeout_schedule_def Let_def
  by (auto split: prod.splits outcome.splits option.splits)

lemma pool_schedule_alloc_fails:
  assumes "\<not> pl_scheduling s" "\<not> stopping (pl_state s)" "\<not> pool_is_empty T s" "pl_running s < pl_max_size s" "\<And>n. \<not> alloc n"
  shows "\<exists>s'. pool_try_timeout_schedule T Q D L f alloc page_size uuid worker l timeout_time s =
    Some (Err (Sched_error Stack_alloc), s') \<and> COROUTINE_POOL s' = sc_name s # COROUTINE_POOL s"
proof -
  let ?s = "pool_init_current (s\<lparr>pl_scheduling := True\<rparr>)"
  have "submit Q L alloc page_size uuid k l None v = (Err Stack_alloc, v)" for k v
    using assms(5) by (simp add: submit_def co_new_def)
  moreover have "\<not> pool_is_empty T ?s" "\<not> pool_get_max_size ?s \<le> pool_get_running_size ?s"
    using assms(3,4) by (simp_all add: pool_is_empty_def pool_size_def pool_init_current_def pool_get_max_size_def
        pool_get_running_size_def)
  ultimately have "pool_grow T Q L alloc page_size uuid worker l True ?s = (Err (Sched_error Stack_alloc), snd (now ?s))"
    by (simp add: pool_grow_def case_prod_beta)
  moreover have "\<not> stopping (pool_get_state ?s)"
    using assms(2) by (simp add: pool_get_state_def pool_init_current_def)
  ultimately show ?thesis
    using assms(1) by (simp add: pool_try_timeout_schedule_def Let_def now_def pool_init_current_def pool_name_def)
qed

text \<open>
  C28: Only one thread schedules a pool. While it is being scheduled, a second call touches nothing but the clock and answers
  with the time left. A call that schedules gives the lock back on every return, with a result or an error; after a
  result the stack of current pools is as it was before when coroutines and listeners leave it alone, but when
  creating a worker fails, the pool stays on that stack.
\<close>
theorem pool_schedule_lock:
  assumes "pool_try_timeout_schedule T Q D L f alloc page_size uuid worker l timeout_time s = Some (r, s')"
  shows "if pl_scheduling s then r = Ok (saturating_sub timeout_time (fst (now s))) \<and> s' = snd (now s)
    else ((\<forall>m. r \<noteq> Panic m) \<longrightarrow> \<not> pl_scheduling s') \<and>
      (\<not> stopping (pl_state s) \<and> \<not> pool_is_empty T s \<and> pl_running s < pl_max_size s \<and> (\<forall>n. \<not> alloc n) \<longrightarrow>
        r = Err (Sched_error Stack_alloc) \<and> COROUTINE_POOL s' = sc_name s # COROUTINE_POOL s)"
proof (cases "pl_scheduling s")
  case True
  with assms show ?thesis unfolding pool_schedule_busy [OF True] by simp
next
  case False
  have "(\<forall>m. r \<noteq> Panic m) \<longrightarrow> \<not> pl_scheduling s'"
    using pool_schedule_unlocks [OF False assms] by blast
  moreover have "r = Err (Sched_error Stack_alloc) \<and> COROUTINE_POOL s' = sc_name s # COROUTINE_POOL s"
    if c: "\<not> stopping (pl_state s)" "\<not> pool_is_empty T s" "pl_running s < pl_max_size s" "\<forall>n. \<not> alloc n"
  proof -
    have na: "\<And>n. \<not> alloc n" using c(4) by blast
    obtain v where "Some (r, s') = Some (Err (Sched_error Stack_alloc), v)" "COROUTINE_POOL v = sc_name s # COROUTINE_POOL s"
      using pool_schedule_alloc_fails [OF False c(1-3), where alloc = alloc, OF na] unfolding assms [symmetric] by blast
    then show ?thesis by simp
  qed
  ultimately show ?thesis using False by simp
qed

definition no_map :: "(unit, string, (unit, unit) sched_co) dash_ops" where
  "no_map = \<lparr>dm_new = (), dm_insert = (\<lambda>k v d. (None, d)), dm_get = (\<lambda>k d. None), dm_remove = (\<lambda>k d. (None, d)),
     dm_len = (\<lambda>d. 0)\<rparr>"

definition returns_at_once :: "(unit, unit, unit, unit, unit, ref_pool) user_fn" where
  "returns_at_once arg k co s = (Returns (), k, co, s)"

theorem pool_schedule_lock_witness:
  "pool_try_timeout_schedule list_task_queue counting_queue no_map (\<lambda>l e s. s) returns_at_once (\<lambda>n. False) 4096 ''u''
     (\<lambda>t. ()) () 100 ((ref_pool Pool_Running [] [] [] 1)\<lparr>pl_scheduling := True\<rparr>) =
   Some (Ok 90, (ref_pool Pool_Running [] [] [] 1)\<lparr>pl_scheduling := True, reads := 2\<rparr>)"
proof -
  let ?s = "(ref_pool Pool_Running [] [] [] 1)\<lparr>pl_scheduling := True\<rparr>"
  have busy: "pl_scheduling ?s" by simp
  obtain r s' where run: "pool_try_timeout_schedule list_task_queue counting_queue no_map (\<lambda>l e s. s) returns_at_once
      (\<lambda>n. False) 4096 ''u'' (\<lambda>t. ()) () 100 ?s = Some (r, s')"
    unfolding pool_schedule_busy [OF busy] by blast
  from pool_schedule_lock [OF run] run show ?thesis
    by (simp add: ref_pool_def now_def u64_try_from_def saturating_sub_def word_less_nat_alt)
qed

definition stop_post where
  "stop_post T x \<longleftrightarrow> (fst x = (Ok () :: (unit, pool_error) outcome) \<longrightarrow>
     pool_is_empty T (snd x) \<and> pl_running (snd x) = 0 \<and> pl_state (snd x) = Pool_Stopped)"

lemma stop_loop_post:
  assumes "stop_loop T schedule left s = Some x"
  shows "stop_post T x"
proof (rule stop_loop.raw_induct [OF _ assms, where P = "\<lambda>T schedule left s. stop_post T"], goal_cases)
  case (1 loop T schedule left s x)
  show ?case
  proof (cases "pool_try_timed_schedule schedule left s")
    case (Some y)
    obtain r s1 where y: "y = (r, s1)" by force
    with 1(2) Some show ?thesis
    proof (cases r)
      case (Ok left_time)
      show ?thesis
      proof (cases "pool_is_empty T s1 \<and> pool_get_running_size s1 = 0")
        case True
        with 1(2) Some y Ok show ?thesis
          by (auto simp: pool_change_state_def pool_is_empty_def pool_size_def pool_get_running_size_def stop_post_def
              split: if_splits)
      next
        case False
        then have "(if left_time = 0 then Some (Err Stop_timeout, s1) else loop T schedule (unat left_time) s1) = Some x"
          using 1(2) Some y Ok by (auto split: if_splits)
        with 1(1) [of T schedule "unat left_time" s1 x] show ?thesis by (auto simp: stop_post_def split: if_splits)
      qed
    qed (auto simp: stop_post_def)
  qed (use 1(2) in simp)
qed


text \<open>A schedule that finds nothing to do.\<close>

definition idle_schedule :: "(pool_error, ref_pool) schedule_fn" where
  "idle_schedule t s = Some (Ok 0, s)"

lemma idle_timed: "pool_try_timed_schedule idle_schedule 0 s = Some (Ok 0, s\<lparr>reads := Suc (reads s)\<rparr>)"
  by (simp add: pool_try_timed_schedule_def idle_schedule_def get_timeout_time_def u64_try_from_def now_def)

lemma stop_idle:
  "\<exists>s'. pool_stop list_task_queue idle_schedule (\<lambda>d s. s) 0 (ref_pool Pool_Created [] [] [] 0) = Some (Ok (), s')"
  by (subst pool_stop_def, subst stop_loop.simps)
    (simp add: idle_timed pool_get_state_def pool_change_state_def pool_is_empty_def pool_size_def
      pool_get_running_size_def list_task_queue_def ref_pool_def Let_def)


text \<open>
  A pool whose \<open>stop\<close> timed out cannot be stopped again: the second call does not wait any longer but fails its
  own assertion, whether the first one was of a pool with a thread or without.
\<close>

theorem stop_twice_panics:
  assumes "pl_state s = Pool_Stopping b" and "pool_try_timed_schedule schedule 0 s = Some (Ok left, s1)"
    and "pl_state s1 = pl_state s"
  shows "\<exists>s'. pool_stop T schedule others wait_time s = Some (Panic ''assertion failed: Created'', s')"
  using assms by (simp add: pool_stop_def pool_get_state_def pool_change_state_def Let_def)

theorem stop_twice_panics_witness:
  "\<exists>s'. pool_stop list_task_queue idle_schedule (\<lambda>d s. s) 1000 (ref_pool (Pool_Stopping False) [] [] [] 1) =
     Some (Panic ''assertion failed: Created'', s')"
proof -
  have st: "pl_state (ref_pool (Pool_Stopping False) [] [] [] 1) = Pool_Stopping False" by (simp add: ref_pool_def)
  show ?thesis by (rule stop_twice_panics [OF st idle_timed]) simp
qed

end
