(* ===== verification/Worker.thy ===== *)
theory Worker
  imports Pool SchedulingLoop
begin

text \<open>
  The coroutines a pool creates: the closure of \<open>grow\<close> as the function the scheduler resumes, and the pool's listeners.

  A worker runs in segments, from one suspension to the next. It suspends between two tasks (nothing to do), in the
  blocker, or wherever the function of the task it runs suspends, in the middle of \<open>try_run\<close>; \<open>worker_at\<close> names these
  places. Parameters: \<open>start\<close> and \<open>run\<close>, the functions of the tasks in segments, and \<open>block\<close>, what the pool's
  blocker does, with the answer whether it suspends the coroutine.
\<close>

subsection \<open>The loop of a worker\<close>

datatype 't worker_at =
    Looping u64
  | In_task u64 string 't
  | Blocked u64
  | Ended

text \<open>One step of the loop: \<open>Inl\<close> goes on in the same segment, \<open>Inr\<close> ends it; \<open>None\<close> when taking a task does not end.\<close>

definition worker_step where
  "worker_step T E V start run block k co s =
     (case k of
        Looping create_time \<Rightarrow>
          (if pool_current s = None then Some (Inr (Panics (Some ''current pool not found''), Ended, co, s))
           else case pool_pop T s of
             None \<Rightarrow> None
           | Some (Some t, s) \<Rightarrow> Some (Inl (In_task create_time (tk_name t) (start (tk_func t) (tk_param t)), co, s))
           | Some (None, s) \<Rightarrow>
               (case worker_idle create_time s of
                  (Exits, s) \<Rightarrow> Some (Inr (Returns (), Ended, co, s))
                | (Suspends, s) \<Rightarrow> Some (Inr (Yields (), Looping create_time, co, s))
                | (Blocks, s) \<Rightarrow>
                    (case block (pl_blocker s) (1000000 :: duration) s of
                       (True, s) \<Rightarrow> Some (Inr (Yields (), Blocked create_time, co, s))
                     | (False, s) \<Rightarrow> Some (Inl (Blocked create_time, co, s)))))
      | In_task create_time name t \<Rightarrow>
          (let (seg, t, co, s) = run t co s;
               finished = (\<lambda>result. case file_result E V name result s of
                   (Panic m, s) \<Rightarrow> Some (Inr (Panics (Some m), Ended, co, s))
                 | (_, s) \<Rightarrow> Some (Inl (Looping create_time, co, s\<lparr>pl_pop_fail_times := 0\<rparr>)))
           in case seg of
                Yields y \<Rightarrow> Some (Inr (Yields y, In_task create_time name t, co, s))
              | Returns v \<Rightarrow> finished (Ok v)
              | Panics m \<Rightarrow> finished (Err (case m of Some message \<Rightarrow> message | None \<Rightarrow> ''task failed without message'')))
      | Blocked create_time \<Rightarrow> Some (Inl (Looping create_time, co, s\<lparr>pl_pop_fail_times := 0\<rparr>))
      | Ended \<Rightarrow> Some (Inr (Returns (), Ended, co, s)))"

partial_function (option) iterate_steps :: "('x \<Rightarrow> ('x + 'r) option) \<Rightarrow> 'x \<Rightarrow> 'r option" where
  "iterate_steps step x =
     (case step x of None \<Rightarrow> None | Some (Inl x) \<Rightarrow> iterate_steps step x | Some (Inr r) \<Rightarrow> Some r)"

definition worker_run where
  "worker_run T E V start run block k co s =
     iterate_steps (\<lambda>(k, co, s). worker_step T E V start run block k co s) (k, co, s)"

text \<open>The function of a worker, for the workers whose segments end (a segment that does not end has no value).\<close>

definition worker_fn where
  "worker_fn T E V start run block arg k co s = the (worker_run T E V start run block k co s)"

text \<open>\<^verbatim>\<open>DelayBlocker\<close>, the blocker of the pools the event loops work with: in a coroutine it suspends for the given time.\<close>

definition delay_block where
  "delay_block b d s = (if suspender_current s = None then (False, s) else (True, delay_with d s))"

subsection \<open>The listeners of a pool\<close>

text \<open>
  \<open>creator\<close> is the listener \<open>init\<close> added, \<open>M\<close> what the other listeners do, \<open>fresh\<close> the suffix of the name of a worker that
  is created on an event. A worker that is created is announced to all listeners; the creator ignores that.
\<close>

definition pool_listener where
  "pool_listener T Q alloc page_size fresh local_default creator M l e s =
     (if l = creator
      then creator_on_event (pool_grow T Q (\<lambda>l. if l = creator then (\<lambda>e s. s) else M l) alloc page_size (fresh e s)
             Looping local_default True) e s
      else M l e s)"

lemma dispatch_cong:
  assumes "\<And>l s. L l e s = L' l e s"
  shows "dispatch L e s = dispatch L' e s"
  unfolding dispatch_def by (intro fold_cong) (auto simp: assms)

lemma submit_cong:
  assumes "\<And>l co s. L l (On_create co) s = L' l (On_create co) s"
  shows "submit Q L alloc page_size uuid k l stack_size s = submit Q L' alloc page_size uuid k l stack_size s"
  by (simp add: submit_eq Let_def dispatch_cong [where L = L and L' = L', OF assms])

lemma pool_grow_cong:
  assumes "\<And>l co s. L l (On_create co) s = L' l (On_create co) s"
  shows "pool_grow T Q L alloc page_size uuid worker l g = pool_grow T Q L' alloc page_size uuid worker l g"
  by (rule ext) (simp add: pool_grow_def submit_cong [where L = L and L' = L', OF assms])

text \<open>So the creator may as well be told of the workers it creates.\<close>

lemma pool_grow_listener:
  "pool_grow T Q (pool_listener T Q alloc page_size fresh local_default creator M) alloc page_size uuid Looping local_default g =
     pool_grow T Q (\<lambda>l. if l = creator then (\<lambda>e s. s) else M l) alloc page_size uuid Looping local_default g"
  by (rule pool_grow_cong) (simp add: pool_listener_def creator_on_event_def)

lemma pool_listener_rec:
  "pool_listener T Q alloc page_size fresh local_default creator M l e s =
     (if l = creator
      then creator_on_event (pool_grow T Q (pool_listener T Q alloc page_size fresh local_default creator M)
             alloc page_size (fresh e s) Looping local_default True) e s
      else M l e s)"
  by (simp add: pool_listener_def pool_grow_listener)

subsection \<open>Ending\<close>

text \<open>A loop ends with \<open>Post\<close> when every step keeps \<open>P\<close> and makes \<open>m\<close> smaller, or ends with \<open>Post\<close>.\<close>

lemma iterate_steps_rule:
  fixes m :: "'x \<Rightarrow> nat"
  assumes "P x"
    and "\<And>x. P x \<Longrightarrow> (\<exists>x'. step x = Some (Inl x') \<and> P x' \<and> m x' < m x) \<or> (\<exists>r. step x = Some (Inr r) \<and> Post r)"
  shows "\<exists>r. iterate_steps step x = Some r \<and> Post r"
  using assms(1)
proof (induction "m x" arbitrary: x rule: less_induct)
  case less
  from assms(2) [OF less.prems] show ?case
  proof
    assume "\<exists>x'. step x = Some (Inl x') \<and> P x' \<and> m x' < m x"
    then obtain x' where "step x = Some (Inl x')" "P x'" "m x' < m x" by blast
    with less.hyps [of x'] show ?thesis by (subst iterate_steps.simps) simp
  next
    assume "\<exists>r. step x = Some (Inr r) \<and> Post r"
    then show ?thesis by (subst iterate_steps.simps) auto
  qed
qed

end
