(* ===== verification/WorkerSpec.thy ===== *)
theory WorkerSpec
  imports Worker PoolClaims
begin

text \<open>
  What is asked of the tasks of a pool, of its blocker and of the other listeners, as the locale \<open>pool_worker\<close>, and that
  under these terms the workers and the listener that creates them keep the contract of the scheduling loop.
\<close>

subsection \<open>Operations that leave the scheduler alone\<close>

definition quiet :: "('q, 'd, 'k, 'l, 'li, 'w) sched_scheme \<Rightarrow> ('q, 'd, 'k, 'l, 'li, 'w) sched_scheme \<Rightarrow> bool" where
  "quiet s s' \<longleftrightarrow> same_places s s' \<and> advances s s' \<and> COROUTINE_POOL s' = COROUTINE_POOL s \<and> SUSPENDER s' = SUSPENDER s"

lemma quiet_refl [simp]: "quiet s s"
  by (simp add: quiet_def same_places_def)

lemma quiet_trans: "quiet s s' \<Longrightarrow> quiet s' s'' \<Longrightarrow> quiet s s''"
  by (auto simp: quiet_def same_places_def advances_def)

lemma quiet_pool_fields [simp]:
  "quiet s (s\<lparr>pl_task_queue := q\<rparr>)" "quiet s (s\<lparr>pl_results := e\<rparr>)" "quiet s (s\<lparr>pl_waits := v\<rparr>)"
  "quiet s (s\<lparr>pl_running := n\<rparr>)" "quiet s (s\<lparr>pl_pop_fail_times := n\<rparr>)" "quiet s (snd (now s))"
  by (simp_all add: quiet_def same_places_def advances_def now_def)

lemma quiet_worker_idle: "worker_idle ct s = (turn, s') \<Longrightarrow> quiet s s'"
  by (auto simp: worker_idle_def Let_def quiet_def same_places_def advances_def now_def split: if_splits)

lemma quiet_file_result:
  assumes "file_result E V name result s = (r, s')"
  shows "quiet s s' \<and> pl_task_queue s' = pl_task_queue s"
  using assms by (auto simp: file_result_def notify_def Let_def quiet_def same_places_def advances_def
      split: prod.splits option.splits if_splits)

text \<open>Of the client's fields, only the number of workers differs.\<close>

definition but_running :: "('q, 'd, 'k, 'l, 'li, 'i, 'b, 'e, 'v, 'w) pool_scheme
    \<Rightarrow> ('q, 'd, 'k, 'l, 'li, 'i, 'b, 'e, 'v, 'w) pool_scheme \<Rightarrow> bool" where
  "but_running s s' \<longleftrightarrow> same_client (s\<lparr>pl_running := 0\<rparr>) (s'\<lparr>pl_running := 0\<rparr>)"

lemma but_running_refl [simp]: "but_running s s"
  by (simp add: but_running_def)

lemma but_running_trans: "but_running s s' \<Longrightarrow> but_running s' s'' \<Longrightarrow> but_running s s''"
  unfolding but_running_def by (rule same_client_trans)

lemma same_client_but_running: "same_client s s' \<Longrightarrow> but_running s s'"
  by (cases s; cases s') (simp add: same_client_def but_running_def)

lemma but_running_update [simp]: "but_running s (s\<lparr>pl_running := n\<rparr>)"
  by (simp add: but_running_def)

lemma but_running_fields:
  assumes "but_running s s'"
  shows "pl_task_queue s' = pl_task_queue s" "pl_results s' = pl_results s" "pl_waits s' = pl_waits s"
    "COROUTINE_POOL s' = COROUTINE_POOL s" "sc_name s' = sc_name s" "pl_scheduling s' = pl_scheduling s"
    "pl_state s' = pl_state s" "sc_listeners s' = sc_listeners s" "pl_max_size s' = pl_max_size s"
  using assms by (cases s; cases s'; simp add: same_client_def but_running_def)+

subsection \<open>The contract\<close>

text \<open>
  A pool and what it works with: the blocker suspends the coroutine that waits on it, the other listeners leave the
  scheduler and the pool alone, and the name of a new worker is new. Workers between two tasks are not in a system call.
\<close>

locale pool_setting = scheduler Q q_items q_inv D look dok okk + task_queue T contents contention
  for Q :: "('q, ('t worker_at, 'l) sched_co) queue_ops" and q_items :: "'q \<Rightarrow> ('t worker_at, 'l) sched_co multiset"
    and q_inv :: "'q \<Rightarrow> bool" and D :: "('d, string, ('t worker_at, 'l) sched_co) dash_ops"
    and look :: "'d \<Rightarrow> string \<rightharpoonup> ('t worker_at, 'l) sched_co" and dok :: "'d \<Rightarrow> bool"
    and okk :: "'t worker_at \<Rightarrow> bool \<Rightarrow> bool"
    and T :: "('i, 'f task) task_queue_ops" and contents :: "'i \<Rightarrow> 'f task list" and contention :: "'i \<Rightarrow> nat" +
  fixes E :: "('e, string, task_result) dash_ops" and V :: "('v, string, bool) dash_ops"
    and start :: "'f \<Rightarrow> usize option \<Rightarrow> 't"
    and run :: "'t \<Rightarrow> ('t worker_at, 'l) sched_co \<Rightarrow> ('q, 'd, 't worker_at, 'l, 'li, 'i, 'b, 'e, 'v, 'w) pool_scheme
      \<Rightarrow> (unit, usize option) segment \<times> 't \<times> ('t worker_at, 'l) sched_co
         \<times> ('q, 'd, 't worker_at, 'l, 'li, 'i, 'b, 'e, 'v, 'w) pool_scheme"
    and block :: "'b \<Rightarrow> duration \<Rightarrow> ('q, 'd, 't worker_at, 'l, 'li, 'i, 'b, 'e, 'v, 'w) pool_scheme
      \<Rightarrow> bool \<times> ('q, 'd, 't worker_at, 'l, 'li, 'i, 'b, 'e, 'v, 'w) pool_scheme"
    and alloc :: "nat \<Rightarrow> bool" and page_size :: nat
    and fresh :: "('t worker_at, 'l) event \<Rightarrow> ('q, 'd, 't worker_at, 'l, 'li, 'i, 'b, 'e, 'v, 'w) pool_scheme \<Rightarrow> string"
    and local_default :: 'l and creator :: 'li
    and M :: "('t worker_at, 'l, 'li, ('q, 'd, 't worker_at, 'l, 'li, 'i, 'b, 'e, 'v, 'w) pool_scheme) listener_fn"
  assumes between: "okk (Looping ct) b = (\<not> b)" "okk (Blocked ct) b = (\<not> b)" "\<not> okk Ended b"
    and blocker: "suspender_current s \<noteq> None \<Longrightarrow> \<exists>s'. block bl d s = (True, s') \<and> quiet s s' \<and> same_client s s'"
    and others: "same_places s (M l e s)" "same_client s (M l e s)" "advances s (M l e s)"
    and fresh_name: "sched_inv q_items q_inv look dok okk s {#co_name (event_co e)#} \<Longrightarrow>
      sc_name s @ ''|'' @ fresh e s \<notin># add_mset (co_name (event_co e)) (names q_items look s)"
begin

lemma quiet_inv: "quiet s s' \<Longrightarrow> sinv s R \<Longrightarrow> sinv s' R \<and> nms s' = nms s"
  by (simp add: quiet_def inv_same_places same_places_own)

text \<open>Creating a worker.\<close>

abbreviation told :: "('t worker_at, 'l, 'li, ('q, 'd, 't worker_at, 'l, 'li, 'i, 'b, 'e, 'v, 'w) pool_scheme) listener_fn" where
  "told \<equiv> \<lambda>l. if l = creator then (\<lambda>e s. s) else M l"

lemma creating_told: "creating Q q_items q_inv D look dok okk told (same_client s0)"
proof unfold_locales
  fix s :: "('q, 'd, 't worker_at, 'l, 'li, 'i, 'b, 'e, 'v, 'w) pool_scheme" and R l and co :: "('t worker_at, 'l) sched_co"
  assume i: "sinv s R" "same_client s0 s"
  have m: "same_places s (told l (On_create co) s)" "same_client s (told l (On_create co) s)" "advances s (told l (On_create co) s)"
    using others [of s l "On_create co"] by (simp_all add: same_places_def)
  show "sinv (told l (On_create co) s) R \<and> advances s (told l (On_create co) s) \<and>
      nms s \<subseteq># nms (told l (On_create co) s) \<and> same_client s0 (told l (On_create co) s)"
    using inv_same_places [OF i(1) m(1)] m(3) same_places_own [OF m(1)] same_client_trans [OF i(2) m(2)] by simp
next
  show "same_client s s' \<Longrightarrow> same_client s0 s \<Longrightarrow> same_client s0 s'"
    for s s' :: "('q, 'd, 't worker_at, 'l, 'li, 'i, 'b, 'e, 'v, 'w) pool_scheme"
    by (rule same_client_trans)
qed

lemma inv_add_name:
  assumes "sinv s R" "n \<notin># nms s + R"
  shows "sinv s (add_mset n R)"
proof -
  have "count (nms s + add_mset n R) x \<le> 1" for x
  proof (cases "x = n")
    case True
    with assms(2) show ?thesis by (simp add: not_in_iff)
  next
    case False
    have "count (nms s + R) x \<le> 1" using assms(1) unfolding sched_inv_def by blast
    with False show ?thesis by simp
  qed
  with assms(1) show ?thesis unfolding sched_inv_def by blast
qed

text \<open>When a worker is called for and a stack can be had, \<open>grow\<close> adds one that may run at once.\<close>

lemma grow_submits:
  assumes "sinv s R" "sc_name s @ ''|'' @ uuid \<notin># nms s + R" "alloc (max (sc_stack_size s) page_size)"
    and want: "\<not> pool_is_empty T s" "pl_running s < pl_max_size s"
  shows "\<exists>s2. pool_grow T Q told alloc page_size uuid Looping local_default True s = (Ok (), s2\<lparr>pl_running := pl_running s2 + 1\<rparr>) \<and>
    sinv s2 R \<and> advances s s2 \<and> nms s \<subseteq># nms s2 \<and> same_client s s2 \<and> q_items (sc_ready s2) \<noteq> {#}"
proof -
  let ?s = "snd (now s)" and ?k = "Looping (fst (now s)) :: 't worker_at"
  have n: "nms ?s = nms s" by (simp add: same_places_own [OF same_places_now])
  have i: "sinv ?s (add_mset (sc_name ?s @ ''|'' @ uuid) R)" "same_client s ?s"
    using inv_add_name [OF inv_now [OF assms(1)]] assms(2) n by simp_all
  have al: "alloc (max (case None of Some n \<Rightarrow> n | None \<Rightarrow> sc_stack_size ?s) page_size)"
    using assms(3) by (simp add: now_def)
  have k: "okk ?k False" by (simp add: between)
  obtain s2 where s2: "submit Q told alloc page_size uuid ?k local_default None ?s = (Ok (), s2)" "sinv s2 R"
    "same_client s s2" "advances ?s s2" "add_mset (sc_name ?s @ ''|'' @ uuid) (nms ?s) \<subseteq># nms s2" "q_items (sc_ready s2) \<noteq> {#}"
    using creating.submit_spec [OF creating_told i k, where alloc = alloc, OF al] by blast
  have "nms s \<subseteq># nms s2" using subset_mset.order_trans [OF _ s2(5) [unfolded n], of "nms s"] by simp
  with s2 want advances_trans [OF advances_now s2(4)] show ?thesis
    by (auto simp: pool_grow_def case_prod_beta pool_get_running_size_def pool_get_max_size_def)
qed

lemma grow_ok:
  assumes "\<And>n. alloc n"
  shows "fst (pool_grow T Q L alloc page_size uuid worker local_default g s) = Ok ()"
  using assms by (simp add: pool_grow_def submit_eq case_prod_beta Let_def)

lemma grow_spec:
  fixes g :: bool
  assumes "sinv s R" "sc_name s @ ''|'' @ uuid \<notin># nms s + R"
  defines "r \<equiv> pool_grow T Q told alloc page_size uuid Looping local_default g s"
  shows "sinv (snd r) R \<and> advances s (snd r) \<and> nms s \<subseteq># nms (snd r) \<and> but_running s (snd r) \<and>
    (fst r = Ok () \<or> fst r = Err (Sched_error Stack_alloc))"
proof (cases "g \<and> \<not> pool_is_empty T s \<and> pl_running s < pl_max_size s")
  case False
  then show ?thesis
    using assms(1) by (auto simp: r_def not_less pool_grow_def pool_get_running_size_def pool_get_max_size_def)
next
  case grows: True
  show ?thesis
  proof (cases "alloc (max (sc_stack_size s) page_size)")
    case True
    then obtain s2 where r: "r = (Ok (), s2\<lparr>pl_running := pl_running s2 + 1\<rparr>)" and s2: "sinv s2 R" "advances s s2"
      "nms s \<subseteq># nms s2" "but_running s s2"
      using grow_submits [OF assms(1,2) True] grows same_client_but_running unfolding r_def by auto
    have "quiet s2 (snd r)" "but_running s2 (snd r)" by (simp_all add: r)
    with quiet_inv [OF _ s2(1), of "snd r"] s2 but_running_trans [OF s2(4)] show ?thesis
      by (auto simp: r quiet_def intro: advances_trans)
  next
    case na: False
    let ?s = "snd (now s)"
    have "submit Q told alloc page_size uuid k local_default None ?s = (Err Stack_alloc, ?s)" for k
      using na by (simp add: submit_eq now_def)
    then have "r = (Err (Sched_error Stack_alloc), ?s)"
      using grows by (auto simp: r_def pool_grow_def case_prod_beta pool_get_running_size_def pool_get_max_size_def)
    with inv_now [OF assms(1)] same_places_own [OF same_places_now, of s] same_client_but_running [OF same_client_fields(9)]
    show ?thesis by simp
  qed
qed

text \<open>The listeners of the pool.\<close>

abbreviation listeners :: "('t worker_at, 'l, 'li, ('q, 'd, 't worker_at, 'l, 'li, 'i, 'b, 'e, 'v, 'w) pool_scheme) listener_fn" where
  "listeners \<equiv> pool_listener T Q alloc page_size fresh local_default creator M"

lemma listener_spec:
  assumes "sinv s R" "is_create e \<or> R = {#co_name (event_co e)#}"
  shows "sinv (listeners l e s) R \<and> advances s (listeners l e s) \<and> nms s \<subseteq># nms (listeners l e s) \<and>
    but_running s (listeners l e s)"
proof (cases "l = creator \<and> pool_current s \<noteq> None \<and> \<not> is_create e")
  case True
  then have R: "R = {#co_name (event_co e)#}" using assms(2) by blast
  have fr: "sc_name s @ ''|'' @ fresh e s \<notin># nms s + R" using fresh_name [of s e] assms(1) R by simp
  let ?s = "s\<lparr>pl_running := pl_running s - 1\<rparr>"
  have q: "sinv ?s R" "nms ?s = nms s" "advances s ?s"
    using quiet_inv [OF quiet_pool_fields(4) assms(1)] by (simp_all add: advances_def)
  have fr1: "sc_name ?s @ ''|'' @ fresh e s \<notin># nms ?s + R" using fr q(2) by simp
  note g = grow_spec [OF assms(1) fr, of True] and g1 = grow_spec [OF q(1) fr1, of True]
  have g1': "advances s (snd (pool_grow T Q told alloc page_size (fresh e s) Looping local_default True ?s))"
    "but_running s (snd (pool_grow T Q told alloc page_size (fresh e s) Looping local_default True ?s))"
    using g1 advances_trans [OF q(3)] but_running_trans [OF but_running_update] by blast+
  show ?thesis
    using True g g1 g1' q(2) assms(1)
    by (cases e) (simp_all add: pool_listener_def creator_on_event_def is_create_def)
next
  case False
  then have "listeners l e s = s \<or> listeners l e s = M l e s"
    by (auto simp: pool_listener_def creator_on_event_def is_create_def)
  then show ?thesis
    using assms(1) inv_same_places [OF assms(1) others(1)] same_places_own [OF others(1)] others(3)
      same_client_but_running [OF others(2)] by auto
qed

text \<open>
  Scheduling the pool, for any terms \<open>I\<close> and \<open>J\<close> on which its scheduler can be run and that do not depend on the number
  of workers: the call returns and gives the lock back; when time is left and there was a task and room for a
  worker, some coroutine has run.
\<close>

lemma pool_schedule_spec:
  assumes sch: "scheduling Q q_items q_inv D look dok okk listeners f I J failing"
    and IJ: "\<forall>s s'. but_running s s' \<longrightarrow> (I s \<longrightarrow> I s') \<and> (J s \<longrightarrow> J s')"
    and s: "\<not> pl_scheduling s" "sinv s {#}" "sc_name s @ ''|'' @ uuid \<notin># nms s" "unat timeout_time \<le> clk s K"
    and start: "I (pool_init_current (s\<lparr>pl_scheduling := True\<rparr>))" and alloc: "\<And>n. alloc n"
  shows "\<exists>left s1. pool_try_timeout_schedule T Q D listeners f alloc page_size uuid Looping local_default timeout_time s =
      Some (Ok left, (pool_clean_current s1)\<lparr>pl_scheduling := False\<rparr>) \<and> sinv s1 {#} \<and> I s1 \<and> SCHEDULER s1 = SCHEDULER s \<and>
    (J (pool_init_current (s\<lparr>pl_scheduling := True\<rparr>)) \<or> ready_queue_quiet Q q_items q_inv \<and> left \<noteq> 0 \<and>
      \<not> stopping (pl_state s) \<and> \<not> pool_is_empty T s \<and> pl_running s < pl_max_size s \<longrightarrow> J s1)"
proof -
  define s0 where "s0 = pool_init_current (s\<lparr>pl_scheduling := True\<rparr>)"
  have q: "same_places s s0" "advances s s0"
    by (simp_all add: s0_def pool_init_current_def same_places_def advances_def)
  have i: "sinv s0 {#}" "sc_name s0 @ ''|'' @ uuid \<notin># nms s0 + {#}"
    using inv_same_places [OF s(2) q(1)] same_places_own [OF q(1)] s(3) by (simp_all add: s0_def pool_init_current_def)
  have f0: "pool_is_empty T s0 = pool_is_empty T s" "pl_running s0 = pl_running s" "pl_max_size s0 = pl_max_size s"
    "pool_get_state s0 = pl_state s"
    by (simp_all add: s0_def pool_init_current_def pool_is_empty_def pool_size_def pool_get_state_def)
  obtain rg sg where grown: "pool_grow T Q told alloc page_size uuid Looping local_default (\<not> stopping (pl_state s)) s0 = (rg, sg)"
    by force
  have g: "sinv sg {#}" "advances s0 sg" "but_running s0 sg" "rg = Ok () \<or> rg = Err (Sched_error Stack_alloc)"
    using grow_spec [OF i, of "\<not> stopping (pl_state s)"] grown by simp_all
  have ok: "rg = Ok ()"
    using grow_ok [OF alloc, of told uuid Looping "\<not> stopping (pl_state s)" s0] grown by simp
  have a: "advances s sg" by (rule advances_trans [OF q(2) g(2)])
  have Ig: "I sg" using IJ g(3) start unfolding s0_def by blast
  from a have K: "unat timeout_time \<le> clk sg K" using s(4) by (simp add: advances_def)
  obtain left s1 where s1: "try_timeout_schedule Q D listeners f timeout_time sg = Some (Ok left, s1)" "sinv s1 {#}"
    "SCHEDULER s1 = SCHEDULER sg" "I s1" "unat left \<le> unat timeout_time - unat (fst (now sg))"
    "J s0 \<or> runs_one Q D timeout_time (scheduler_init_current sg) \<longrightarrow> J s1"
    using scheduling.try_timeout_schedule_spec [OF sch g(1) Ig K] IJ g(3) by blast
  have "J s1" if "ready_queue_quiet Q q_items q_inv" "left \<noteq> 0" "\<not> stopping (pl_state s)" "\<not> pool_is_empty T s"
    "pl_running s < pl_max_size s"
  proof -
    have "\<not> pool_is_empty T s0" "pl_running s0 < pl_max_size s0" using that f0 by simp_all
    with grow_submits [OF i alloc] grown that(3) have "q_items (sc_ready sg) \<noteq> {#}" by auto
    then have r: "q_items (sc_ready (scheduler_init_current sg)) \<noteq> {#}" by (simp add: scheduler_init_current_def)
    have "unat left \<noteq> 0" using that(2) by (simp add: unat_eq_zero)
    then have t: "fst (now (scheduler_init_current sg)) < timeout_time"
      using s1(5) by (simp add: word_less_nat_alt scheduler_init_current_def now_def)
    have "sinv (scheduler_init_current sg) {#}" using g(1) by (simp add: scheduler_init_current_def)
    from runs_oneI [OF that(1) this r t] s1(6) show ?thesis by blast
  qed
  moreover have "SCHEDULER s1 = SCHEDULER s" using s1(3) a by (simp add: advances_def)
  moreover have "pool_try_timeout_schedule T Q D listeners f alloc page_size uuid Looping local_default timeout_time s =
      Some (Ok left, (pool_clean_current s1)\<lparr>pl_scheduling := False\<rparr>)"
    using s(1) grown ok s1(1) f0(4)
    by (simp add: pool_try_timeout_schedule_def s0_def [symmetric] pool_grow_listener Let_def)
  ultimately show ?thesis using s1(2,4,6) unfolding s0_def by blast
qed

end

text \<open>
  A task's function keeps the scheduler's invariant, comes back on the stacks it found, follows the state machine of
  coroutines, and, when it ends, has not left more tasks in the pool than there were.
\<close>

locale pool_worker = pool_setting Q q_items q_inv D look dok okk T contents contention E V start run block alloc page_size
    fresh local_default creator M
  for Q :: "('q, ('t worker_at, 'l) sched_co) queue_ops" and q_items q_inv
    and D :: "('d, string, ('t worker_at, 'l) sched_co) dash_ops" and look dok okk
    and T :: "('i, 'f task) task_queue_ops" and contents contention
    and E :: "('e, string, task_result) dash_ops" and V :: "('v, string, bool) dash_ops" and start
    and run :: "'t \<Rightarrow> ('t worker_at, 'l) sched_co \<Rightarrow> ('q, 'd, 't worker_at, 'l, 'li, 'i, 'b, 'e, 'v, 'w) pool_scheme
      \<Rightarrow> (unit, usize option) segment \<times> 't \<times> ('t worker_at, 'l) sched_co
         \<times> ('q, 'd, 't worker_at, 'l, 'li, 'i, 'b, 'e, 'v, 'w) pool_scheme"
    and block alloc page_size fresh local_default creator M +
  assumes task: "sched_inv q_items q_inv look dok okk s {#co_name co#} \<Longrightarrow> suspender_current s = Some (co_name co) \<Longrightarrow>
      co_state co = Running \<or> is_syscall (co_state co) \<and> (\<exists>ct n. okk (In_task ct n t) True) \<Longrightarrow> run t co s = (seg, t', co', s') \<Longrightarrow>
      sched_inv q_items q_inv look dok okk s' {#co_name co#} \<and> advances s s' \<and>
      names q_items look s \<subseteq># names q_items look s' \<and> co_name co' = co_name co \<and>
      COROUTINE_POOL s' = COROUTINE_POOL s \<and> SUSPENDER s' = SUSPENDER s \<and>
      (case seg of
         Yields _ \<Rightarrow> (co_state co' = Running \<or> is_syscall (co_state co')) \<and>
           (\<forall>ct n. okk (In_task ct n t') (is_syscall (co_state co')))
       | _ \<Rightarrow> co_state co' = Running \<and> length (contents (pl_task_queue s')) \<le> length (contents (pl_task_queue s)))"
begin

text \<open>How the state has changed since a segment began; the coroutine's name is \<open>n\<close>.\<close>

definition along :: "string \<Rightarrow> ('q, 'd, 't worker_at, 'l, 'li, 'i, 'b, 'e, 'v, 'w) pool_scheme
    \<Rightarrow> ('q, 'd, 't worker_at, 'l, 'li, 'i, 'b, 'e, 'v, 'w) pool_scheme \<Rightarrow> bool" where
  "along n s0 s \<longleftrightarrow> sinv s {#n#} \<and> advances s0 s \<and> nms s0 \<subseteq># nms s \<and> COROUTINE_POOL s = COROUTINE_POOL s0 \<and>
     SUSPENDER s = SUSPENDER s0"

lemma along_quiet:
  assumes "along n s0 s" "quiet s s'"
  shows "along n s0 s'"
  using assms quiet_inv [OF assms(2), of "{#n#}"] by (auto simp: along_def quiet_def intro: advances_trans)

definition at_place :: "'t worker_at \<Rightarrow> ('t worker_at, 'l) sched_co \<Rightarrow> bool" where
  "at_place k co \<longleftrightarrow> (case k of
       In_task ct n t \<Rightarrow> co_state co = Running \<or> is_syscall (co_state co) \<and> (\<exists>ct n. okk (In_task ct n t) True)
     | Ended \<Rightarrow> False | _ \<Rightarrow> co_state co = Running)"

definition tasks_left :: "'t worker_at \<Rightarrow> ('q, 'd, 't worker_at, 'l, 'li, 'i, 'b, 'e, 'v, 'w) pool_scheme \<Rightarrow> nat" where
  "tasks_left k s = 2 * length (contents (pl_task_queue s)) +
     (case k of Looping _ \<Rightarrow> 0 | In_task _ _ _ \<Rightarrow> 1 | Blocked _ \<Rightarrow> 1 | Ended \<Rightarrow> 0)"

text \<open>What holds when a segment ends.\<close>

definition segment_post where
  "segment_post n s0 r \<longleftrightarrow> (case r of (seg, k', co', s') \<Rightarrow>
     along n s0 s' \<and> co_name co' = n \<and>
     (case seg of Yields _ \<Rightarrow> (co_state co' = Running \<or> is_syscall (co_state co')) \<and> okk k' (is_syscall (co_state co'))
      | _ \<Rightarrow> co_state co' = Running))"

text \<open>Every step of a worker goes on with fewer tasks left, or ends the segment.\<close>

lemma worker_idle_step:
  assumes "contents (pl_task_queue s) = []" "along n s0 s" "suspender_current s0 \<noteq> None" "pool_current s \<noteq> None"
    "co_name co = n" "co_state co = Running"
  shows "\<exists>r. worker_step T E V start run block (Looping ct) co s = Some (Inr r) \<and> segment_post n s0 r"
proof -
  obtain i where i: "pool_pop T s = Some (None, s\<lparr>pl_task_queue := i\<rparr>)" "contents i = []"
    using pool_pop_spec [of s] assms(1) by auto
  obtain turn s1 where w: "worker_idle ct (s\<lparr>pl_task_queue := i\<rparr>) = (turn, s1)" by force
  have a1: "along n s0 s1"
    by (rule along_quiet [OF along_quiet [OF assms(2)] quiet_worker_idle [OF w]]) simp
  have "suspender_current s1 \<noteq> None" using a1 assms(3) by (simp add: along_def suspender_current_def)
  then obtain s2 where b: "block (pl_blocker s1) 1000000 s1 = (True, s2)" "quiet s1 s2" using blocker by blast
  have a2: "along n s0 s2" by (rule along_quiet [OF a1 b(2)])
  show ?thesis
    using a1 a2 i(1) w b(1) assms(4-6) between
    by (cases turn) (auto simp: worker_step_def segment_post_def)
qed

lemma worker_pop_step:
  assumes "contents (pl_task_queue s) = t # ts" "along n s0 s" "pool_current s \<noteq> None" "co_state co = Running"
  shows "\<exists>k' s'. worker_step T E V start run block (Looping ct) co s = Some (Inl (k', co, s')) \<and> along n s0 s' \<and>
    at_place k' co \<and> tasks_left k' s' < tasks_left (Looping ct) s"
proof -
  obtain i where i: "pool_pop T s = Some (Some t, s\<lparr>pl_task_queue := i\<rparr>)" "contents i = ts"
    using pool_pop_spec [of s] assms(1) by auto
  have "along n s0 (s\<lparr>pl_task_queue := i\<rparr>)" by (rule along_quiet [OF assms(2)]) simp
  with i assms(1,3,4) show ?thesis by (simp add: worker_step_def at_place_def tasks_left_def)
qed

lemma worker_task_step:
  assumes "along n s0 s" "suspender_current s0 = Some n" "co_name co = n"
    "co_state co = Running \<or> is_syscall (co_state co) \<and> (\<exists>ct n. okk (In_task ct n t) True)"
  shows "(\<exists>k' co' s'. worker_step T E V start run block (In_task ct name t) co s = Some (Inl (k', co', s')) \<and> along n s0 s' \<and>
      co_name co' = n \<and> at_place k' co' \<and> tasks_left k' s' < tasks_left (In_task ct name t) s) \<or>
    (\<exists>r. worker_step T E V start run block (In_task ct name t) co s = Some (Inr r) \<and> segment_post n s0 r)"
proof -
  obtain seg t' co1 s1 where r: "run t co s = (seg, t', co1, s1)" by (metis prod_cases4)
  have pre: "sinv s {#co_name co#}" "suspender_current s = Some (co_name co)"
    using assms(1-3) by (simp_all add: along_def suspender_current_def)
  note c = task [OF pre assms(4) r]
  have a1: "along n s0 s1"
    using c assms(1,3) unfolding along_def by (auto intro: advances_trans subset_mset.trans)
  have finished: "?thesis" if "worker_step T E V start run block (In_task ct name t) co s =
      (case file_result E V name result s1 of
         (Panic m, s) \<Rightarrow> Some (Inr (Panics (Some m), Ended, co1, s))
       | (_, s) \<Rightarrow> Some (Inl (Looping ct, co1, s\<lparr>pl_pop_fail_times := 0\<rparr>)))"
    "co_state co1 = Running" "length (contents (pl_task_queue s1)) \<le> length (contents (pl_task_queue s))" for result
  proof -
    obtain r2 s2 where f: "file_result E V name result s1 = (r2, s2)" by force
    have q: "quiet s1 s2" "pl_task_queue s2 = pl_task_queue s1" using quiet_file_result [OF f] by blast+
    have a: "along n s0 s2" "along n s0 (s2\<lparr>pl_pop_fail_times := 0\<rparr>)"
      using along_quiet [OF a1 q(1)] along_quiet [OF along_quiet [OF a1 q(1)] quiet_pool_fields(5)] by blast+
    show ?thesis
      using that a c f q(2) assms(3)
      by (cases r2) (auto simp: at_place_def tasks_left_def segment_post_def)
  qed
  show ?thesis
  proof (cases seg)
    case (Yields y)
    with a1 c r assms(3) show ?thesis by (intro disjI2) (simp add: worker_step_def segment_post_def)
  next
    case (Returns v)
    with c r show ?thesis by (intro finished [of "Ok v"]) (simp_all add: worker_step_def Let_def)
  next
    case (Panics m)
    with c r show ?thesis
      by (intro finished [of "Err (case m of Some message \<Rightarrow> message | None \<Rightarrow> ''task failed without message'')"])
        (simp_all add: worker_step_def Let_def)
  qed
qed

text \<open>So every segment of a worker ends, with the scheduler's contract kept.\<close>

lemma worker_segment_ends:
  assumes "sinv s {#co_name co#}" "pool_current s \<noteq> None" "suspender_current s = Some (co_name co)"
    "co_state co = Running \<or> is_syscall (co_state co)" "okk k (is_syscall (co_state co))"
  shows "\<exists>r. worker_run T E V start run block k co s = Some r \<and> segment_post (co_name co) s r"
  unfolding worker_run_def
proof (rule iterate_steps_rule [where m = "\<lambda>(k, co, s). tasks_left k s"
      and P = "\<lambda>(k, co', s'). along (co_name co) s s' \<and> co_name co' = co_name co \<and> at_place k co'"])
  have "at_place k co" using assms(4,5) by (cases k) (simp_all add: at_place_def between, metis)
  then show "case (k, co, s) of (k, co', s') \<Rightarrow> along (co_name co) s s' \<and> co_name co' = co_name co \<and> at_place k co'"
    using assms(1) by (simp add: along_def)
next
  fix x :: "'t worker_at \<times> ('t worker_at, 'l) sched_co \<times> ('q, 'd, 't worker_at, 'l, 'li, 'i, 'b, 'e, 'v, 'w) pool_scheme"
  let ?P = "\<lambda>(k, co', s'). along (co_name co) s s' \<and> co_name co' = co_name co \<and> at_place k co'"
  let ?step = "\<lambda>(k, co, s). worker_step T E V start run block k co s" let ?m = "\<lambda>(k, co, s). tasks_left k s"
  obtain k co' s' where x: "x = (k, co', s')" by (metis prod_cases3)
  assume "?P x"
  then have P: "along (co_name co) s s'" "co_name co' = co_name co" "at_place k co'" by (simp_all add: x)
  have pc: "pool_current s' \<noteq> None" using P(1) assms(2) by (simp add: along_def pool_current_def)
  have sus: "suspender_current s \<noteq> None" using assms(3) by simp
  show "(\<exists>x'. ?step x = Some (Inl x') \<and> ?P x' \<and> ?m x' < ?m x) \<or> (\<exists>r. ?step x = Some (Inr r) \<and> segment_post (co_name co) s r)"
  proof (cases k)
    case (Looping ct)
    then have run: "co_state co' = Running" using P(3) by (simp add: at_place_def)
    show ?thesis
    proof (cases "contents (pl_task_queue s')")
      case Nil
      with worker_idle_step [OF Nil P(1) sus pc P(2) run] x Looping show ?thesis by auto
    next
      case (Cons t ts)
      from worker_pop_step [OF Cons P(1) pc run, of ct] P(2) show ?thesis unfolding x Looping by auto
    qed
  next
    case (In_task ct name t)
    then have st: "co_state co' = Running \<or> is_syscall (co_state co') \<and> (\<exists>ct n. okk (In_task ct n t) True)" using P(3) by (simp add: at_place_def)
    from worker_task_step [OF P(1) assms(3) P(2) st] show ?thesis unfolding x In_task by auto
  next
    case (Blocked ct)
    have "along (co_name co) s (s'\<lparr>pl_pop_fail_times := 0\<rparr>)" by (rule along_quiet [OF P(1)]) simp
    with P Blocked x show ?thesis by (simp add: worker_step_def at_place_def tasks_left_def)
  qed (use P(3) in \<open>simp add: at_place_def\<close>)
qed

lemma workers_scheduling:
  assumes "st \<noteq> []"
  shows "scheduling Q q_items q_inv D look dok okk listeners (worker_fn T E V start run block)
     (\<lambda>s. COROUTINE_POOL s = st) (\<lambda>s. COROUTINE_POOL s = st) True"
proof unfold_locales
  fix s :: "('q, 'd, 't worker_at, 'l, 'li, 'i, 'b, 'e, 'v, 'w) pool_scheme" and R l
    and e :: "('t worker_at, 'l) event"
  assume "COROUTINE_POOL s = st"
  then have *: "sinv (listeners l e s) R \<and> advances s (listeners l e s) \<and> nms s \<subseteq># nms (listeners l e s) \<and>
      COROUTINE_POOL (listeners l e s) = st" if "sinv s R" "is_create e \<or> R = {#co_name (event_co e)#}" for R
    using listener_spec [OF that, of l] but_running_fields(4) [of s "listeners l e s"] by simp
  show "sinv s R \<Longrightarrow> is_create e \<or> R = {#co_name (event_co e)#} \<Longrightarrow> sinv (listeners l e s) R \<and> advances s (listeners l e s) \<and>
      nms s \<subseteq># nms (listeners l e s) \<and> COROUTINE_POOL (listeners l e s) = st" by (rule *)
  show "sinv s {#co_name (event_co e)#} \<Longrightarrow> sinv (listeners l e s) {#co_name (event_co e)#} \<and> advances s (listeners l e s) \<and>
      nms s \<subseteq># nms (listeners l e s) \<and> COROUTINE_POOL (listeners l e s) = st" by (rule *) simp_all
next
  fix s s' :: "('q, 'd, 't worker_at, 'l, 'li, 'i, 'b, 'e, 'v, 'w) pool_scheme" and co co' :: "('t worker_at, 'l) sched_co"
    and k k' seg
  assume i: "sinv s {#co_name co#}" "COROUTINE_POOL s = st" "suspender_current s = Some (co_name co)"
    "co_state co = Running \<or> is_syscall (co_state co)" "okk k (is_syscall (co_state co))"
    and f: "worker_fn T E V start run block () k co s = (seg, k', co', s')"
  have "pool_current s \<noteq> None" using i(2) assms by (cases st) (simp_all add: pool_current_def front_def)
  from worker_segment_ends [OF i(1) this i(3-5)] f have "segment_post (co_name co) s (seg, k', co', s')"
    by (auto simp: worker_fn_def)
  then show "sinv s' {#co_name co#} \<and> advances s s' \<and> nms s \<subseteq># nms s' \<and> co_name co' = co_name co \<and>
      COROUTINE_POOL s' = st \<and>
      (case seg of Yields _ \<Rightarrow> (co_state co' = Running \<or> is_syscall (co_state co')) \<and> okk k' (is_syscall (co_state co'))
       | Returns _ \<Rightarrow> co_state co' = Running | Panics _ \<Rightarrow> co_state co' = Running \<and> True)"
    using i(2) by (cases seg) (simp_all add: segment_post_def along_def)
qed (simp_all add: same_client_def)

lemma pool_returns:
  assumes "\<not> pl_scheduling s" "sinv s {#}" "sc_name s @ ''|'' @ uuid \<notin># nms s" "unat timeout_time \<le> clk s K"
    and "\<And>n. alloc n"
  shows "\<exists>left s'. pool_try_timeout_schedule T Q D listeners (worker_fn T E V start run block) alloc page_size uuid Looping
      local_default timeout_time s = Some (Ok left, s') \<and> sinv s' {#} \<and> \<not> pl_scheduling s' \<and>
    COROUTINE_POOL s' = COROUTINE_POOL s \<and> SCHEDULER s' = SCHEDULER s"
proof -
  let ?st = "pool_name s # COROUTINE_POOL s"
  have st: "?st \<noteq> []" by simp
  have IJ: "\<forall>s s' :: ('q, 'd, 't worker_at, 'l, 'li, 'i, 'b, 'e, 'v, 'w) pool_scheme. but_running s s' \<longrightarrow>
      (COROUTINE_POOL s = ?st \<longrightarrow> COROUTINE_POOL s' = ?st) \<and> (COROUTINE_POOL s = ?st \<longrightarrow> COROUTINE_POOL s' = ?st)"
    by (simp add: but_running_fields(4))
  have "COROUTINE_POOL (pool_init_current (s\<lparr>pl_scheduling := True\<rparr>)) = ?st"
    by (simp add: pool_init_current_def pool_name_def)
  note spec = pool_schedule_spec [where I = "\<lambda>s. COROUTINE_POOL s = ?st" and J = "\<lambda>s. COROUTINE_POOL s = ?st",
      OF workers_scheduling [OF st] IJ assms(1-4) this assms(5)]
  obtain left s1 where run: "pool_try_timeout_schedule T Q D listeners (worker_fn T E V start run block) alloc page_size uuid Looping
      local_default timeout_time s = Some (Ok left, (pool_clean_current s1)\<lparr>pl_scheduling := False\<rparr>)"
    and s1: "sinv s1 {#}" "COROUTINE_POOL s1 = ?st" "SCHEDULER s1 = SCHEDULER s"
    using spec by blast
  have "same_places s1 ((pool_clean_current s1)\<lparr>pl_scheduling := False\<rparr>)"
    by (simp add: pool_clean_current_def same_places_def)
  with run s1 inv_same_places [OF s1(1)] show ?thesis by (simp add: pool_clean_current_def)
qed

end

end
