(* ===== verification/WorkerClaims.thy ===== *)
theory WorkerClaims
  imports WorkerSpec
begin

text \<open>
  What the workers of a pool achieve: scheduling a pool whose tasks run in their workers returns and keeps its books, and
  tasks that run to their end are all run, each result filed under the name of its task.
\<close>

subsection \<open>Pools whose tasks do not suspend\<close>

locale task_pool = pool_setting Q q_items q_inv D look dok okk T contents contention E V start run block alloc page_size
    fresh local_default creator M + em: dash_map E elook eok
  for Q :: "('q, ('t worker_at, 'l) sched_co) queue_ops" and q_items q_inv
    and D :: "('d, string, ('t worker_at, 'l) sched_co) dash_ops" and look dok okk
    and T :: "('i, 'f task) task_queue_ops" and contents contention
    and E :: "('e, string, task_result) dash_ops" and V :: "('v, string, bool) dash_ops" and start
    and run :: "'t \<Rightarrow> ('t worker_at, 'l) sched_co \<Rightarrow> ('q, 'd, 't worker_at, 'l, 'li, 'i, 'b, 'e, 'v, 'w) pool_scheme
      \<Rightarrow> (unit, usize option) segment \<times> 't \<times> ('t worker_at, 'l) sched_co
         \<times> ('q, 'd, 't worker_at, 'l, 'li, 'i, 'b, 'e, 'v, 'w) pool_scheme"
    and block alloc page_size fresh local_default creator M and elook eok +
  fixes fin :: "'t \<Rightarrow> task_end"
  assumes at_once: "run t co s = (case fin t of Gives v \<Rightarrow> Returns v | Panicked m \<Rightarrow> Panics m, t, co, s)"
    and only_between: "\<not> okk (In_task ct n t) b"

sublocale task_pool \<subseteq> pool_worker
  by unfold_locales (auto simp: at_once only_between split: task_end.splits)

text \<open>Running tasks changes neither the state of the pool nor the number of its workers.\<close>

definition unmoved :: "('q, 'd, 'k, 'l, 'li, 'i, 'b, 'e, 'v, 'w) pool_scheme
    \<Rightarrow> ('q, 'd, 'k, 'l, 'li, 'i, 'b, 'e, 'v, 'w) pool_scheme \<Rightarrow> bool" where
  "unmoved s s' \<longleftrightarrow> pl_state s' = pl_state s \<and> pl_running s' = pl_running s"

lemma unmoved_trans: "unmoved s s' \<Longrightarrow> unmoved s' s'' \<Longrightarrow> unmoved s s''"
  by (simp add: unmoved_def)

text \<open>A worker that finds no task in a stopping pool ends.\<close>

definition retired where
  "retired s seg s' \<longleftrightarrow> pl_state s' = pl_state s \<and>
     (stopping (pl_state s) \<longrightarrow> seg = Returns () \<and> pl_running s' = saturating_sub (pl_running s) 1)"

lemma retired_unmoved: "unmoved s0 s \<Longrightarrow> retired s seg s' \<Longrightarrow> retired s0 seg s'"
  by (simp add: unmoved_def retired_def)

context task_pool
begin

text \<open>What is still to be filed when a worker is at \<open>k\<close>.\<close>

abbreviation outcome_of :: "'f \<Rightarrow> usize option \<Rightarrow> task_end" where
  "outcome_of \<equiv> \<lambda>f p. fin (start f p)"

definition pending :: "'t worker_at \<Rightarrow> ('q, 'd, 't worker_at, 'l, 'li, 'i, 'b, 'e, 'v, 'w) pool_scheme \<Rightarrow> (string \<times> task_result) list" where
  "pending k s = (case k of In_task _ n t \<Rightarrow> [(n, result_of (fin t))] | _ \<Rightarrow> []) @ due outcome_of (contents (pl_task_queue s))"

definition books :: "string list \<Rightarrow> (string \<rightharpoonup> task_result) \<Rightarrow> (string \<times> task_result) list
    \<Rightarrow> ('q, 'd, 't worker_at, 'l, 'li, 'i, 'b, 'e, 'v, 'w) pool_scheme \<Rightarrow> bool" where
  "books st whole ps s \<longleftrightarrow> COROUTINE_POOL s = st \<and> eok (pl_results s) \<and> accounted whole ps (elook (pl_results s))"

lemma books_frame:
  assumes "books st whole ps s" "COROUTINE_POOL s' = COROUTINE_POOL s" "pl_results s' = pl_results s"
  shows "books st whole ps s'"
  using assms by (simp add: books_def)

lemma file_result_books:
  assumes "books st whole ((n, r) # ps) s"
  shows "\<exists>s'. file_result E V n r s = (Ok (), s') \<and> books st whole ps s' \<and> SUSPENDER s' = SUSPENDER s \<and>
    pl_task_queue s' = pl_task_queue s \<and> unmoved s s'"
proof -
  have e: "eok (pl_results s)" "accounted whole ((n, r) # ps) (elook (pl_results s))"
    using assms by (simp_all add: books_def)
  note f = accounted_file [OF e(2)]
  let ?s = "s\<lparr>pl_results := snd (dm_insert E n r (pl_results s))\<rparr>"
  have "file_result E V n r s = (Ok (), notify V n ?s)"
    using f(1) em.insert_old [OF e(1), of n r] by (simp add: file_result_def case_prod_beta Let_def)
  moreover have "books st whole ps (notify V n ?s)"
    using assms f(2) em.insert_ok [OF e(1), of n r] em.insert_look [OF e(1), of n r]
    by (simp add: books_def notify_def split: option.splits)
  ultimately show ?thesis by (simp add: notify_def unmoved_def split: option.splits)
qed

text \<open>A worker that finds no task ends its segment and leaves the results alone.\<close>

lemma worker_idle_drained:
  assumes "contents (pl_task_queue s) = []" "suspender_current s \<noteq> None" "pool_current s \<noteq> None"
  shows "\<exists>seg k' co' s'. worker_step T E V start run block (Looping ct) co s = Some (Inr (seg, k', co', s')) \<and>
    COROUTINE_POOL s' = COROUTINE_POOL s \<and> pl_results s' = pl_results s \<and> contents (pl_task_queue s') = [] \<and> retired s seg s'"
proof -
  obtain i where i: "pool_pop T s = Some (None, s\<lparr>pl_task_queue := i\<rparr>)" "contents i = []"
    using pool_pop_spec [of s] assms(1) by auto
  obtain turn s1 where w: "worker_idle ct (s\<lparr>pl_task_queue := i\<rparr>) = (turn, s1)" by force
  have s1: "COROUTINE_POOL s1 = COROUTINE_POOL s" "pl_results s1 = pl_results s" "pl_task_queue s1 = i" "SUSPENDER s1 = SUSPENDER s"
    "pl_state s1 = pl_state s" "stopping (pl_state s) \<Longrightarrow> turn = Exits \<and> pl_running s1 = saturating_sub (pl_running s) 1"
    using w by (auto simp: worker_idle_def Let_def now_def pool_get_state_def pool_get_running_size_def split: if_splits)
  then have "suspender_current s1 \<noteq> None" using assms(2) by (simp add: suspender_current_def)
  then obtain s2 where b: "block (pl_blocker s1) 1000000 s1 = (True, s2)" "same_client s1 s2" using blocker by blast
  have "COROUTINE_POOL s2 = COROUTINE_POOL s" "pl_results s2 = pl_results s" "pl_task_queue s2 = i" "pl_state s2 = pl_state s"
    using but_running_fields [OF same_client_but_running [OF b(2)]] s1 by simp_all
  with s1 i w b(1) assms(3) show ?thesis by (cases turn) (auto simp: worker_step_def retired_def)
qed

text \<open>A worker that takes a task, and one that runs it.\<close>

lemma worker_takes:
  assumes "contents (pl_task_queue s) = t # ts" "books st whole (pending (Looping ct) s) s" "pool_current s \<noteq> None"
  shows "\<exists>k' s'. worker_step T E V start run block (Looping ct) co s = Some (Inl (k', co, s')) \<and>
    books st whole (pending k' s') s' \<and> SUSPENDER s' = SUSPENDER s \<and> k' \<noteq> Ended \<and> tasks_left k' s' < tasks_left (Looping ct) s \<and> unmoved s s'"
proof -
  obtain i where i: "pool_pop T s = Some (Some t, s\<lparr>pl_task_queue := i\<rparr>)" "contents i = ts"
    using pool_pop_spec [of s] assms(1) by auto
  with assms show ?thesis by (simp add: worker_step_def pending_def books_def tasks_left_def unmoved_def)
qed

lemma worker_runs_task:
  assumes "books st whole (pending (In_task ct n t) s) s"
  shows "\<exists>s'. worker_step T E V start run block (In_task ct n t) co s = Some (Inl (Looping ct, co, s')) \<and>
    books st whole (pending (Looping ct) s') s' \<and> SUSPENDER s' = SUSPENDER s \<and>
    tasks_left (Looping ct) s' < tasks_left (In_task ct n t) s \<and> unmoved s s'"
proof -
  have "books st whole ((n, result_of (fin t)) # due outcome_of (contents (pl_task_queue s))) s"
    using assms by (simp add: pending_def)
  from file_result_books [OF this] obtain s' where s': "file_result E V n (result_of (fin t)) s = (Ok (), s')"
    "books st whole (due outcome_of (contents (pl_task_queue s))) s'" "SUSPENDER s' = SUSPENDER s" "pl_task_queue s' = pl_task_queue s"
    "unmoved s s'"
    by blast
  have "worker_step T E V start run block (In_task ct n t) co s = Some (Inl (Looping ct, co, s'\<lparr>pl_pop_fail_times := 0\<rparr>))"
    using s'(1) by (cases "fin t") (simp_all add: worker_step_def at_once result_of_def)
  with s' show ?thesis by (simp add: pending_def tasks_left_def books_def unmoved_def)
qed

text \<open>A worker that is resumed between two tasks runs all tasks there are before it suspends or ends.\<close>

lemma worker_drains:
  assumes "books st whole (pending k s0) s0" "st \<noteq> []" "suspender_current s0 \<noteq> None" "k \<noteq> Ended"
  shows "\<exists>r. worker_run T E V start run block k co s0 = Some r \<and>
    (case r of (seg, k', co', s') \<Rightarrow> books st whole [] s' \<and> contents (pl_task_queue s') = [] \<and> retired s0 seg s')"
  unfolding worker_run_def
proof (rule iterate_steps_rule [where m = "\<lambda>(k, co, s). tasks_left k s"
      and P = "\<lambda>(k, co, s'). books st whole (pending k s') s' \<and> suspender_current s' \<noteq> None \<and> k \<noteq> Ended \<and> unmoved s0 s'"])
  show "case (k, co, s0) of (k, co, s') \<Rightarrow> books st whole (pending k s') s' \<and> suspender_current s' \<noteq> None \<and> k \<noteq> Ended \<and> unmoved s0 s'"
    using assms by (simp add: unmoved_def)
next
  fix x :: "'t worker_at \<times> ('t worker_at, 'l) sched_co \<times> ('q, 'd, 't worker_at, 'l, 'li, 'i, 'b, 'e, 'v, 'w) pool_scheme"
  let ?P = "\<lambda>(k, co, s'). books st whole (pending k s') s' \<and> suspender_current s' \<noteq> None \<and> k \<noteq> Ended \<and> unmoved s0 s'"
  let ?step = "\<lambda>(k, co, s). worker_step T E V start run block k co s" let ?m = "\<lambda>(k, co, s). tasks_left k s"
  let ?Post = "\<lambda>(seg, k', co', s'). books st whole [] s' \<and> contents (pl_task_queue s') = [] \<and> retired s0 seg s'"
  obtain k co s where x: "x = (k, co, s)" by (metis prod_cases3)
  assume "?P x"
  then have P: "books st whole (pending k s) s" "suspender_current s \<noteq> None" "k \<noteq> Ended" "unmoved s0 s" by (simp_all add: x)
  have pc: "pool_current s \<noteq> None" using P(1) assms(2) by (cases st) (simp_all add: books_def pool_current_def front_def)
  have sus: "SUSPENDER s' = SUSPENDER s \<Longrightarrow> suspender_current s' \<noteq> None"
    for s' :: "('q, 'd, 't worker_at, 'l, 'li, 'i, 'b, 'e, 'v, 'w) pool_scheme"
    using P(2) by (simp add: suspender_current_def)
  show "(\<exists>x'. ?step x = Some (Inl x') \<and> ?P x' \<and> ?m x' < ?m x) \<or> (\<exists>r. ?step x = Some (Inr r) \<and> ?Post r)"
  proof (cases k)
    case (Looping ct)
    show ?thesis
    proof (cases "contents (pl_task_queue s)")
      case Nil
      obtain seg k' co' s' where w: "?step x = Some (Inr (seg, k', co', s'))" "COROUTINE_POOL s' = COROUTINE_POOL s"
        "pl_results s' = pl_results s" "contents (pl_task_queue s') = []" "retired s seg s'"
        using worker_idle_drained [OF Nil P(2) pc, of ct co] unfolding x Looping by auto
      have "books st whole [] s" using P(1) Nil Looping by (simp add: pending_def)
      from w books_frame [OF this w(2,3)] retired_unmoved [OF P(4) w(5)] show ?thesis by auto
    next
      case (Cons t ts)
      from worker_takes [OF Cons P(1) [unfolded Looping] pc, of co] sus unmoved_trans [OF P(4)] show ?thesis unfolding x Looping by force
    qed
  next
    case (In_task ct n t)
    from worker_runs_task [OF P(1) [unfolded In_task], of co] sus unmoved_trans [OF P(4)] show ?thesis unfolding x In_task by force
  next
    case (Blocked ct)
    with P x show ?thesis by (simp add: worker_step_def pending_def tasks_left_def books_def suspender_current_def unmoved_def)
  qed (use P(3) in simp)
qed

text \<open>The terms on which the scheduler of such a pool runs: the books stay balanced, and who has run has done all there was.\<close>

definition balanced_books :: "string list \<Rightarrow> (string \<rightharpoonup> task_result)
    \<Rightarrow> ('q, 'd, 't worker_at, 'l, 'li, 'i, 'b, 'e, 'v, 'w) pool_scheme \<Rightarrow> bool" where
  "balanced_books st whole s \<longleftrightarrow> books st whole (due outcome_of (contents (pl_task_queue s))) s"

definition all_done :: "string list \<Rightarrow> (string \<rightharpoonup> task_result)
    \<Rightarrow> ('q, 'd, 't worker_at, 'l, 'li, 'i, 'b, 'e, 'v, 'w) pool_scheme \<Rightarrow> bool" where
  "all_done st whole s \<longleftrightarrow> books st whole [] s \<and> contents (pl_task_queue s) = []"

lemma books_but_running:
  assumes "but_running s s'"
  shows "balanced_books st whole s \<Longrightarrow> balanced_books st whole s'" "all_done st whole s \<Longrightarrow> all_done st whole s'"
  using but_running_fields [OF assms] by (simp_all add: balanced_books_def all_done_def books_def)

lemma books_pool_current: "balanced_books st whole s \<Longrightarrow> st \<noteq> [] \<Longrightarrow> pool_current s \<noteq> None"
  by (cases st) (simp_all add: balanced_books_def books_def pool_current_def front_def)

lemma tasks_scheduling:
  assumes "st \<noteq> []"
  shows "scheduling Q q_items q_inv D look dok okk listeners (worker_fn T E V start run block)
     (balanced_books st whole) (all_done st whole) True"
proof unfold_locales
  fix s :: "('q, 'd, 't worker_at, 'l, 'li, 'i, 'b, 'e, 'v, 'w) pool_scheme" and R l
    and e :: "('t worker_at, 'l) event"
  show "sinv s R \<Longrightarrow> balanced_books st whole s \<Longrightarrow> is_create e \<or> R = {#co_name (event_co e)#} \<Longrightarrow> sinv (listeners l e s) R \<and>
      advances s (listeners l e s) \<and> nms s \<subseteq># nms (listeners l e s) \<and> balanced_books st whole (listeners l e s)"
    using listener_spec [of s R e l] books_but_running(1) by blast
  show "sinv s {#co_name (event_co e)#} \<Longrightarrow> all_done st whole s \<Longrightarrow> sinv (listeners l e s) {#co_name (event_co e)#} \<and>
      advances s (listeners l e s) \<and> nms s \<subseteq># nms (listeners l e s) \<and> all_done st whole (listeners l e s)"
    using listener_spec [of s "{#co_name (event_co e)#}" e l] books_but_running(2) by blast
next
  fix s s' :: "('q, 'd, 't worker_at, 'l, 'li, 'i, 'b, 'e, 'v, 'w) pool_scheme" and co co' :: "('t worker_at, 'l) sched_co"
    and k k' seg
  assume i: "sinv s {#co_name co#}" "balanced_books st whole s" "suspender_current s = Some (co_name co)"
    "co_state co = Running \<or> is_syscall (co_state co)" "okk k (is_syscall (co_state co))"
    and f: "worker_fn T E V start run block () k co s = (seg, k', co', s')"
  have pc: "pool_current s \<noteq> None" by (rule books_pool_current [OF i(2) assms])
  have k: "k \<noteq> Ended" "pending k s = due outcome_of (contents (pl_task_queue s))"
    using i(5) by (cases k; simp add: pending_def between only_between)+
  from worker_segment_ends [OF i(1) pc i(3-5)] f have "segment_post (co_name co) s (seg, k', co', s')"
    by (auto simp: worker_fn_def)
  moreover have "all_done st whole s'"
    using worker_drains [of st whole k s co] i(2,3) k assms f by (auto simp: worker_fn_def balanced_books_def all_done_def)
  ultimately show "sinv s' {#co_name co#} \<and> advances s s' \<and> nms s \<subseteq># nms s' \<and> co_name co' = co_name co \<and>
      all_done st whole s' \<and>
      (case seg of Yields _ \<Rightarrow> (co_state co' = Running \<or> is_syscall (co_state co')) \<and> okk k' (is_syscall (co_state co'))
       | Returns _ \<Rightarrow> co_state co' = Running | Panics _ \<Rightarrow> co_state co' = Running \<and> True)"
    by (cases seg) (simp_all add: segment_post_def along_def)
next
  fix s s' :: "('q, 'd, 't worker_at, 'l, 'li, 'i, 'b, 'e, 'v, 'w) pool_scheme"
  assume "same_client s s'"
  then show "balanced_books st whole s \<Longrightarrow> balanced_books st whole s'" "all_done st whole s \<Longrightarrow> all_done st whole s'"
    by (auto intro: books_but_running [OF same_client_but_running])
qed (simp add: balanced_books_def all_done_def)

lemma books_open:
  assumes "eok (pl_results s)" and names: "distinct (map tk_name (contents (pl_task_queue s)))"
      "\<forall>t \<in> set (contents (pl_task_queue s)). elook (pl_results s) (tk_name t) = None"
  shows "balanced_books (pool_name s # COROUTINE_POOL s) (elook (pl_results s) ++ map_of (due outcome_of (contents (pl_task_queue s))))
    (pool_init_current (s\<lparr>pl_scheduling := True\<rparr>))"
proof -
  have fst_due: "map fst (due outcome_of ts) = map tk_name ts" for ts by (simp add: due_def comp_def)
  show ?thesis
    using assms unfolding balanced_books_def books_def accounted_def fst_due
    by (auto simp: pool_init_current_def due_def pool_name_def)
qed

lemma runs_all:
  assumes s: "\<not> pl_scheduling s" "sinv s {#}" "sc_name s @ ''|'' @ uuid \<notin># nms s" "unat timeout_time \<le> clk s K"
    and alloc: "\<And>n. alloc n" and "eok (pl_results s)"
    and names: "distinct (map tk_name (contents (pl_task_queue s)))"
      "\<forall>t \<in> set (contents (pl_task_queue s)). elook (pl_results s) (tk_name t) = None"
  shows "\<exists>left s'. pool_try_timeout_schedule T Q D listeners (worker_fn T E V start run block) alloc page_size uuid Looping
      local_default timeout_time s = Some (Ok left, s') \<and> sinv s' {#} \<and> \<not> pl_scheduling s' \<and> COROUTINE_POOL s' = COROUTINE_POOL s \<and>
    elook (pl_results s') ++ map_of (due outcome_of (contents (pl_task_queue s'))) =
      elook (pl_results s) ++ map_of (due outcome_of (contents (pl_task_queue s))) \<and>
    (ready_queue_quiet Q q_items q_inv \<and> left \<noteq> 0 \<and> \<not> stopping (pl_state s) \<and> pl_running s < pl_max_size s \<longrightarrow>
      contents (pl_task_queue s') = [])"
proof -
  define st where "st = pool_name s # COROUTINE_POOL s"
  define whole where "whole = elook (pl_results s) ++ map_of (due outcome_of (contents (pl_task_queue s)))"
  have st: "st \<noteq> []" by (simp add: st_def)
  have init: "balanced_books st whole (pool_init_current (s\<lparr>pl_scheduling := True\<rparr>))"
    unfolding st_def whole_def by (rule books_open [OF assms(6) names])
  note terms = pool_schedule_spec [where I = "balanced_books st whole" and J = "all_done st whole", OF tasks_scheduling [OF st] _ s init alloc]
  obtain left s1 where run: "pool_try_timeout_schedule T Q D listeners (worker_fn T E V start run block) alloc page_size uuid Looping
      local_default timeout_time s = Some (Ok left, (pool_clean_current s1)\<lparr>pl_scheduling := False\<rparr>)"
    and s1: "sinv s1 {#}" "balanced_books st whole s1" "all_done st whole (pool_init_current (s\<lparr>pl_scheduling := True\<rparr>)) \<or>
      ready_queue_quiet Q q_items q_inv \<and> left \<noteq> 0 \<and> \<not> stopping (pl_state s) \<and>
      \<not> pool_is_empty T s \<and> pl_running s < pl_max_size s \<longrightarrow> all_done st whole s1"
    using terms books_but_running by blast
  let ?s = "(pool_clean_current s1)\<lparr>pl_scheduling := False\<rparr>"
  have q: "same_places s1 ?s" "COROUTINE_POOL ?s = COROUTINE_POOL s" "pl_results ?s = pl_results s1" "pl_task_queue ?s = pl_task_queue s1"
    using s1(2) by (simp_all add: pool_clean_current_def same_places_def balanced_books_def books_def st_def)
  moreover have "contents (pl_task_queue s1) = []"
    if "ready_queue_quiet Q q_items q_inv" "left \<noteq> 0" "\<not> stopping (pl_state s)" "pl_running s < pl_max_size s"
    using s1(3) that init by (cases "pool_is_empty T s")
      (auto simp: pool_is_empty_def pool_size_def len_contents pool_init_current_def balanced_books_def all_done_def)
  ultimately show ?thesis
    using run inv_same_places [OF s1(1) q(1)] s1(2) unfolding balanced_books_def books_def accounted_def whole_def by auto
qed

end

subsection \<open>Claims about the workers of a pool\<close>

text \<open>
  C6: A call that schedules a pool returns, with \<^verbatim>\<open>Ok\<close>, once the clock has reached the timeout at the latest, whatever its tasks
  do as long as they keep to the rules of coroutines: the workers and the listener that creates them in between keep the scheduler's
  invariant, and afterwards the lock is free and the stacks of current pools and schedulers are as before.
\<close>

theorem pool_schedule_returns:
  fixes E :: "('e, string, task_result) dash_ops" and V :: "('v, string, bool) dash_ops"
  assumes "pool_worker Q q_items q_inv D look dok okk T contents contention run block fresh M"
    and "\<not> pl_scheduling s" and "sched_inv q_items q_inv look dok okk s {#}"
    and "sc_name s @ ''|'' @ uuid \<notin># names q_items look s" and "unat timeout_time \<le> clk s K" and "\<And>n. alloc n"
  shows "\<exists>left s'. pool_try_timeout_schedule T Q D (pool_listener T Q alloc page_size fresh local_default creator M)
      (worker_fn T E V start run block) alloc page_size uuid Looping local_default timeout_time s = Some (Ok left, s') \<and>
    sched_inv q_items q_inv look dok okk s' {#} \<and> \<not> pl_scheduling s' \<and>
    COROUTINE_POOL s' = COROUTINE_POOL s \<and> SCHEDULER s' = SCHEDULER s"
  using pool_worker.pool_returns [OF assms(1-5), where alloc = alloc, OF assms(6)] .

text \<open>
  C4: Scheduling a pool whose tasks run to their end loses none and runs none twice: afterwards every task is still in the queue or
  its result is filed under its name, beside the results there were. When the call returns with time left, the
  queue gives what it has, and the pool is neither stopping nor full of workers, all tasks have been run.
\<close>

theorem pool_runs_all_tasks:
  fixes E :: "('e, string, task_result) dash_ops" and V :: "('v, string, bool) dash_ops"
  assumes "task_pool Q q_items q_inv D look dok okk T contents contention E run block fresh M elook eok fin"
    and "\<not> pl_scheduling s" and "sched_inv q_items q_inv look dok okk s {#}"
    and "sc_name s @ ''|'' @ uuid \<notin># names q_items look s" and "unat timeout_time \<le> clk s K" and "\<And>n. alloc n"
    and "eok (pl_results s)" and "distinct (map tk_name (contents (pl_task_queue s)))"
    and "\<forall>t \<in> set (contents (pl_task_queue s)). elook (pl_results s) (tk_name t) = None"
  shows "\<exists>left s'. pool_try_timeout_schedule T Q D (pool_listener T Q alloc page_size fresh local_default creator M)
      (worker_fn T E V start run block) alloc page_size uuid Looping local_default timeout_time s = Some (Ok left, s') \<and>
    elook (pl_results s') ++ map_of (due (\<lambda>f p. fin (start f p)) (contents (pl_task_queue s'))) =
      elook (pl_results s) ++ map_of (due (\<lambda>f p. fin (start f p)) (contents (pl_task_queue s))) \<and>
    (ready_queue_quiet Q q_items q_inv \<and> left \<noteq> 0 \<and> \<not> stopping (pl_state s) \<and> pl_running s < pl_max_size s \<longrightarrow>
      contents (pl_task_queue s') = [])"
  using task_pool.runs_all [OF assms(1-5), where alloc = alloc, OF assms(6-9)] by blast

text \<open>
  C37: A worker ends only between two tasks and when there is no task left, and then either the pool is stopping, or the worker
  has lived for the keep-alive time and more workers run than the minimum; so, unless the pool is stopping, ending
  leaves at least the minimum running.
\<close>

theorem worker_exit_keeps_min:
  assumes "task_queue T contents contention" and "k \<noteq> Ended"
    and "worker_step T E V start run block k co s = Some (Inr (Returns (), k', co', s'))"
  shows "\<exists>create_time. k = Looping create_time \<and> contents (pl_task_queue s) = [] \<and> contents (pl_task_queue s') = [] \<and>
    unat (pl_running s') = unat (pl_running s) - 1 \<and>
    (\<not> stopping (pl_state s) \<longrightarrow> pl_min_size s \<le> pl_running s' \<and>
       pl_keep_alive_time s \<le> saturating_sub (fst (now s)) create_time)"
proof (cases k)
  case (Looping ct)
  show ?thesis
  proof (cases "contents (pl_task_queue s)")
    case (Cons t ts)
    with task_queue.pool_pop_spec [OF assms(1), of s] assms(3) Looping show ?thesis
      by (auto simp: worker_step_def split: if_splits)
  next
    case Nil
    then obtain i where i: "contents i = []" "pool_pop T s = Some (None, s\<lparr>pl_task_queue := i\<rparr>)"
      using task_queue.pool_pop_spec [OF assms(1), of s] by auto
    let ?s = "s\<lparr>pl_task_queue := i\<rparr>"
    have "worker_idle ct ?s = (Exits, s')"
      using assms(3) i(2) Looping by (auto simp: worker_step_def split: if_splits prod.splits worker_turn.splits bool.splits)
    then have *: "s' = (snd (now ?s))\<lparr>pl_running := saturating_sub (pl_running s) 1\<rparr>"
      "pl_keep_alive_time s \<le> saturating_sub (fst (now s)) ct \<and> pl_min_size s < pl_running s \<or> stopping (pl_state s)"
      by (auto simp: worker_idle_def Let_def pool_get_state_def pool_get_running_size_def
          pool_get_keep_alive_time_def pool_get_min_size_def now_def split: if_splits)
    have r: "pl_running s' = saturating_sub (pl_running s) 1" "contents (pl_task_queue s') = []"
      using *(1) i(1) by (simp_all add: now_def)
    have "pl_min_size s \<le> pl_running s'" if "pl_min_size s < pl_running s"
      using that r(1) by (simp add: word_le_nat_alt word_less_nat_alt unat_saturating_sub)
    with * r Nil Looping show ?thesis by (auto simp: unat_saturating_sub)
  qed
next
  case (In_task ct n t)
  with assms(3) show ?thesis
    by (auto simp: worker_step_def Let_def split: prod.splits segment.splits outcome.splits)
qed (use assms in \<open>simp_all add: worker_step_def\<close>)

end
