(* ===== verification/StopClaims.thy ===== *)
theory StopClaims
  imports WorkerClaims
begin

text \<open>
  Stopping a pool that has no thread of its own: its first call of the scheduler creates a worker, which then, as the
  pool is stopping, runs all tasks and ends.
\<close>

subsection \<open>A call of the scheduler that has no time\<close>

text \<open>How often the clock is read, when every listener reads it at most \<open>c\<close> times for an event.\<close>

lemma reads_dispatch:
  assumes "\<And>l s. reads (L l e s) \<le> reads s + c"
  shows "reads (dispatch L e s) \<le> reads s + c * length (sc_listeners s)"
proof -
  have "reads (fold (\<lambda>l. L l e) ls s) \<le> reads s + c * length ls" for ls
  proof (induction ls arbitrary: s)
    case (Cons l ls)
    from Cons [of "L l e s"] assms [of l s] show ?case by simp
  qed simp
  then show ?thesis by (simp add: dispatch_def)
qed

lemma reads_grow:
  assumes "\<And>l e s. reads (L l e s) \<le> reads s + c"
  shows "reads (snd (pool_grow T Q L alloc page_size uuid worker local_default g s)) \<le> reads s + 1 + c * length (sc_listeners s)"
proof (cases "g \<and> \<not> pool_is_empty T s \<and> pl_running s < pl_max_size s")
  case True
  have "reads (dispatch L e (snd (now s))) \<le> reads s + 1 + c * length (sc_listeners s)" for e
    using reads_dispatch [of L e c "snd (now s)"] assms by (simp add: now_def)
  then show ?thesis
    using True by (simp add: pool_grow_def submit_eq case_prod_beta Let_def push_ready_def pool_get_running_size_def
        pool_get_max_size_def)
qed (auto simp: pool_grow_def pool_get_running_size_def pool_get_max_size_def not_less)

lemma same_client_running: "same_client s s' \<Longrightarrow> pl_running s' = pl_running s"
  by (cases s; cases s') (simp add: same_client_def)

lemma but_running_leave:
  assumes "but_running (pool_init_current (s\<lparr>pl_scheduling := True\<rparr>)) s'" "\<not> pl_scheduling s"
  shows "but_running s ((pool_clean_current s')\<lparr>pl_scheduling := False\<rparr>)"
  using assms
  by (cases s; cases s') (simp add: but_running_def same_client_def pool_init_current_def pool_clean_current_def)

text \<open>A deadline lies ahead when the clock is read again before the time is over.\<close>

lemma deadline_ahead:
  assumes "mono (clk s)" "clk s (Suc (reads s)) < min (clk s (reads s) + d) (2 ^ 64 - 1)"
  shows "fst (now (snd (get_timeout_time d s))) < fst (get_timeout_time d s)"
proof -
  have "clk s (reads s) \<le> clk s (Suc (reads s))" using assms(1) by (simp add: monoD)
  moreover have "snd (get_timeout_time d s) = (if d < 2 ^ 64 then snd (now s) else s)"
    by (simp add: get_timeout_time_def u64_try_from_def case_prod_beta Let_def)
  ultimately show ?thesis
    using assms(2) by (auto simp: word_less_nat_alt unat_get_timeout_time unat_now)
qed

context pool_setting
begin

lemma pool_schedule_over:
  assumes s: "\<not> pl_scheduling s" "sinv s {#}" "sc_name s @ ''|'' @ uuid \<notin># nms s" "timeout_time \<le> fst (now s)"
    "\<not> stopping (pl_state s)" and alloc: "\<And>n. alloc n" and c: "\<And>l e s. reads (M l e s) \<le> reads s + c"
  shows "\<exists>s'. pool_try_timeout_schedule T Q D listeners f alloc page_size uuid Looping local_default timeout_time s =
      Some (Ok 0, s') \<and> sinv s' {#} \<and> but_running s s' \<and> clk s' = clk s \<and> reads s \<le> reads s' \<and> reads s' \<le> reads s + 2 + c * length (sc_listeners s) \<and>
    (if pool_is_empty T s \<or> pl_max_size s \<le> pl_running s then pl_running s' = pl_running s
     else pl_running s' = pl_running s + 1 \<and> q_items (sc_ready s') \<noteq> {#})"
proof -
  define s0 where "s0 = pool_init_current (s\<lparr>pl_scheduling := True\<rparr>)"
  have q: "same_places s s0" "advances s s0" "pl_running s0 = pl_running s" "pl_max_size s0 = pl_max_size s"
    "pool_is_empty T s0 = pool_is_empty T s" "pool_get_state s0 = pl_state s" "reads s0 = reads s" "sc_listeners s0 = sc_listeners s"
    by (simp_all add: s0_def pool_init_current_def same_places_def advances_def pool_is_empty_def pool_size_def pool_get_state_def)
  have i: "sinv s0 {#}" "sc_name s0 @ ''|'' @ uuid \<notin># nms s0 + {#}"
    using inv_same_places [OF s(2) q(1)] same_places_own [OF q(1)] s(3) by (simp_all add: s0_def pool_init_current_def)
  obtain rg sg where grown: "pool_grow T Q told alloc page_size uuid Looping local_default True s0 = (rg, sg)" by force
  have g: "sinv sg {#}" "advances s0 sg" "but_running s0 sg" "rg = Ok ()" "reads sg \<le> reads s + 1 + c * length (sc_listeners s)"
    using grow_spec [OF i, of True] grow_ok [OF alloc, of told uuid Looping True s0]
      reads_grow [of told c T Q alloc page_size uuid Looping local_default True s0] c grown q(7,8) by simp_all
  have n: "if pool_is_empty T s \<or> pl_max_size s \<le> pl_running s then pl_running sg = pl_running s
     else pl_running sg = pl_running s + 1 \<and> q_items (sc_ready sg) \<noteq> {#}"
  proof (cases "pool_is_empty T s \<or> pl_max_size s \<le> pl_running s")
    case True
    then show ?thesis using grown q by (auto simp: pool_grow_def pool_get_running_size_def pool_get_max_size_def)
  next
    case False
    then have w: "\<not> pool_is_empty T s0" "pl_running s0 < pl_max_size s0" using q by auto
    from grow_submits [OF i alloc w] grown q(3) False show ?thesis by (auto dest: same_client_running)
  qed
  let ?s1 = "scheduler_clean_current (snd (now (scheduler_init_current sg)))"
  let ?s' = "(pool_clean_current ?s1)\<lparr>pl_scheduling := False\<rparr>"
  have "fst (now s) \<le> fst (now (scheduler_init_current sg))"
    using g(2) q(2) s(2) by (intro now_mono) (simp_all add: sched_inv_def scheduler_init_current_def advances_def)
  then have "schedule_loop Q D listeners f timeout_time (scheduler_init_current sg) = Some (Ok 0, ?s1)"
    using s(4) by (intro schedule_loop_over) simp
  then have "pool_try_timeout_schedule T Q D listeners f alloc page_size uuid Looping local_default timeout_time s = Some (Ok 0, ?s')"
    using s(1,5) grown g(4) q(6)
    by (simp add: pool_try_timeout_schedule_def s0_def [symmetric] pool_grow_listener try_timeout_schedule_def)
  moreover have "same_places sg ?s'"
    by (simp add: same_places_def pool_clean_current_def scheduler_clean_current_def scheduler_init_current_def now_def)
  moreover have "pl_running ?s' = pl_running sg" "sc_ready ?s' = sc_ready sg" "clk ?s' = clk s" "reads ?s' = reads sg + 1" "reads s \<le> reads ?s'"
    using g(2) q(2) by (simp_all add: pool_clean_current_def scheduler_clean_current_def scheduler_init_current_def now_def advances_def)
  moreover have "same_client sg ?s1"
    by (simp add: same_client_def scheduler_clean_current_def scheduler_init_current_def now_def)
  then have "but_running s ?s'"
    using but_running_trans [OF g(3) same_client_but_running] s(1) unfolding s0_def by (intro but_running_leave)
  ultimately show ?thesis using inv_same_places [OF g(1)] g(5) n by (auto split: if_splits)
qed

text \<open>A stopping pool does not grow, so its call of the scheduler is that of its workers.\<close>

lemma pool_schedule_stopping:
  assumes sch: "scheduling Q q_items q_inv D look dok okk listeners f I J failing"
    and s: "\<not> pl_scheduling s" "sinv s {#}" "stopping (pl_state s)" "unat timeout_time \<le> clk s K"
    and start: "I (pool_init_current (s\<lparr>pl_scheduling := True\<rparr>))"
  shows "\<exists>left s1. pool_try_timeout_schedule T Q D listeners f alloc page_size uuid Looping local_default timeout_time s =
      Some (Ok left, (pool_clean_current s1)\<lparr>pl_scheduling := False\<rparr>) \<and> sinv s1 {#} \<and> I s1 \<and>
    (J (pool_init_current (s\<lparr>pl_scheduling := True\<rparr>)) \<or>
       ready_queue_quiet Q q_items q_inv \<and> q_items (sc_ready s) \<noteq> {#} \<and> fst (now s) < timeout_time \<longrightarrow> J s1)"
proof -
  define s0 where "s0 = pool_init_current (s\<lparr>pl_scheduling := True\<rparr>)"
  have q: "same_places s s0" "pool_get_state s0 = pl_state s" "clk s0 = clk s" "sc_ready (scheduler_init_current s0) = sc_ready s"
    "fst (now (scheduler_init_current s0)) = fst (now s)"
    by (simp_all add: s0_def pool_init_current_def same_places_def pool_get_state_def scheduler_init_current_def now_def)
  have i: "sinv s0 {#}" "sinv (scheduler_init_current s0) {#}" "unat timeout_time \<le> clk s0 K" "I s0"
    using inv_same_places [OF s(2) q(1)] s(4) start q(3) by (simp_all add: scheduler_init_current_def s0_def)
  obtain left s1 where s1: "try_timeout_schedule Q D listeners f timeout_time s0 = Some (Ok left, s1)" "sinv s1 {#}" "I s1"
    "J s0 \<or> runs_one Q D timeout_time (scheduler_init_current s0) \<longrightarrow> J s1"
    using scheduling.try_timeout_schedule_spec [OF sch i(1,4,3)] by blast
  have "pool_try_timeout_schedule T Q D listeners f alloc page_size uuid Looping local_default timeout_time s =
      Some (Ok left, (pool_clean_current s1)\<lparr>pl_scheduling := False\<rparr>)"
    using s(1,3) q(2) s1(1) by (simp add: pool_try_timeout_schedule_def s0_def [symmetric] pool_grow_def)
  with s1 runs_oneI [OF _ i(2)] q(4,5) show ?thesis unfolding s0_def by auto
qed

end

subsection \<open>A stopping pool\<close>

context task_pool
begin

text \<open>A pool with at most one worker that is stopping, before and after its worker has run.\<close>

definition winding_down :: "string list \<Rightarrow> (string \<rightharpoonup> task_result)
    \<Rightarrow> ('q, 'd, 't worker_at, 'l, 'li, 'i, 'b, 'e, 'v, 'w) pool_scheme \<Rightarrow> bool" where
  "winding_down st whole s \<longleftrightarrow> balanced_books st whole s \<and> pl_state s = Pool_Stopping False \<and> pl_running s \<le> 1"

definition wound_down :: "string list \<Rightarrow> (string \<rightharpoonup> task_result)
    \<Rightarrow> ('q, 'd, 't worker_at, 'l, 'li, 'i, 'b, 'e, 'v, 'w) pool_scheme \<Rightarrow> bool" where
  "wound_down st whole s \<longleftrightarrow> all_done st whole s \<and> pl_state s = Pool_Stopping False \<and> pl_running s = 0"

lemma winding_same_client:
  assumes "same_client s s'"
  shows "winding_down st whole s \<Longrightarrow> winding_down st whole s'" "wound_down st whole s \<Longrightarrow> wound_down st whole s'"
  using books_but_running [OF same_client_but_running [OF assms]] same_client_running [OF assms]
    but_running_fields(7) [OF same_client_but_running [OF assms]]
  by (simp_all add: winding_down_def wound_down_def)

text \<open>Before a worker runs, and after it has run all tasks, no worker is created.\<close>

lemma listeners_idle:
  assumes "starts e \<or> contents (pl_task_queue s) = [] \<and> \<not> is_error e"
  shows "same_places s (listeners l e s)" "same_client s (listeners l e s)" "advances s (listeners l e s)"
proof -
  have "listeners l e s = s \<or> listeners l e s = M l e s"
    using assms by (cases e) (auto simp: pool_listener_def creator_on_event_def pool_grow_def pool_is_empty_def pool_size_def
        len_contents is_error_def)
  then show "same_places s (listeners l e s)" "same_client s (listeners l e s)" "advances s (listeners l e s)"
    using others [of s l e] by (auto simp: same_places_def)
qed

lemma listeners_idle_spec:
  assumes "sinv s R" "starts e \<or> contents (pl_task_queue s) = [] \<and> \<not> is_error e"
  shows "sinv (listeners l e s) R \<and> advances s (listeners l e s) \<and> nms s \<subseteq># nms (listeners l e s)"
  using inv_same_places [OF assms(1) listeners_idle(1) [OF assms(2)]] listeners_idle(3) [OF assms(2)]
    same_places_own [OF listeners_idle(1) [OF assms(2)]] by simp

lemma worker_winds_down:
  assumes "sinv s {#co_name co#}" "winding_down st whole s" "st \<noteq> []" "suspender_current s = Some (co_name co)"
    "co_state co = Running \<or> is_syscall (co_state co)" "okk k (is_syscall (co_state co))"
    and f: "worker_fn T E V start run block () k co s = (seg, k', co', s')"
  shows "segment_post (co_name co) s (seg, k', co', s')" "wound_down st whole s'" "seg = Returns ()"
proof -
  have b: "balanced_books st whole s" "pl_state s = Pool_Stopping False" "pl_running s \<le> 1"
    using assms(2) by (simp_all add: winding_down_def)
  have k: "k \<noteq> Ended" "pending k s = due outcome_of (contents (pl_task_queue s))"
    using assms(6) by (cases k; simp add: pending_def between only_between)+
  show "segment_post (co_name co) s (seg, k', co', s')"
    using worker_segment_ends [OF assms(1) books_pool_current [OF b(1) assms(3)] assms(4-6)] f by (auto simp: worker_fn_def)
  have w: "books st whole [] s'" "contents (pl_task_queue s') = []" "retired s seg s'"
    using worker_drains [of st whole k s co] b(1) assms(3,4) k f by (auto simp: worker_fn_def balanced_books_def)
  have "saturating_sub (pl_running s) 1 = 0" using b(3) by simp
  with w b(2) show "wound_down st whole s'" "seg = Returns ()"
    by (simp_all add: wound_down_def all_done_def retired_def stopping_def)
qed

lemma stop_scheduling:
  assumes "st \<noteq> []"
  shows "scheduling Q q_items q_inv D look dok okk listeners (worker_fn T E V start run block)
     (winding_down st whole) (wound_down st whole) False"
proof unfold_locales
  fix s :: "('q, 'd, 't worker_at, 'l, 'li, 'i, 'b, 'e, 'v, 'w) pool_scheme" and R l
    and e :: "('t worker_at, 'l) event"
  show "sinv s R \<Longrightarrow> winding_down st whole s \<Longrightarrow> starts e \<Longrightarrow> sinv (listeners l e s) R \<and> advances s (listeners l e s) \<and>
      nms s \<subseteq># nms (listeners l e s) \<and> winding_down st whole (listeners l e s)"
    using listeners_idle_spec [of s R e l] winding_same_client(1) [OF listeners_idle(2)] by blast
  assume w: "wound_down st whole s" "is_error e \<longrightarrow> False"
  then have "contents (pl_task_queue s) = [] \<and> \<not> is_error e" by (simp add: wound_down_def all_done_def)
  with w(1) show "sinv s {#co_name (event_co e)#} \<Longrightarrow> sinv (listeners l e s) {#co_name (event_co e)#} \<and> advances s (listeners l e s) \<and>
      nms s \<subseteq># nms (listeners l e s) \<and> wound_down st whole (listeners l e s)"
    using listeners_idle_spec [of s _ e l] winding_same_client(2) [OF listeners_idle(2)] by blast
next
  fix s s' :: "('q, 'd, 't worker_at, 'l, 'li, 'i, 'b, 'e, 'v, 'w) pool_scheme" and co co' :: "('t worker_at, 'l) sched_co"
    and k k' seg
  assume i: "sinv s {#co_name co#}" "winding_down st whole s" "suspender_current s = Some (co_name co)"
    "co_state co = Running \<or> is_syscall (co_state co)" "okk k (is_syscall (co_state co))"
    and f: "worker_fn T E V start run block () k co s = (seg, k', co', s')"
  from worker_winds_down [OF i(1,2) assms i(3-5) f]
  show "sinv s' {#co_name co#} \<and> advances s s' \<and> nms s \<subseteq># nms s' \<and> co_name co' = co_name co \<and> wound_down st whole s' \<and>
      (case seg of Yields _ \<Rightarrow> (co_state co' = Running \<or> is_syscall (co_state co')) \<and> okk k' (is_syscall (co_state co'))
       | Returns _ \<Rightarrow> co_state co' = Running | Panics _ \<Rightarrow> co_state co' = Running \<and> False)"
    by (simp add: segment_post_def along_def)
next
  show "wound_down st whole s \<Longrightarrow> winding_down st whole s" for s
    by (simp add: wound_down_def winding_down_def all_done_def balanced_books_def)
qed (fact winding_same_client)+

text \<open>The call of \<open>stop\<close> in which the worker runs.\<close>

lemma stop_loop_drains:
  fixes s :: "('q, 'd, 't worker_at, 'l, 'li, 'i, 'b, 'e, 'v, 'w) pool_scheme" and uuid :: string
  assumes s: "\<not> pl_scheduling s" "sinv s {#}" "pl_state s = Pool_Stopping False" "pl_running s \<le> 1"
    and ready: "contents (pl_task_queue s) = [] \<and> pl_running s = 0 \<or> ready_queue_quiet Q q_items q_inv \<and> q_items (sc_ready s) \<noteq> {#}"
    and books: "eok (pl_results s)" "distinct (map tk_name (contents (pl_task_queue s)))"
      "\<forall>t \<in> set (contents (pl_task_queue s)). elook (pl_results s) (tk_name t) = None"
    and time: "clk s (Suc (reads s)) < min (clk s (reads s) + wait_time) (2 ^ 64 - 1)" "2 ^ 64 - 1 \<le> clk s K"
  defines "schedule \<equiv> pool_try_timeout_schedule T Q D listeners (worker_fn T E V start run block) alloc page_size uuid Looping local_default"
  shows "\<exists>s'. stop_loop T schedule wait_time s = Some (Ok (), s') \<and> pl_state s' = Pool_Stopped \<and> pl_running s' = 0 \<and>
    contents (pl_task_queue s') = [] \<and> sinv s' {#} \<and>
    elook (pl_results s') = elook (pl_results s) ++ map_of (due outcome_of (contents (pl_task_queue s)))"
proof -
  obtain t s3 where t: "get_timeout_time wait_time s = (t, s3)" by force
  define st where "st = pool_name s # COROUTINE_POOL s"
  define whole where "whole = elook (pl_results s) ++ map_of (due outcome_of (contents (pl_task_queue s)))"
  have q: "same_places s s3" "same_client s s3" "clk s3 = clk s" "sc_ready s3 = sc_ready s"
    using t by (auto simp: get_timeout_time_def now_def same_places_def same_client_def Let_def split: option.splits)
  note f3 = but_running_fields [OF same_client_but_running [OF q(2)]] same_client_running [OF q(2)]
  have n3: "pool_name s3 = pool_name s" using f3 by (simp add: pool_name_def)
  have i3: "sinv s3 {#}" "unat t \<le> clk s3 K" "fst (now s3) < t"
    using inv_same_places [OF s(2) q(1)] time(2) q(3) unsigned_less [of t, where ?'a = nat]
      deadline_ahead [of s wait_time] time(1) s(2) t by (simp_all add: sched_inv_def)
  have b3: "balanced_books st whole (pool_init_current (s3\<lparr>pl_scheduling := True\<rparr>))"
    using books_open [of s3] books f3 n3 unfolding st_def whole_def by simp
  let ?s0 = "pool_init_current (s3\<lparr>pl_scheduling := True\<rparr>)"
  have w3: "winding_down st whole ?s0" "contents (pl_task_queue s) = [] \<and> pl_running s = 0 \<longrightarrow> wound_down st whole ?s0"
    using b3 s(3,4) f3 by (auto simp: winding_down_def wound_down_def all_done_def balanced_books_def pool_init_current_def)
  have st: "st \<noteq> []" by (simp add: st_def)
  have p3: "\<not> pl_scheduling s3" "stopping (pl_state s3)" using s(1,3) f3 by (simp_all add: stopping_def)
  obtain left s4 where run: "schedule t s3 = Some (Ok left, (pool_clean_current s4)\<lparr>pl_scheduling := False\<rparr>)"
    and s4: "sinv s4 {#}" "wound_down st whole ?s0 \<or> ready_queue_quiet Q q_items q_inv \<and> q_items (sc_ready s3) \<noteq> {#} \<and>
      fst (now s3) < t \<longrightarrow> wound_down st whole s4"
    using pool_schedule_stopping [where uuid = uuid, OF stop_scheduling [OF st] p3(1) i3(1) p3(2) i3(2) w3(1)]
    unfolding schedule_def by blast
  let ?s5 = "(pool_clean_current s4)\<lparr>pl_scheduling := False\<rparr>"
  have J: "wound_down st whole s4" using s4(2) ready w3(2) i3(3) q(4) by auto
  then have s5: "pool_is_empty T ?s5" "pool_get_running_size ?s5 = 0" "pl_state ?s5 = Pool_Stopping False"
    "elook (pl_results ?s5) = whole" "contents (pl_task_queue ?s5) = []"
    by (simp_all add: wound_down_def all_done_def books_def accounted_def pool_clean_current_def pool_is_empty_def pool_size_def
        len_contents pool_get_running_size_def)
  have "stop_loop T schedule wait_time s = Some (Ok (), ?s5\<lparr>pl_state := Pool_Stopped\<rparr>)"
    using run s5 by (subst stop_loop.simps) (simp add: pool_try_timed_schedule_def t pool_change_state_def)
  moreover have "same_places s4 (?s5\<lparr>pl_state := Pool_Stopped\<rparr>)" by (simp add: pool_clean_current_def same_places_def)
  ultimately show ?thesis
    using s5 inv_same_places [OF s4(1)] unfolding whole_def by (simp add: pool_get_running_size_def)
qed

text \<open>All of \<open>stop\<close>, for a pool that has not been scheduled yet.\<close>

lemma stop_drains:
  fixes s :: "('q, 'd, 't worker_at, 'l, 'li, 'i, 'b, 'e, 'v, 'w) pool_scheme" and uuid :: string
  assumes s: "pl_state s = Pool_Created" "\<not> pl_scheduling s" "sinv s {#}" "sc_name s @ ''|'' @ uuid \<notin># nms s"
      "pl_running s = 0" "0 < pl_max_size s"
    and env: "ready_queue_quiet Q q_items q_inv" "\<And>n. alloc n" "\<And>l e s. reads (M l e s) \<le> reads s + c"
    and books: "eok (pl_results s)" "distinct (map tk_name (contents (pl_task_queue s)))"
      "\<forall>t \<in> set (contents (pl_task_queue s)). elook (pl_results s) (tk_name t) = None"
    and time: "\<forall>i. reads s \<le> i \<and> i \<le> reads s + 3 + c * length (sc_listeners s) \<longrightarrow>
        clk s (Suc i) < min (clk s i + wait_time) (2 ^ 64 - 1)" "2 ^ 64 - 1 \<le> clk s K"
  defines "schedule \<equiv> pool_try_timeout_schedule T Q D listeners (worker_fn T E V start run block) alloc page_size uuid Looping local_default"
  shows "\<exists>s'. pool_stop T schedule waits wait_time s = Some (Ok (), s') \<and> pl_state s' = Pool_Stopped \<and> pl_running s' = 0 \<and>
    contents (pl_task_queue s') = [] \<and> sinv s' {#} \<and>
    elook (pl_results s') = elook (pl_results s) ++ map_of (due outcome_of (contents (pl_task_queue s)))"
proof -
  let ?s = "snd (now s)"
  have t: "get_timeout_time 0 s = (fst (now s), ?s)"
    using unsigned_less [of "fst (now s)", where ?'a = nat]
    by (simp add: get_timeout_time_def u64_try_from_def case_prod_beta saturating_add_def)
  have "same_client s ?s" by simp
  note f = but_running_fields [OF same_client_but_running [OF this]] same_client_running [OF this]
  have le: "fst (now s) \<le> fst (now ?s)" using s(3) by (intro now_mono) (simp_all add: sched_inv_def)
  have empty: "pool_is_empty T ?s = (contents (pl_task_queue s) = [])"
    using f by (simp add: pool_is_empty_def pool_size_def len_contents)
  have pre: "\<not> pl_scheduling ?s" "sinv ?s {#}" "sc_name ?s @ ''|'' @ uuid \<notin># nms ?s" "\<not> stopping (pl_state ?s)"
    using s inv_now [OF s(3)] f same_places_own [OF same_places_now, of s] by (simp_all add: stopping_def)
  obtain s1 where s1: "schedule (fst (now s)) ?s = Some (Ok 0, s1)" "sinv s1 {#}" "but_running ?s s1" "clk s1 = clk s"
    "reads s1 \<le> reads ?s + 2 + c * length (sc_listeners s)" "reads ?s \<le> reads s1"
    "if contents (pl_task_queue s) = [] then pl_running s1 = 0 else pl_running s1 = 1 \<and> q_items (sc_ready s1) \<noteq> {#}"
    using pool_schedule_over [where uuid = uuid and f = "worker_fn T E V start run block", OF pre(1-3) le pre(4) env(2,3)] s(5,6) f empty
    unfolding schedule_def by (auto split: if_splits)
  let ?s2 = "s1\<lparr>pl_state := Pool_Stopping False\<rparr>"
  note f1 = but_running_fields [OF s1(3)]
  have "\<exists>s'. stop_loop T schedule wait_time ?s2 = Some (Ok (), s') \<and> pl_state s' = Pool_Stopped \<and> pl_running s' = 0 \<and>
    contents (pl_task_queue s') = [] \<and> sinv s' {#} \<and>
    elook (pl_results s') = elook (pl_results ?s2) ++ map_of (due outcome_of (contents (pl_task_queue ?s2)))"
    unfolding schedule_def
  proof (rule stop_loop_drains)
    show "sinv ?s2 {#}" using inv_same_places [OF s1(2), of ?s2] by (simp add: same_places_def)
    show "clk ?s2 (Suc (reads ?s2)) < min (clk ?s2 (reads ?s2) + wait_time) (2 ^ 64 - 1)"
      using time(1) s1(4-6) by simp
    show "pl_running ?s2 \<le> 1" "contents (pl_task_queue ?s2) = [] \<and> pl_running ?s2 = 0 \<or>
        ready_queue_quiet Q q_items q_inv \<and> q_items (sc_ready ?s2) \<noteq> {#}"
      using s1(7) env(1) f f1 by (auto split: if_splits)
  qed (use s books time(2) s1(4) f f1 in simp_all)
  with s1(1) s(1) f f1 show ?thesis
    by (simp add: pool_stop_def pool_get_state_def pool_try_timed_schedule_def t pool_change_state_def case_prod_beta)
qed

end

subsection \<open>The claim\<close>

text \<open>
  C5: Stopping a pool that has been created but not scheduled runs all the tasks that were submitted, each once, files every
  result under the name of its task beside the results there were, ends the worker that ran them, and succeeds with
  the pool stopped. The tasks must run to their end, the queue must give what it has, and the clock must, when it is read the
  next few times, not have advanced by the waiting time from one reading to the next; \<open>c\<close> bounds how often the other
  listeners read it.
\<close>

theorem stop_runs_all_tasks:
  fixes E :: "('e, string, task_result) dash_ops" and V :: "('v, string, bool) dash_ops"
  assumes "task_pool Q q_items q_inv D look dok okk T contents contention E run block fresh M elook eok fin"
    and "pl_state s = Pool_Created" and "\<not> pl_scheduling s" and "sched_inv q_items q_inv look dok okk s {#}"
    and "sc_name s @ ''|'' @ uuid \<notin># names q_items look s" and "pl_running s = 0" and "0 < pl_max_size s"
    and "ready_queue_quiet Q q_items q_inv" and "\<And>n. alloc n" and "\<And>l e s. reads (M l e s) \<le> reads s + c"
    and "eok (pl_results s)" and "distinct (map tk_name (contents (pl_task_queue s)))"
    and "\<forall>t \<in> set (contents (pl_task_queue s)). elook (pl_results s) (tk_name t) = None"
    and "\<forall>i. reads s \<le> i \<and> i \<le> reads s + 3 + c * length (sc_listeners s) \<longrightarrow>
        clk s (Suc i) < min (clk s i + wait_time) (2 ^ 64 - 1)" and "2 ^ 64 - 1 \<le> clk s K"
  shows "\<exists>s'. pool_stop T (pool_try_timeout_schedule T Q D (pool_listener T Q alloc page_size fresh local_default creator M)
      (worker_fn T E V start run block) alloc page_size uuid Looping local_default) waits wait_time s = Some (Ok (), s') \<and>
    pl_state s' = Pool_Stopped \<and> pl_running s' = 0 \<and> contents (pl_task_queue s') = [] \<and>
    elook (pl_results s') = elook (pl_results s) ++ map_of (due (\<lambda>f p. fin (start f p)) (contents (pl_task_queue s)))"
  using task_pool.stop_drains [OF assms(1-8), where alloc = alloc and c = c, OF assms(9-15)] by blast

end
