(* ===== verification/Prog.thy ===== *)
theory Prog
  imports Coroutine
begin

text \<open>
  Programs of the network and system call layers. A program takes the state of the thread and either does not
  return (\<open>None\<close>) or ends with a value, an error or a panic, and the state it leaves.

  \<open>andThen\<close> is sequencing with Rust's \<^verbatim>\<open>?\<close>: an error or a panic of the first part ends the whole.
  \<open>attempt\<close> hands the \<^verbatim>\<open>Result\<close> of the first part on as a value, as \<^verbatim>\<open>is_err()\<close>, \<^verbatim>\<open>_ = f()\<close> and
  \<^verbatim>\<open>if let Ok(r) = f()\<close> do; a panic still ends the whole. \<open>expect\<close> turns an error into a panic.
\<close>

type_synonym ('a, 'e, 's) prog = "'s \<Rightarrow> (('a, 'e) outcome \<times> 's) option"

definition ret :: "'a \<Rightarrow> ('a, 'e, 's) prog" where
  "ret a s = Some (Ok a, s)"

definition fail :: "'e \<Rightarrow> ('a, 'e, 's) prog" where
  "fail e s = Some (Err e, s)"

definition panic :: "string \<Rightarrow> ('a, 'e, 's) prog" where
  "panic m s = Some (Panic m, s)"

definition gets :: "('s \<Rightarrow> 'a) \<Rightarrow> ('a, 'e, 's) prog" where
  "gets f s = Some (Ok (f s), s)"

definition upd :: "('s \<Rightarrow> 's) \<Rightarrow> (unit, 'e, 's) prog" where
  "upd f s = Some (Ok (), f s)"

definition state_of :: "('s \<Rightarrow> 'a \<times> 's) \<Rightarrow> ('a, 'e, 's) prog" where
  "state_of f s = (case f s of (a, s) \<Rightarrow> Some (Ok a, s))"

definition andThen :: "('a, 'e, 's) prog \<Rightarrow> ('a \<Rightarrow> ('b, 'e, 's) prog) \<Rightarrow> ('b, 'e, 's) prog" where
  "andThen p k s =
     (case p s of
        None \<Rightarrow> None
      | Some (Ok a, s) \<Rightarrow> k a s
      | Some (Err e, s) \<Rightarrow> Some (Err e, s)
      | Some (Panic m, s) \<Rightarrow> Some (Panic m, s))"

definition attempt :: "('a, 'e, 's) prog \<Rightarrow> ('a option \<Rightarrow> ('b, 'f, 's) prog) \<Rightarrow> ('b, 'f, 's) prog" where
  "attempt p k s =
     (case p s of
        None \<Rightarrow> None
      | Some (Ok a, s) \<Rightarrow> k (Some a) s
      | Some (Err e, s) \<Rightarrow> k None s
      | Some (Panic m, s) \<Rightarrow> Some (Panic m, s))"

definition expect :: "('a, 'e, 's) prog \<Rightarrow> string \<Rightarrow> ('a, 'f, 's) prog" where
  "expect p m s =
     (case p s of
        None \<Rightarrow> None
      | Some (Ok a, s) \<Rightarrow> Some (Ok a, s)
      | Some (Err e, s) \<Rightarrow> Some (Panic m, s)
      | Some (Panic m, s) \<Rightarrow> Some (Panic m, s))"

definition read_clock :: "(u64, 'e, 'w env_scheme) prog" where
  "read_clock s = state_of now s"

definition timeout_after :: "duration \<Rightarrow> (u64, 'e, 'w env_scheme) prog" where
  "timeout_after d s = state_of (get_timeout_time d) s"

subsection \<open>Evaluation\<close>

named_theorems prog \<open>what the sequencing operators do\<close>

lemma prog_simps [simp]:
  "andThen (ret a) k = k a"
  "andThen (fail e) k = fail e"
  "andThen (panic m) k = panic m"
  "attempt (ret a) k' = k' (Some a)"
  "attempt (fail e) k' = k' None"
  "attempt (panic m) k' = panic m"
  by (simp_all add: fun_eq_iff andThen_def attempt_def ret_def fail_def panic_def)

lemma andThen_ret [simp]: "andThen p ret = p"
  by (auto simp: fun_eq_iff andThen_def ret_def split: option.splits outcome.splits)

lemma andThen_assoc: "andThen (andThen p k) k' = andThen p (\<lambda>a. andThen (k a) k')"
  by (auto simp: fun_eq_iff andThen_def split: option.splits outcome.splits)

lemma andThen_eqs [prog]:
  "p s = None \<Longrightarrow> andThen p k s = None"
  "p s = Some (Ok a, s') \<Longrightarrow> andThen p k s = k a s'"
  "p s = Some (Err e, s') \<Longrightarrow> andThen p k s = Some (Err e, s')"
  "p s = Some (Panic m, s') \<Longrightarrow> andThen p k s = Some (Panic m, s')"
  by (simp_all add: andThen_def)

lemma attempt_eqs [prog]:
  "p s = None \<Longrightarrow> attempt p k s = None"
  "p s = Some (Ok a, s') \<Longrightarrow> attempt p k s = k (Some a) s'"
  "p s = Some (Err e, s') \<Longrightarrow> attempt p k s = k None s'"
  "p s = Some (Panic m, s') \<Longrightarrow> attempt p k s = Some (Panic m, s')"
  by (simp_all add: attempt_def)

lemma andThen_gets [simp]: "andThen (gets f) k s = k (f s) s"
  by (simp add: andThen_def gets_def)

lemma andThen_upd [simp]: "andThen (upd g) k s = k () (g s)"
  by (simp add: andThen_def upd_def)

lemma andThen_state_of [simp]: "andThen (state_of h) k s = k (fst (h s)) (snd (h s))"
  by (simp add: andThen_def state_of_def case_prod_beta)

lemma andThen_clock [simp]:
  "andThen read_clock k w = k (fst (now w)) (snd (now w))"
  "andThen (timeout_after d) k w = k (fst (get_timeout_time d w)) (snd (get_timeout_time d w))"
  by (simp_all add: andThen_def state_of_def read_clock_def timeout_after_def case_prod_beta)

lemma andThen_SomeE:
  assumes "andThen p k s = Some (r, t)"
  obtains (ok) a s' where "p s = Some (Ok a, s')" "k a s' = Some (r, t)"
  | (err) e where "p s = Some (Err e, t)" "r = Err e"
  | (panic) m where "p s = Some (Panic m, t)" "r = Panic m"
  using assms by (auto simp: andThen_def split: option.splits outcome.splits)

lemma attempt_SomeE:
  assumes "attempt p k s = Some (r, t)"
  obtains (ok) a s' where "p s = Some (Ok a, s')" "k (Some a) s' = Some (r, t)"
  | (err) e s' where "p s = Some (Err e, s')" "k None s' = Some (r, t)"
  | (panic) m where "p s = Some (Panic m, t)" "r = Panic m"
  using assms by (auto simp: attempt_def split: option.splits outcome.splits)

subsection \<open>Loops\<close>

text \<open>The operators are monotone, so that loops may be defined with \<^theory_text>\<open>partial_function\<close>.\<close>

lemma mono_case_result:
  assumes "\<And>s. mono_option (\<lambda>f. p f s)" and "\<And>r s. mono_option (\<lambda>f. h f r s)"
  shows "mono_option (\<lambda>f. case p f s of None \<Rightarrow> None | Some (r, s) \<Rightarrow> h f r s)"
proof -
  have "mono_option (\<lambda>f. Option.bind (p f s) (\<lambda>x. case x of (r, s) \<Rightarrow> h f r s))"
    by (rule bind_mono [OF assms(1)]) (auto intro: assms(2) split: prod.splits)
  moreover have "(\<lambda>f. Option.bind (p f s) (\<lambda>x. case x of (r, s) \<Rightarrow> h f r s)) =
      (\<lambda>f. case p f s of None \<Rightarrow> None | Some (r, s) \<Rightarrow> h f r s)"
    by (auto simp: fun_eq_iff split: option.splits)
  ultimately show ?thesis by simp
qed

lemma andThen_mono [partial_function_mono]:
  assumes "\<And>s. mono_option (\<lambda>f. p f s)" and "\<And>a s. mono_option (\<lambda>f. k f a s)"
  shows "mono_option (\<lambda>f. andThen (p f) (k f) s)"
proof -
  have "mono_option (\<lambda>f. case r of Ok a \<Rightarrow> k f a s | Err e \<Rightarrow> Some (Err e, s) | Panic m \<Rightarrow> Some (Panic m, s))" for r s
    by (cases r) (auto intro: assms(2) option.const_mono)
  from mono_case_result [OF assms(1) this] show ?thesis
    by (simp add: andThen_def case_prod_beta split: outcome.splits cong: option.case_cong outcome.case_cong)
qed

lemma attempt_mono [partial_function_mono]:
  assumes "\<And>s. mono_option (\<lambda>f. p f s)" and "\<And>a s. mono_option (\<lambda>f. k f a s)"
  shows "mono_option (\<lambda>f. attempt (p f) (k f) s)"
proof -
  have "mono_option (\<lambda>f. case r of Ok a \<Rightarrow> k f (Some a) s | Err e \<Rightarrow> k f None s | Panic m \<Rightarrow> Some (Panic m, s))" for r s
    by (cases r) (auto intro: assms(2) option.const_mono)
  from mono_case_result [OF assms(1) this] show ?thesis
    by (simp add: attempt_def case_prod_beta split: outcome.splits cong: option.case_cong outcome.case_cong)
qed

text \<open>The control structures between them, applied to a state.\<close>

lemma if_prog_mono [partial_function_mono]:
  assumes "mono_option (\<lambda>f. p f s)" and "mono_option (\<lambda>f. q f s)"
  shows "mono_option (\<lambda>f. (if b then p f else q f) s)"
  using assms by (cases b) simp_all

lemma let_prog_mono [partial_function_mono]:
  assumes "\<And>x. mono_option (\<lambda>f. p f x s)"
  shows "mono_option (\<lambda>f. (let x = a in p f x) s)"
  using assms by (simp add: Let_def)

lemma case_prod_prog_mono [partial_function_mono]:
  assumes "\<And>x y. mono_option (\<lambda>f. p f x y s)"
  shows "mono_option (\<lambda>f. (case z of (x, y) \<Rightarrow> p f x y) s)"
  using assms by (cases z) simp

end
