(* ===== verification/Syscall.thy ===== *)
theory Syscall
  imports Prog
begin

text \<open>
  System calls (\<^verbatim>\<open>open-coroutine-core/src/syscall/mod.rs\<close>, \<^verbatim>\<open>raw.rs\<close>, \<^verbatim>\<open>common.rs\<close>): the types of C,
  the state a call sees, \<^verbatim>\<open>errno\<close>, the blocking mode of a descriptor, and the default methods of the traits
  \<^verbatim>\<open>UnixSyscall\<close> and \<^verbatim>\<open>LinuxSyscall\<close>, the raw layer, which call the function they are given or libc. The layers are
  generic in the layer below; they are modelled for the one composition the program has, the static \<^verbatim>\<open>CHAIN\<close> of
  \<^verbatim>\<open>facade.rs\<close>.

  libc is a parameter, the record \<open>libc_ops\<close>. Memory is kept in one store per type the code reads or writes through
  a pointer; 0 is the null pointer. \<open>freed\<close> lists the addresses given back to the allocator. Sizes and error numbers
  are those of 64-bit Linux. \<open>cur\<close> is the coroutine the thread is running, on which \<^verbatim>\<open>current()\<close> calls the methods of
  the state machine. Logging is not modelled.
\<close>

subsection \<open>C types\<close>

type_synonym c_int = "32 word"
type_synonym c_uint = "32 word"
type_synonym ptr = "64 word"
type_synonym size_t = "64 word"
type_synonym ssize_t = "64 word"
type_synonym off_t = "64 word"
type_synonym fd_set = "1024 word"

record timespec =
  ts_sec :: "64 word"
  ts_nsec :: "64 word"

record timeval =
  tv_sec :: "64 word"
  tv_usec :: "64 word"

record iovec =
  iov_base :: ptr
  iov_len :: size_t

record msghdr =
  msg_name :: ptr
  msg_namelen :: c_uint
  msg_iov :: ptr
  msg_iovlen :: size_t
  msg_control :: ptr
  msg_controllen :: size_t
  msg_flags :: c_int

definition EINTR :: c_int where "EINTR = 4"
definition EAGAIN :: c_int where "EAGAIN = 11"
definition EINVAL :: c_int where "EINVAL = 22"
definition ENOTCONN :: c_int where "ENOTCONN = 107"
definition ETIMEDOUT :: c_int where "ETIMEDOUT = 110"
definition EINPROGRESS :: c_int where "EINPROGRESS = 115"
definition O_NONBLOCK :: c_int where "O_NONBLOCK = 2048"

lemmas errnos = EINTR_def EAGAIN_def EINVAL_def ENOTCONN_def ETIMEDOUT_def EINPROGRESS_def

datatype error_kind = WouldBlock | Interrupted | Other_kind

definition error_kind :: "c_int \<Rightarrow> error_kind" where
  "error_kind e = (if e = EAGAIN then WouldBlock else if e = EINTR then Interrupted else Other_kind)"

lemma error_kind_0 [simp]: "error_kind 0 = Other_kind"
  by (simp add: error_kind_def errnos)

subsection \<open>State\<close>

record 'co io = tls +
  errno :: c_int
  cur :: "'co option"
  mem_timespec :: "ptr \<Rightarrow> timespec"
  mem_timeval :: "ptr \<Rightarrow> timeval"
  mem_fd_set :: "ptr \<Rightarrow> fd_set"
  mem_iovec :: "ptr \<Rightarrow> iovec"
  mem_msghdr :: "ptr \<Rightarrow> msghdr"
  freed :: "ptr list"

definition set_errno :: "c_int \<Rightarrow> ('co, 'z) io_scheme \<Rightarrow> ('co, 'z) io_scheme" where
  "set_errno e s = s\<lparr>errno := e\<rparr>"

definition reset_errno :: "('co, 'z) io_scheme \<Rightarrow> ('co, 'z) io_scheme" where
  "reset_errno s = set_errno 0 s"

lemma errno_simps [simp]:
  "errno (set_errno e s) = e" "errno (reset_errno s) = 0"
  "reads (set_errno e s) = reads s" "clk (set_errno e s) = clk s"
  "reads (reset_errno s) = reads s" "clk (reset_errno s) = clk s"
  by (simp_all add: set_errno_def reset_errno_def)

text \<open>The parameter for libc. \<open>getsockopt\<close> is used with \<^verbatim>\<open>SO_ERROR\<close> only: it is
  given the variable for the error and its length, and gives its result and the variable.\<close>

record 's libc_sleep =
  lc_fcntl_getfl :: "c_int \<Rightarrow> 's \<Rightarrow> c_int \<times> 's"
  lc_fcntl_setfl :: "c_int \<Rightarrow> c_int \<Rightarrow> 's \<Rightarrow> c_int \<times> 's"
  lc_getsockopt_error :: "c_int \<Rightarrow> c_int \<Rightarrow> c_uint \<Rightarrow> 's \<Rightarrow> (c_int \<times> c_int) \<times> 's"
  lc_getpeername :: "c_int \<Rightarrow> 's \<Rightarrow> c_int \<times> 's"
  lc_sleep :: "c_uint \<Rightarrow> 's \<Rightarrow> c_uint \<times> 's"
  lc_usleep :: "c_uint \<Rightarrow> 's \<Rightarrow> c_int \<times> 's"
  lc_nanosleep :: "ptr \<Rightarrow> ptr \<Rightarrow> 's \<Rightarrow> c_int \<times> 's"
  lc_poll :: "ptr \<Rightarrow> size_t \<Rightarrow> c_int \<Rightarrow> 's \<Rightarrow> c_int \<times> 's"
  lc_select :: "c_int \<Rightarrow> ptr \<Rightarrow> ptr \<Rightarrow> ptr \<Rightarrow> ptr \<Rightarrow> 's \<Rightarrow> c_int \<times> 's"

record 's libc_socket = "'s libc_sleep" +
  lc_socket :: "c_int \<Rightarrow> c_int \<Rightarrow> c_int \<Rightarrow> 's \<Rightarrow> c_int \<times> 's"
  lc_listen :: "c_int \<Rightarrow> c_int \<Rightarrow> 's \<Rightarrow> c_int \<times> 's"
  lc_accept :: "c_int \<Rightarrow> ptr \<Rightarrow> ptr \<Rightarrow> 's \<Rightarrow> c_int \<times> 's"
  lc_connect :: "c_int \<Rightarrow> ptr \<Rightarrow> c_uint \<Rightarrow> 's \<Rightarrow> c_int \<times> 's"
  lc_shutdown :: "c_int \<Rightarrow> c_int \<Rightarrow> 's \<Rightarrow> c_int \<times> 's"
  lc_close :: "c_int \<Rightarrow> 's \<Rightarrow> c_int \<times> 's"

record 's libc_read = "'s libc_socket" +
  lc_recv :: "c_int \<Rightarrow> ptr \<Rightarrow> size_t \<Rightarrow> c_int \<Rightarrow> 's \<Rightarrow> ssize_t \<times> 's"
  lc_recvfrom :: "c_int \<Rightarrow> ptr \<Rightarrow> size_t \<Rightarrow> c_int \<Rightarrow> ptr \<Rightarrow> ptr \<Rightarrow> 's \<Rightarrow> ssize_t \<times> 's"
  lc_read :: "c_int \<Rightarrow> ptr \<Rightarrow> size_t \<Rightarrow> 's \<Rightarrow> ssize_t \<times> 's"
  lc_pread :: "c_int \<Rightarrow> ptr \<Rightarrow> size_t \<Rightarrow> off_t \<Rightarrow> 's \<Rightarrow> ssize_t \<times> 's"
  lc_readv :: "c_int \<Rightarrow> ptr \<Rightarrow> c_int \<Rightarrow> 's \<Rightarrow> ssize_t \<times> 's"
  lc_preadv :: "c_int \<Rightarrow> ptr \<Rightarrow> c_int \<Rightarrow> off_t \<Rightarrow> 's \<Rightarrow> ssize_t \<times> 's"
  lc_recvmsg :: "c_int \<Rightarrow> ptr \<Rightarrow> c_int \<Rightarrow> 's \<Rightarrow> ssize_t \<times> 's"

record 's libc_write = "'s libc_read" +
  lc_send :: "c_int \<Rightarrow> ptr \<Rightarrow> size_t \<Rightarrow> c_int \<Rightarrow> 's \<Rightarrow> ssize_t \<times> 's"
  lc_sendto :: "c_int \<Rightarrow> ptr \<Rightarrow> size_t \<Rightarrow> c_int \<Rightarrow> ptr \<Rightarrow> c_uint \<Rightarrow> 's \<Rightarrow> ssize_t \<times> 's"
  lc_write :: "c_int \<Rightarrow> ptr \<Rightarrow> size_t \<Rightarrow> 's \<Rightarrow> ssize_t \<times> 's"
  lc_pwrite :: "c_int \<Rightarrow> ptr \<Rightarrow> size_t \<Rightarrow> off_t \<Rightarrow> 's \<Rightarrow> ssize_t \<times> 's"
  lc_writev :: "c_int \<Rightarrow> ptr \<Rightarrow> c_int \<Rightarrow> 's \<Rightarrow> ssize_t \<times> 's"
  lc_pwritev :: "c_int \<Rightarrow> ptr \<Rightarrow> c_int \<Rightarrow> off_t \<Rightarrow> 's \<Rightarrow> ssize_t \<times> 's"
  lc_sendmsg :: "c_int \<Rightarrow> ptr \<Rightarrow> c_int \<Rightarrow> 's \<Rightarrow> ssize_t \<times> 's"

record 's libc_ops = "'s libc_write" +
  lc_epoll_ctl :: "c_int \<Rightarrow> c_int \<Rightarrow> c_int \<Rightarrow> ptr \<Rightarrow> 's \<Rightarrow> c_int \<times> 's"
  lc_accept4 :: "c_int \<Rightarrow> ptr \<Rightarrow> ptr \<Rightarrow> c_int \<Rightarrow> 's \<Rightarrow> c_int \<times> 's"

subsection \<open>Blocking mode\<close>

unbundle bit_operations_syntax

definition set_non_blocking_flag :: "'s libc_ops \<Rightarrow> c_int \<Rightarrow> bool \<Rightarrow> 's \<Rightarrow> bool \<times> 's" where
  "set_non_blocking_flag C socket on s =
     (let (flags, s) = lc_fcntl_getfl C socket s in
      if flags <s 0 then (False, s)
      else
        let (r, s) = lc_fcntl_setfl C socket (if on then flags OR O_NONBLOCK else flags AND NOT O_NONBLOCK) s
        in (r = 0, s))"

definition set_non_blocking :: "'s libc_ops \<Rightarrow> c_int \<Rightarrow> (unit, 'e, 's) prog" where
  "set_non_blocking C socket =
     andThen (state_of (set_non_blocking_flag C socket True))
       (\<lambda>done. if done then ret () else panic ''set_non_blocking failed !'')"

definition set_blocking :: "'s libc_ops \<Rightarrow> c_int \<Rightarrow> (unit, 'e, 's) prog" where
  "set_blocking C socket =
     andThen (state_of (set_non_blocking_flag C socket False))
       (\<lambda>done. if done then ret () else panic ''set_blocking failed !'')"

definition is_non_blocking :: "'s libc_ops \<Rightarrow> c_int \<Rightarrow> 's \<Rightarrow> bool \<times> 's" where
  "is_non_blocking C socket s =
     (let (flags, s) = lc_fcntl_getfl C socket s in
      if flags <s 0 then (False, s) else (flags AND O_NONBLOCK \<noteq> 0, s))"

definition is_blocking :: "'s libc_ops \<Rightarrow> c_int \<Rightarrow> 's \<Rightarrow> bool \<times> 's" where
  "is_blocking C socket s = (let (b, s) = is_non_blocking C socket s in (\<not> b, s))"

text \<open>
  The macro \<^verbatim>\<open>impl_non_blocking\<close>: the descriptor is non-blocking while the block \<open>impls\<close> runs. The block ends with
  its value (\<open>Inr\<close>), or it leaves the function with \<^verbatim>\<open>return\<close> (\<open>Inl\<close>) and what follows it in the macro is skipped.
\<close>

definition impl_non_blocking :: "'s libc_ops \<Rightarrow> c_int \<Rightarrow> ('a + 'a, 'e, 's) prog \<Rightarrow> ('a, 'e, 's) prog" where
  "impl_non_blocking C socket impls =
     andThen (state_of (is_blocking C socket)) (\<lambda>blocking.
     andThen (if blocking then set_non_blocking C socket else ret ()) (\<lambda>_.
     andThen impls (\<lambda>res.
     case res of
       Inl r \<Rightarrow> ret r
     | Inr r \<Rightarrow> andThen (if blocking then set_blocking C socket else ret ()) (\<lambda>_. ret r))))"

subsection \<open>The raw layer\<close>

text \<open>The default methods of the trait. Without a function to call, \<open>recv\<close> calls \<^verbatim>\<open>libc::send\<close>.\<close>

definition c_call :: "('s \<Rightarrow> 'a \<times> 's) \<Rightarrow> ('a, unit, 's) prog" where
  "c_call f = state_of f"

definition raw_sleep where
  "raw_sleep C fn_ptr secs =
     c_call (case fn_ptr of Some f \<Rightarrow> f secs | None \<Rightarrow> lc_sleep C secs)"

definition raw_usleep where
  "raw_usleep C fn_ptr microseconds =
     c_call (case fn_ptr of Some f \<Rightarrow> f microseconds | None \<Rightarrow> lc_usleep C microseconds)"

definition raw_nanosleep where
  "raw_nanosleep C fn_ptr rqtp rmtp =
     c_call (case fn_ptr of Some f \<Rightarrow> f rqtp rmtp | None \<Rightarrow> lc_nanosleep C rqtp rmtp)"

definition raw_poll where
  "raw_poll C fn_ptr fds nfds timeout =
     c_call (case fn_ptr of Some f \<Rightarrow> f fds nfds timeout | None \<Rightarrow> lc_poll C fds nfds timeout)"

definition raw_select where
  "raw_select C fn_ptr nfds readfds writefds errorfds timeout =
     c_call (case fn_ptr of Some f \<Rightarrow> f nfds readfds writefds errorfds timeout | None \<Rightarrow> lc_select C nfds readfds writefds errorfds timeout)"

definition raw_socket where
  "raw_socket C fn_ptr domain ty protocol =
     c_call (case fn_ptr of Some f \<Rightarrow> f domain ty protocol | None \<Rightarrow> lc_socket C domain ty protocol)"

definition raw_listen where
  "raw_listen C fn_ptr socket backlog =
     c_call (case fn_ptr of Some f \<Rightarrow> f socket backlog | None \<Rightarrow> lc_listen C socket backlog)"

definition raw_accept where
  "raw_accept C fn_ptr socket address address_len =
     c_call (case fn_ptr of Some f \<Rightarrow> f socket address address_len | None \<Rightarrow> lc_accept C socket address address_len)"

definition raw_connect where
  "raw_connect C fn_ptr socket address len =
     c_call (case fn_ptr of Some f \<Rightarrow> f socket address len | None \<Rightarrow> lc_connect C socket address len)"

definition raw_shutdown where
  "raw_shutdown C fn_ptr socket how =
     c_call (case fn_ptr of Some f \<Rightarrow> f socket how | None \<Rightarrow> lc_shutdown C socket how)"

definition raw_close where
  "raw_close C fn_ptr fd =
     c_call (case fn_ptr of Some f \<Rightarrow> f fd | None \<Rightarrow> lc_close C fd)"

definition raw_recv where
  "raw_recv C fn_ptr socket buf len flags =
     c_call (case fn_ptr of Some f \<Rightarrow> f socket buf len flags | None \<Rightarrow> lc_send C socket buf len flags)"

definition raw_recvfrom where
  "raw_recvfrom C fn_ptr socket buf len flags addr addrlen =
     c_call (case fn_ptr of Some f \<Rightarrow> f socket buf len flags addr addrlen | None \<Rightarrow> lc_recvfrom C socket buf len flags addr addrlen)"

definition raw_read where
  "raw_read C fn_ptr fd buf cnt =
     c_call (case fn_ptr of Some f \<Rightarrow> f fd buf cnt | None \<Rightarrow> lc_read C fd buf cnt)"

definition raw_pread where
  "raw_pread C fn_ptr fd buf cnt offset =
     c_call (case fn_ptr of Some f \<Rightarrow> f fd buf cnt offset | None \<Rightarrow> lc_pread C fd buf cnt offset)"

definition raw_readv where
  "raw_readv C fn_ptr fd iov iovcnt =
     c_call (case fn_ptr of Some f \<Rightarrow> f fd iov iovcnt | None \<Rightarrow> lc_readv C fd iov iovcnt)"

definition raw_preadv where
  "raw_preadv C fn_ptr fd iov iovcnt offset =
     c_call (case fn_ptr of Some f \<Rightarrow> f fd iov iovcnt offset | None \<Rightarrow> lc_preadv C fd iov iovcnt offset)"

definition raw_recvmsg where
  "raw_recvmsg C fn_ptr fd msg flags =
     c_call (case fn_ptr of Some f \<Rightarrow> f fd msg flags | None \<Rightarrow> lc_recvmsg C fd msg flags)"

definition raw_send where
  "raw_send C fn_ptr socket buf len flags =
     c_call (case fn_ptr of Some f \<Rightarrow> f socket buf len flags | None \<Rightarrow> lc_send C socket buf len flags)"

definition raw_sendto where
  "raw_sendto C fn_ptr socket buf len flags addr addrlen =
     c_call (case fn_ptr of Some f \<Rightarrow> f socket buf len flags addr addrlen | None \<Rightarrow> lc_sendto C socket buf len flags addr addrlen)"

definition raw_write where
  "raw_write C fn_ptr fd buf cnt =
     c_call (case fn_ptr of Some f \<Rightarrow> f fd buf cnt | None \<Rightarrow> lc_write C fd buf cnt)"

definition raw_pwrite where
  "raw_pwrite C fn_ptr fd buf cnt offset =
     c_call (case fn_ptr of Some f \<Rightarrow> f fd buf cnt offset | None \<Rightarrow> lc_pwrite C fd buf cnt offset)"

definition raw_writev where
  "raw_writev C fn_ptr fd iov iovcnt =
     c_call (case fn_ptr of Some f \<Rightarrow> f fd iov iovcnt | None \<Rightarrow> lc_writev C fd iov iovcnt)"

definition raw_pwritev where
  "raw_pwritev C fn_ptr fd iov iovcnt offset =
     c_call (case fn_ptr of Some f \<Rightarrow> f fd iov iovcnt offset | None \<Rightarrow> lc_pwritev C fd iov iovcnt offset)"

definition raw_sendmsg where
  "raw_sendmsg C fn_ptr fd msg flags =
     c_call (case fn_ptr of Some f \<Rightarrow> f fd msg flags | None \<Rightarrow> lc_sendmsg C fd msg flags)"

definition raw_epoll_ctl where
  "raw_epoll_ctl C fn_ptr epfd op fd event =
     c_call (case fn_ptr of Some f \<Rightarrow> f epfd op fd event | None \<Rightarrow> lc_epoll_ctl C epfd op fd event)"

definition raw_accept4 where
  "raw_accept4 C fn_ptr fd addr len flg =
     c_call (case fn_ptr of Some f \<Rightarrow> f fd addr len flg | None \<Rightarrow> lc_accept4 C fd addr len flg)"

end
