(* ===== verification/Selector.thy ===== *)
theory Selector
  imports Syscall Containers
begin

text \<open>
  The selector (\<^verbatim>\<open>open-coroutine-core/src/net/selector.rs\<close>): a poller of the operating system and the process-wide
  tables that remember which descriptors are registered, for what, and with which token.

  The third-party poller is the record of operations \<open>poller_ops\<close>; the tables are concurrent maps (a \<^verbatim>\<open>DashSet\<close> is a
  \<^verbatim>\<open>DashMap\<close> to the unit value). The state of an operation is the selector's own poller and the state of the thread
  with the tables, which all selectors share.
\<close>

subsection \<open>Events and pollers\<close>

record pevent =
  ev_key :: usize
  ev_readable :: bool
  ev_writable :: bool

definition Event_all :: "usize \<Rightarrow> pevent" where
  "Event_all key = \<lparr>ev_key = key, ev_readable = True, ev_writable = True\<rparr>"

definition Event_readable :: "usize \<Rightarrow> pevent" where
  "Event_readable key = \<lparr>ev_key = key, ev_readable = True, ev_writable = False\<rparr>"

definition Event_writable :: "usize \<Rightarrow> pevent" where
  "Event_writable key = \<lparr>ev_key = key, ev_readable = False, ev_writable = True\<rparr>"

datatype poll_mode = Edge | Level

record ('po, 'x) poller_ops =
  pr_new :: "('po, 'x) outcome"
  pr_supports_edge :: "'po \<Rightarrow> bool"
  pr_add_with_mode :: "c_int \<Rightarrow> pevent \<Rightarrow> poll_mode \<Rightarrow> 'po \<Rightarrow> (unit, 'x) outcome \<times> 'po"
  pr_modify_with_mode :: "c_int \<Rightarrow> pevent \<Rightarrow> poll_mode \<Rightarrow> 'po \<Rightarrow> (unit, 'x) outcome \<times> 'po"
  pr_delete :: "c_int \<Rightarrow> 'po \<Rightarrow> (unit, 'x) outcome \<times> 'po"
  pr_wait :: "duration option \<Rightarrow> 'po \<Rightarrow> (pevent list \<times> (usize, 'x) outcome) \<times> 'po"

subsection \<open>Tables\<close>

record ('co, 'tf, 'ds, 'dt) net = "'co io" +
  TOKEN_FD :: 'tf
  READABLE_RECORDS :: 'ds
  READABLE_TOKEN_RECORDS :: 'dt
  WRITABLE_RECORDS :: 'ds
  WRITABLE_TOKEN_RECORDS :: 'dt
  CSTRINGS :: "(ptr \<times> string) list"
  EVENT_LOOP_STOP :: usize

record ('tf, 'ds, 'dt) net_maps =
  nm_fd :: "('tf, usize, c_int) dash_ops"
  nm_set :: "('ds, c_int, unit) dash_ops"
  nm_token :: "('dt, c_int, usize) dash_ops"

abbreviation set_contains :: "('tf, 'ds, 'dt) net_maps \<Rightarrow> c_int \<Rightarrow> 'ds \<Rightarrow> bool" where
  "set_contains M fd d \<equiv> dm_get (nm_set M) fd d \<noteq> None"

type_synonym ('a, 'x, 'po, 'co, 'tf, 'ds, 'dt, 'z) sel_prog =
  "('a, 'x, 'po \<times> ('co, 'tf, 'ds, 'dt, 'z) net_scheme) prog"

subsection \<open>The selector\<close>

definition sel_new :: "('po, 'x) poller_ops \<Rightarrow> ('po, 'x) outcome" where
  "sel_new P = pr_new P"

definition sel_default :: "('po, 'x) poller_ops \<Rightarrow> ('po, 'x) outcome" where
  "sel_default P = (case sel_new P of Ok p \<Rightarrow> Ok p | Err e \<Rightarrow> Panic ''create selector failed'' | Panic m \<Rightarrow> Panic m)"

definition get_mode :: "('po, 'x) poller_ops \<Rightarrow> 'po \<Rightarrow> poll_mode" where
  "get_mode P p = (if pr_supports_edge P p then Edge else Level)"

definition on_poller :: "('po \<Rightarrow> (unit, 'x) outcome \<times> 'po) \<Rightarrow> (unit, 'x, 'po \<times> 'w) prog" where
  "on_poller f = (\<lambda>(p, w). case f p of (r, p) \<Rightarrow> Some (r, (p, w)))"

definition insert_token_fd :: "('tf, 'ds, 'dt) net_maps \<Rightarrow> usize \<Rightarrow> c_int \<Rightarrow> (unit, 'x, 'po, 'co, 'tf, 'ds, 'dt, 'z) sel_prog" where
  "insert_token_fd M token fd =
     upd (\<lambda>(p, w). (p, w\<lparr>TOKEN_FD := snd (dm_insert (nm_fd M) token fd (TOKEN_FD w))\<rparr>))"

definition register :: "('tf, 'ds, 'dt) net_maps \<Rightarrow> ('po, 'x) poller_ops \<Rightarrow> c_int \<Rightarrow> usize \<Rightarrow> pevent
    \<Rightarrow> (unit, 'x, 'po, 'co, 'tf, 'ds, 'dt, 'z) sel_prog" where
  "register M P fd token interests =
     andThen (on_poller (\<lambda>p. pr_add_with_mode P fd interests (get_mode P p) p)) (\<lambda>_. insert_token_fd M token fd)"

definition reregister :: "('tf, 'ds, 'dt) net_maps \<Rightarrow> ('po, 'x) poller_ops \<Rightarrow> c_int \<Rightarrow> usize \<Rightarrow> pevent
    \<Rightarrow> (unit, 'x, 'po, 'co, 'tf, 'ds, 'dt, 'z) sel_prog" where
  "reregister M P fd token interests =
     andThen (on_poller (\<lambda>p. pr_modify_with_mode P fd interests (get_mode P p) p)) (\<lambda>_. insert_token_fd M token fd)"

definition deregister :: "('tf, 'ds, 'dt) net_maps \<Rightarrow> ('po, 'x) poller_ops \<Rightarrow> c_int \<Rightarrow> usize
    \<Rightarrow> (unit, 'x, 'po, 'co, 'tf, 'ds, 'dt, 'z) sel_prog" where
  "deregister M P fd token =
     andThen (on_poller (pr_delete P fd)) (\<lambda>_.
       upd (\<lambda>(p, w). (p, w\<lparr>TOKEN_FD := snd (dm_remove (nm_fd M) token (TOKEN_FD w))\<rparr>)))"

text \<open>\<^verbatim>\<open>p.or(q)\<close> with \<open>q\<close> a call: it is made in any case, before \<^verbatim>\<open>or\<close> looks at the result of \<open>p\<close>.\<close>

definition or_eager :: "(unit, 'x, 's) prog \<Rightarrow> (unit, 'x, 's) prog \<Rightarrow> (unit, 'x, 's) prog" where
  "or_eager p q s =
     (case p s of
        None \<Rightarrow> None
      | Some (Ok _, s) \<Rightarrow> attempt q (\<lambda>_. ret ()) s
      | Some (Err _, s) \<Rightarrow> q s
      | Some (Panic m, s) \<Rightarrow> Some (Panic m, s))"

text \<open>What \<open>select\<close> does with one event.\<close>

definition sel_deliver :: "('tf, 'ds, 'dt) net_maps \<Rightarrow> pevent \<Rightarrow> ('co, 'tf, 'ds, 'dt, 'z) net_scheme
    \<Rightarrow> ('co, 'tf, 'ds, 'dt, 'z) net_scheme" where
  "sel_deliver M event w =
     (let (r, m) = dm_remove (nm_fd M) (ev_key event) (TOKEN_FD w);
          fd = (case r of None \<Rightarrow> 0 | Some fd \<Rightarrow> fd);
          w = w\<lparr>TOKEN_FD := m\<rparr>;
          w = (if ev_readable event
               then w\<lparr>READABLE_TOKEN_RECORDS := snd (dm_remove (nm_token M) fd (READABLE_TOKEN_RECORDS w))\<rparr> else w)
      in if ev_writable event
         then w\<lparr>WRITABLE_TOKEN_RECORDS := snd (dm_remove (nm_token M) fd (WRITABLE_TOKEN_RECORDS w))\<rparr> else w)"

text \<open>\<open>select\<close> fills the caller's vector, which is empty, and gives the poller's result.\<close>

definition sel_select :: "('tf, 'ds, 'dt) net_maps \<Rightarrow> ('po, 'x) poller_ops \<Rightarrow> duration option
    \<Rightarrow> 'po \<times> ('co, 'tf, 'ds, 'dt, 'z) net_scheme
    \<Rightarrow> (pevent list \<times> (usize, 'x) outcome) \<times> 'po \<times> ('co, 'tf, 'ds, 'dt, 'z) net_scheme" where
  "sel_select M P timeout = (\<lambda>(p, w).
     case pr_wait P timeout p of ((events, result), p) \<Rightarrow>
       ((events, result), (p, fold (sel_deliver M) events w)))"

definition add_read_event :: "('tf, 'ds, 'dt) net_maps \<Rightarrow> ('po, 'x) poller_ops \<Rightarrow> c_int \<Rightarrow> usize
    \<Rightarrow> (unit, 'x, 'po, 'co, 'tf, 'ds, 'dt, 'z) sel_prog" where
  "add_read_event M P fd token =
     andThen (gets (\<lambda>(p, w). set_contains M fd (READABLE_RECORDS w))) (\<lambda>present.
       if present then ret ()
       else
         andThen (gets (\<lambda>(p, w). set_contains M fd (WRITABLE_RECORDS w))) (\<lambda>writable.
         andThen (if writable
                  then or_eager (reregister M P fd token (Event_all token)) (register M P fd token (Event_all token))
                  else register M P fd token (Event_readable token)) (\<lambda>_.
         upd (\<lambda>(p, w). (p, w\<lparr>READABLE_RECORDS := snd (dm_insert (nm_set M) fd () (READABLE_RECORDS w)),
           READABLE_TOKEN_RECORDS := snd (dm_insert (nm_token M) fd token (READABLE_TOKEN_RECORDS w))\<rparr>)))))"

definition add_write_event :: "('tf, 'ds, 'dt) net_maps \<Rightarrow> ('po, 'x) poller_ops \<Rightarrow> c_int \<Rightarrow> usize
    \<Rightarrow> (unit, 'x, 'po, 'co, 'tf, 'ds, 'dt, 'z) sel_prog" where
  "add_write_event M P fd token =
     andThen (gets (\<lambda>(p, w). set_contains M fd (WRITABLE_RECORDS w))) (\<lambda>present.
       if present then ret ()
       else
         andThen (gets (\<lambda>(p, w). set_contains M fd (READABLE_RECORDS w))) (\<lambda>readable.
         andThen (if readable
                  then or_eager (reregister M P fd token (Event_all token)) (register M P fd token (Event_all token))
                  else register M P fd token (Event_writable token)) (\<lambda>_.
         upd (\<lambda>(p, w). (p, w\<lparr>WRITABLE_RECORDS := snd (dm_insert (nm_set M) fd () (WRITABLE_RECORDS w)),
           WRITABLE_TOKEN_RECORDS := snd (dm_insert (nm_token M) fd token (WRITABLE_TOKEN_RECORDS w))\<rparr>)))))"

text \<open>\<^verbatim>\<open>READABLE_TOKEN_RECORDS.remove(&fd).or(WRITABLE_TOKEN_RECORDS.remove(&fd))\<close> removes from both.\<close>

definition remove_tokens :: "('tf, 'ds, 'dt) net_maps \<Rightarrow> c_int \<Rightarrow> 'po \<times> ('co, 'tf, 'ds, 'dt, 'z) net_scheme
    \<Rightarrow> usize \<times> 'po \<times> ('co, 'tf, 'ds, 'dt, 'z) net_scheme" where
  "remove_tokens M fd = (\<lambda>(p, w).
     let (r, m) = dm_remove (nm_token M) fd (READABLE_TOKEN_RECORDS w);
         (r', m') = dm_remove (nm_token M) fd (WRITABLE_TOKEN_RECORDS w)
     in (case r of Some token \<Rightarrow> token | None \<Rightarrow> (case r' of Some token \<Rightarrow> token | None \<Rightarrow> 0),
         (p, w\<lparr>READABLE_TOKEN_RECORDS := m, WRITABLE_TOKEN_RECORDS := m'\<rparr>)))"

definition sel_del_event :: "('tf, 'ds, 'dt) net_maps \<Rightarrow> ('po, 'x) poller_ops \<Rightarrow> c_int
    \<Rightarrow> (unit, 'x, 'po, 'co, 'tf, 'ds, 'dt, 'z) sel_prog" where
  "sel_del_event M P fd =
     andThen (gets (\<lambda>(p, w). set_contains M fd (READABLE_RECORDS w) \<or> set_contains M fd (WRITABLE_RECORDS w))) (\<lambda>present.
       if present then
         andThen (state_of (remove_tokens M fd)) (\<lambda>token.
         andThen (deregister M P fd token) (\<lambda>_.
         upd (\<lambda>(p, w). (p, w\<lparr>READABLE_RECORDS := snd (dm_remove (nm_set M) fd (READABLE_RECORDS w)),
           WRITABLE_RECORDS := snd (dm_remove (nm_set M) fd (WRITABLE_RECORDS w))\<rparr>))))
       else ret ())"

text \<open>The two assertions of \<open>del_read_event\<close> and \<open>del_write_event\<close>: what is removed has to be there.\<close>

definition clean_readable :: "('tf, 'ds, 'dt) net_maps \<Rightarrow> c_int \<Rightarrow> (unit, 'x, 'po, 'co, 'tf, 'ds, 'dt, 'z) sel_prog" where
  "clean_readable M fd = (\<lambda>(p, w).
     let (r, d) = dm_remove (nm_set M) fd (READABLE_RECORDS w); w = w\<lparr>READABLE_RECORDS := d\<rparr> in
     if r = None then Some (Panic ''Clean READABLE_RECORDS failed !'', (p, w))
     else
       let (r, d) = dm_remove (nm_token M) fd (READABLE_TOKEN_RECORDS w); w = w\<lparr>READABLE_TOKEN_RECORDS := d\<rparr> in
       if r = None then Some (Panic ''Clean READABLE_TOKEN_RECORDS failed !'', (p, w))
       else Some (Ok (), (p, w)))"

definition clean_writable :: "('tf, 'ds, 'dt) net_maps \<Rightarrow> c_int \<Rightarrow> (unit, 'x, 'po, 'co, 'tf, 'ds, 'dt, 'z) sel_prog" where
  "clean_writable M fd = (\<lambda>(p, w).
     let (r, d) = dm_remove (nm_set M) fd (WRITABLE_RECORDS w); w = w\<lparr>WRITABLE_RECORDS := d\<rparr> in
     if r = None then Some (Panic ''Clean WRITABLE_RECORDS failed !'', (p, w))
     else
       let (r, d) = dm_remove (nm_token M) fd (WRITABLE_TOKEN_RECORDS w); w = w\<lparr>WRITABLE_TOKEN_RECORDS := d\<rparr> in
       if r = None then Some (Panic ''Clean WRITABLE_TOKEN_RECORDS failed !'', (p, w))
       else Some (Ok (), (p, w)))"

definition sel_del_read_event :: "('tf, 'ds, 'dt) net_maps \<Rightarrow> ('po, 'x) poller_ops \<Rightarrow> c_int
    \<Rightarrow> (unit, 'x, 'po, 'co, 'tf, 'ds, 'dt, 'z) sel_prog" where
  "sel_del_read_event M P fd =
     andThen (gets (\<lambda>(p, w). (set_contains M fd (READABLE_RECORDS w), set_contains M fd (WRITABLE_RECORDS w),
        dm_get (nm_token M) fd (WRITABLE_TOKEN_RECORDS w)))) (\<lambda>(readable, writable, t).
       if readable then
         if writable then
           let token = (case t of None \<Rightarrow> 0 | Some token \<Rightarrow> token) in
           andThen (reregister M P fd token (Event_writable token)) (\<lambda>_. clean_readable M fd)
         else sel_del_event M P fd
       else ret ())"

definition sel_del_write_event :: "('tf, 'ds, 'dt) net_maps \<Rightarrow> ('po, 'x) poller_ops \<Rightarrow> c_int
    \<Rightarrow> (unit, 'x, 'po, 'co, 'tf, 'ds, 'dt, 'z) sel_prog" where
  "sel_del_write_event M P fd =
     andThen (gets (\<lambda>(p, w). (set_contains M fd (READABLE_RECORDS w), set_contains M fd (WRITABLE_RECORDS w),
        dm_get (nm_token M) fd (READABLE_TOKEN_RECORDS w)))) (\<lambda>(readable, writable, t).
       if writable then
         if readable then
           let token = (case t of None \<Rightarrow> 0 | Some token \<Rightarrow> token) in
           andThen (reregister M P fd token (Event_readable token)) (\<lambda>_. clean_writable M fd)
         else sel_del_event M P fd
       else ret ())"

end
