(* ===== verification/Nio.thy ===== *)
theory Nio
  imports Syscall
begin

text \<open>
  The non-blocking layer of the system calls (\<^verbatim>\<open>open-coroutine-core/src/syscall/nio.rs\<close>). A call on a descriptor is
  made on the non-blocking descriptor again and again; while it would block, the caller waits on an event loop.

  The event loops are reached through the interface \<open>event_ops\<close>. Every call of \<open>wait_read_event\<close> or
  \<open>wait_write_event\<close> sets the flag \<open>added\<close>, so the loops go on with it set. \<open>frame\<close> is the address of a local
  variable whose address is handed to the call below. Additions wrap, as in a release build.
\<close>

record ('e, 's) event_ops =
  ev_wait :: "duration option \<Rightarrow> (usize, 'e, 's) prog"
  ev_wait_read :: "c_int \<Rightarrow> bool \<Rightarrow> duration option \<Rightarrow> (usize, 'e, 's) prog"
  ev_wait_write :: "c_int \<Rightarrow> bool \<Rightarrow> duration option \<Rightarrow> (usize, 'e, 's) prog"
  ev_del :: "c_int \<Rightarrow> (unit, unit, 's) prog"
  ev_del_read :: "c_int \<Rightarrow> (unit, unit, 's) prog"
  ev_del_write :: "c_int \<Rightarrow> (unit, unit, 's) prog"

definition ms :: nat where "ms = 1000000"

subsection \<open>Loops\<close>

text \<open>What follows a call that did not finish: \<open>again\<close> is the next turn of the loop, given the flag \<open>added\<close>.\<close>

definition wait_or_break :: "(bool \<Rightarrow> (usize, 'e, ('co, 'z) io_scheme) prog) \<Rightarrow> 'r \<Rightarrow> bool
    \<Rightarrow> (bool \<Rightarrow> ('r, unit, ('co, 'z) io_scheme) prog) \<Rightarrow> ('r, unit, ('co, 'z) io_scheme) prog" where
  "wait_or_break wait r added again =
     andThen (gets (\<lambda>s. error_kind (errno s))) (\<lambda>kind.
       if kind = WouldBlock then attempt (wait added) (\<lambda>res. if res = None then ret r else again True)
       else if kind \<noteq> Interrupted then ret r
       else again added)"

lemma wait_or_break_mono [partial_function_mono]:
  assumes "\<And>b s. mono_option (\<lambda>f. again f b s)"
  shows "mono_option (\<lambda>f. wait_or_break wait r added (again f) s)"
  unfolding wait_or_break_def
  by (intro andThen_mono if_prog_mono attempt_mono assms option.const_mono)

text \<open>The macro \<^verbatim>\<open>impl_nio\<close>.\<close>

partial_function (option) nio_loop :: "(bool \<Rightarrow> (usize, 'e, ('co, 'z) io_scheme) prog)
    \<Rightarrow> ('w::len word, unit, ('co, 'z) io_scheme) prog \<Rightarrow> bool \<Rightarrow> ('co, 'z) io_scheme
    \<Rightarrow> (('w word, unit) outcome \<times> ('co, 'z) io_scheme) option" where
  "nio_loop wait call added s =
     andThen call (\<lambda>r.
       if r \<noteq> - 1 then andThen (upd reset_errno) (\<lambda>_. ret r)
       else wait_or_break wait r added (\<lambda>added. nio_loop wait call added)) s"

definition impl_nio where
  "impl_nio C wait socket call =
     impl_non_blocking C socket
       (andThen (nio_loop (\<lambda>added. wait socket added (Some (10 * ms))) call False) (\<lambda>r. ret (Inr r)))"

text \<open>The macro \<^verbatim>\<open>impl_nio_buf\<close>: \<open>call\<close> is given the rest of the buffer.\<close>

partial_function (option) nio_buf_loop :: "(bool \<Rightarrow> (usize, 'e, ('co, 'z) io_scheme) prog)
    \<Rightarrow> (ptr \<Rightarrow> size_t \<Rightarrow> (ssize_t, unit, ('co, 'z) io_scheme) prog) \<Rightarrow> bool \<Rightarrow> ptr \<Rightarrow> size_t
    \<Rightarrow> bool \<Rightarrow> size_t \<Rightarrow> ssize_t \<Rightarrow> ('co, 'z) io_scheme
    \<Rightarrow> ((ssize_t, unit) outcome \<times> ('co, 'z) io_scheme) option" where
  "nio_buf_loop wait call condition buffer len added done r s =
     (if done < len then
        andThen (call (buffer + done) (len - done)) (\<lambda>r.
        andThen (if r \<noteq> - 1 then upd reset_errno else ret ()) (\<lambda>_.
          let done = (if r \<noteq> - 1 then done + r else done) in
          if r \<noteq> - 1 \<and> (len \<le> done \<or> condition \<and> r = 0) then ret done
          else wait_or_break wait r added
                 (\<lambda>added. nio_buf_loop wait call condition buffer len added done r))) s
      else ret r s)"

definition impl_nio_buf where
  "impl_nio_buf C wait condition socket call buffer len =
     impl_non_blocking C socket
       (andThen (nio_buf_loop (\<lambda>added. wait socket added (Some (10 * ms))) call condition buffer len False 0 0)
         (\<lambda>r. ret (Inr r)))"

definition impl_read_nio_buf where
  "impl_read_nio_buf C W socket call buffer len = impl_nio_buf C (ev_wait_read W) True socket call buffer len"

definition impl_write_nio_buf where
  "impl_write_nio_buf C W socket call buffer len = impl_nio_buf C (ev_wait_write W) False socket call buffer len"

text \<open>
  The macros \<^verbatim>\<open>impl_nio_iovec\<close> and \<^verbatim>\<open>impl_nio_msghdr\<close>. The \<^verbatim>\<open>VecDeque\<close> is made of the caller's own array, so it is
  the array from the element \<open>skipped\<close> on; \<open>pices\<close> holds the running sums of the remaining elements. \<open>call\<close> is given
  the address and the number of the remaining elements. When the deque is dropped, the array is given back to the
  allocator.
\<close>

definition iovec_at :: "ptr \<Rightarrow> nat \<Rightarrow> ptr" where
  "iovec_at iov i = iov + 16 * of_nat i"

definition iovecs :: "ptr \<Rightarrow> nat \<Rightarrow> ('co, 'z) io_scheme \<Rightarrow> iovec list" where
  "iovecs iov n s = map (\<lambda>i. mem_iovec s (iovec_at iov i)) [0..<n]"

fun running_sums :: "size_t \<Rightarrow> iovec list \<Rightarrow> size_t list" where
  "running_sums len [] = []"
| "running_sums len (v # vs) = (len + iov_len v) # running_sums (len + iov_len v) vs"

fun find_from :: "size_t \<Rightarrow> nat \<Rightarrow> size_t list \<Rightarrow> nat" where
  "find_from done i [] = 0"
| "find_from done i (v # vs) = (if done < v then i else find_from done (Suc i) vs)"

definition drop_vec :: "ptr \<Rightarrow> nat \<Rightarrow> ('co, 'z) io_scheme \<Rightarrow> ('co, 'z) io_scheme" where
  "drop_vec iov n s = (if n = 0 then s else s\<lparr>freed := iov # freed s\<rparr>)"

definition shift_iovec :: "ptr \<Rightarrow> size_t \<Rightarrow> ('co, 'z) io_scheme \<Rightarrow> ('co, 'z) io_scheme" where
  "shift_iovec p offset s =
     (let v = mem_iovec s p in
      s\<lparr>mem_iovec := (mem_iovec s)(p := \<lparr>iov_base = iov_base v + offset, iov_len = iov_len v - offset\<rparr>)\<rparr>)"

partial_function (option) nio_iovec_loop :: "(bool \<Rightarrow> (usize, 'e, ('co, 'z) io_scheme) prog)
    \<Rightarrow> (ptr \<Rightarrow> nat \<Rightarrow> (ssize_t, unit, ('co, 'z) io_scheme) prog) \<Rightarrow> bool \<Rightarrow> ptr \<Rightarrow> size_t
    \<Rightarrow> nat \<Rightarrow> size_t list \<Rightarrow> bool \<Rightarrow> size_t \<Rightarrow> ssize_t \<Rightarrow> ('co, 'z) io_scheme
    \<Rightarrow> ((ssize_t, unit) outcome \<times> ('co, 'z) io_scheme) option" where
  "nio_iovec_loop wait call condition iov len skipped pices added done r s =
     (if done < len then
        let from_index = find_from done 0 pices;
            current_offset = (if from_index > 0 then saturating_sub done (pices ! (from_index - 1)) else done);
            skipped = skipped + from_index;
            pices = drop from_index pices
        in if pices = [] then panic ''Out of bounds access'' s
           else
             andThen (upd (shift_iovec (iovec_at iov skipped) current_offset)) (\<lambda>_.
             andThen (call (iovec_at iov skipped) (length pices)) (\<lambda>r.
             andThen (if r \<noteq> - 1 then upd reset_errno else ret ()) (\<lambda>_.
               let done = (if r \<noteq> - 1 then done + r else done) in
               if r \<noteq> - 1 \<and> (len \<le> done \<or> condition \<and> r = 0) then ret done
               else wait_or_break wait r added
                 (\<lambda>added. nio_iovec_loop wait call condition iov len skipped pices added done r)))) s
      else ret r s)"

definition nio_iovec_block where
  "nio_iovec_block wait condition socket call iov n =
     andThen (gets (\<lambda>s. running_sums 0 (iovecs iov n s))) (\<lambda>pices.
       let len = (if pices = [] then 0 else last pices) in
       andThen (nio_iovec_loop (\<lambda>added. wait socket added (Some (10 * ms))) call condition iov len 0 pices False 0 0)
         (\<lambda>r. andThen (upd (drop_vec iov n)) (\<lambda>_. ret (Inr r))))"

definition impl_nio_iovec where
  "impl_nio_iovec C wait condition socket call iov n =
     impl_non_blocking C socket (nio_iovec_block wait condition socket call iov n)"

text \<open>\<^verbatim>\<open>c_int::try_from(vec.len()).unwrap()\<close> in front of the call.\<close>

definition with_c_int :: "(ptr \<Rightarrow> c_int \<Rightarrow> ('a, 'e, 's) prog) \<Rightarrow> ptr \<Rightarrow> nat \<Rightarrow> ('a, 'e, 's) prog" where
  "with_c_int call p n =
     (if n < 2 ^ 31 then call p (of_nat n) else panic ''called `Result::unwrap()` on an `Err` value: TryFromIntError(())'')"

definition impl_read_nio_iovec where
  "impl_read_nio_iovec C W socket call iov (iovcnt :: c_int) =
     impl_nio_iovec C (ev_wait_read W) True socket (with_c_int call) iov (unat (scast iovcnt :: usize))"

definition impl_write_nio_iovec where
  "impl_write_nio_iovec C W socket call iov (iovcnt :: c_int) =
     impl_nio_iovec C (ev_wait_write W) False socket (with_c_int call) iov (unat (scast iovcnt :: usize))"

text \<open>The call is made with a fresh \<^verbatim>\<open>msghdr\<close> at \<open>frame\<close> for what remains (on Linux its length is a \<^verbatim>\<open>size_t\<close>).\<close>

definition with_new_msg :: "ptr \<Rightarrow> msghdr \<Rightarrow> (ptr \<Rightarrow> ('a, 'e, ('co, 'z) io_scheme) prog)
    \<Rightarrow> ptr \<Rightarrow> nat \<Rightarrow> ('a, 'e, ('co, 'z) io_scheme) prog" where
  "with_new_msg frame m call p n =
     andThen (upd (\<lambda>s. s\<lparr>mem_msghdr := (mem_msghdr s)(frame := m\<lparr>msg_iov := p, msg_iovlen := of_nat n\<rparr>)\<rparr>))
       (\<lambda>_. call frame)"

definition impl_nio_msghdr where
  "impl_nio_msghdr C wait condition frame socket call msg =
     impl_non_blocking C socket
       (andThen (gets (\<lambda>s. mem_msghdr s msg)) (\<lambda>m.
          nio_iovec_block wait condition socket (with_new_msg frame m call) (msg_iov m) (unat (msg_iovlen m))))"

definition impl_read_nio_msghdr where
  "impl_read_nio_msghdr C W frame socket call msg = impl_nio_msghdr C (ev_wait_read W) True frame socket call msg"

definition impl_write_nio_msghdr where
  "impl_write_nio_msghdr C W frame socket call msg = impl_nio_msghdr C (ev_wait_write W) False frame socket call msg"

subsection \<open>Sleeping\<close>

partial_function (option) sleep_until :: "('e, 'w env_scheme) event_ops \<Rightarrow> u64 \<Rightarrow> 'w env_scheme
    \<Rightarrow> ((unit, unit) outcome \<times> 'w env_scheme) option" where
  "sleep_until W timeout s =
     andThen read_clock (\<lambda>n.
       let left_time = saturating_sub timeout n in
       if left_time = 0 then ret ()
       else attempt (ev_wait W (Some (unat left_time))) (\<lambda>_. sleep_until W timeout)) s"

definition nio_sleep where
  "nio_sleep W (fn_ptr :: (c_uint \<Rightarrow> ('co, 'z) io_scheme \<Rightarrow> c_uint \<times> ('co, 'z) io_scheme) option) (secs :: c_uint) =
     andThen (timeout_after (unat secs * 1000000000)) (\<lambda>timeout.
     andThen (sleep_until W timeout) (\<lambda>_.
     andThen (upd reset_errno) (\<lambda>_. ret (0 :: c_uint))))"

definition nio_usleep where
  "nio_usleep W (fn_ptr :: (c_uint \<Rightarrow> ('co, 'z) io_scheme \<Rightarrow> c_int \<times> ('co, 'z) io_scheme) option) (microseconds :: c_uint) =
     andThen (timeout_after (unat microseconds * 1000)) (\<lambda>timeout.
     andThen (sleep_until W timeout) (\<lambda>_.
     andThen (upd reset_errno) (\<lambda>_. ret (0 :: c_int))))"

definition einval :: "(c_int, unit, ('co, 'z) io_scheme) prog" where
  "einval = andThen (upd (set_errno EINVAL)) (\<lambda>_. ret (- 1))"

definition nio_nanosleep where
  "nio_nanosleep W (fn_ptr :: (ptr \<Rightarrow> ptr \<Rightarrow> ('co, 'z) io_scheme \<Rightarrow> c_int \<times> ('co, 'z) io_scheme) option) rqtp rmtp =
     (if rqtp = 0 then einval
      else andThen (gets (\<lambda>s. mem_timespec s rqtp)) (\<lambda>t.
        if ts_sec t <s 0 \<or> ts_nsec t <s 0 \<or> 999999999 <s ts_nsec t then einval
        else if 2 ^ 32 \<le> unat (ts_nsec t) then einval
        else
          andThen (timeout_after (unat (ts_sec t) * 1000000000 + unat (ts_nsec t))) (\<lambda>timeout.
          andThen (sleep_until W timeout) (\<lambda>_.
          andThen (upd reset_errno) (\<lambda>_.
          andThen (if rmtp \<noteq> 0
                   then upd (\<lambda>s. s\<lparr>mem_timespec := (mem_timespec s)(rmtp := \<lparr>ts_sec = 0, ts_nsec = 0\<rparr>)\<rparr>)
                   else ret ()) (\<lambda>_.
          ret 0))))))"

subsection \<open>Polling\<close>

definition c_int_MAX :: c_int where "c_int_MAX = 2 ^ 31 - 1"
definition c_uint_MAX :: c_uint where "c_uint_MAX = - 1"

partial_function (option) poll_loop :: "('e, 's) event_ops \<Rightarrow> (c_int, unit, 's) prog \<Rightarrow> c_int \<Rightarrow> c_int \<Rightarrow> 's
    \<Rightarrow> ((c_int, unit) outcome \<times> 's) option" where
  "poll_loop W call t x s =
     andThen call (\<lambda>r.
       if r \<noteq> 0 \<or> t = 0 then ret r
       else attempt (ev_wait W (Some (nat (sint (if t \<le>s x then t else x)) * ms))) (\<lambda>_.
         poll_loop W call
           (if t \<noteq> c_int_MAX then if x <s t then t - x else 0 else t)
           (if x <s 16 then push_bit 1 x else x))) s"

definition nio_poll where
  "nio_poll C W fn_ptr fds nfds timeout =
     poll_loop W (raw_poll C fn_ptr fds nfds 0) (if timeout <s 0 then c_int_MAX else timeout) 1"

text \<open>The descriptor sets are written back before every further call, and the timeout is set to zero.\<close>

definition saved_set :: "ptr \<Rightarrow> ('co, 'z) io_scheme \<Rightarrow> fd_set" where
  "saved_set p s = (if p = 0 then 0 else mem_fd_set s p)"

definition restore_set :: "ptr \<Rightarrow> fd_set \<Rightarrow> ('co, 'z) io_scheme \<Rightarrow> ('co, 'z) io_scheme" where
  "restore_set p v s = (if p = 0 then s else s\<lparr>mem_fd_set := (mem_fd_set s)(p := v)\<rparr>)"

definition zero_timeval :: "ptr \<Rightarrow> ('co, 'z) io_scheme \<Rightarrow> ('co, 'z) io_scheme" where
  "zero_timeval p s = s\<lparr>mem_timeval := (mem_timeval s)(p := \<lparr>tv_sec = 0, tv_usec = 0\<rparr>)\<rparr>"

partial_function (option) select_loop :: "('e, ('co, 'z) io_scheme) event_ops
    \<Rightarrow> (c_int, unit, ('co, 'z) io_scheme) prog \<Rightarrow> (('co, 'z) io_scheme \<Rightarrow> ('co, 'z) io_scheme)
    \<Rightarrow> c_uint \<Rightarrow> c_uint \<Rightarrow> ('co, 'z) io_scheme
    \<Rightarrow> ((c_int, unit) outcome \<times> ('co, 'z) io_scheme) option" where
  "select_loop W call restore t x s =
     andThen call (\<lambda>r.
       if r \<noteq> 0 \<or> t = 0 then ret r
       else attempt (ev_wait W (Some (unat (min t x) * ms))) (\<lambda>_.
         andThen (upd restore) (\<lambda>_.
           select_loop W call restore
             (if t \<noteq> c_uint_MAX then if x < t then t - x else 0 else t)
             (if x < 16 then push_bit 1 x else x)))) s"

definition select_timeout :: "ptr \<Rightarrow> ('co, 'z) io_scheme \<Rightarrow> c_uint" where
  "select_timeout timeout s =
     (if timeout = 0 then c_uint_MAX
      else ucast (tv_sec (mem_timeval s timeout)) * 1000000 + ucast (tv_usec (mem_timeval s timeout)))"

definition nio_select where
  "nio_select frame C W fn_ptr nfds readfds writefds errorfds timeout =
     andThen (gets (select_timeout timeout)) (\<lambda>t.
     andThen (upd (zero_timeval frame)) (\<lambda>_.
     andThen (gets (\<lambda>s. (saved_set readfds s, saved_set writefds s, saved_set errorfds s))) (\<lambda>(s0, s1, s2).
       select_loop W (raw_select C fn_ptr nfds readfds writefds errorfds frame)
         (\<lambda>s. zero_timeval frame (restore_set errorfds s2 (restore_set writefds s1 (restore_set readfds s0 s)))) t 1)))"

subsection \<open>Sockets\<close>

definition nio_socket where
  "nio_socket C fn_ptr domain ty protocol = raw_socket C fn_ptr domain ty protocol"

definition nio_listen where
  "nio_listen C fn_ptr socket backlog = raw_listen C fn_ptr socket backlog"

definition nio_accept where
  "nio_accept C W fn_ptr socket address address_len =
     impl_nio C (ev_wait_read W) socket (raw_accept C fn_ptr socket address address_len)"

partial_function (option) connect_loop :: "('co, 'z) io_scheme libc_ops \<Rightarrow> ('e, ('co, 'z) io_scheme) event_ops
    \<Rightarrow> c_int \<Rightarrow> bool \<Rightarrow> ('co, 'z) io_scheme \<Rightarrow> ((c_int, unit) outcome \<times> ('co, 'z) io_scheme) option" where
  "connect_loop C W socket added s =
     andThen (gets errno) (\<lambda>e.
       if e = EINPROGRESS \<or> e = ENOTCONN then
         attempt (ev_wait_write W socket added (Some (10 * ms))) (\<lambda>res.
           if res = None then ret (- 1)
           else andThen (state_of (lc_getsockopt_error C socket 0 0)) (\<lambda>(r, err).
             if r \<noteq> 0 then ret (- 1)
             else if err \<noteq> 0 then andThen (upd (set_errno err)) (\<lambda>_. ret (- 1))
             else andThen (state_of (lc_getpeername C socket)) (\<lambda>r.
               if r = 0 then andThen (upd reset_errno) (\<lambda>_. ret 0)
               else connect_loop C W socket True)))
       else if e \<noteq> EINTR then ret (- 1)
       else connect_loop C W socket added) s"

definition nio_connect where
  "nio_connect C W fn_ptr socket address len =
     impl_non_blocking C socket
       (andThen (raw_connect C fn_ptr socket address len) (\<lambda>r.
          if r = 0 then andThen (upd reset_errno) (\<lambda>_. ret (Inl r))
          else
            andThen (connect_loop C W socket False) (\<lambda>r.
            andThen (gets errno) (\<lambda>e.
            andThen (if r = - 1 \<and> e = ETIMEDOUT then upd (set_errno EINPROGRESS) else ret ()) (\<lambda>_.
            ret (Inr r))))))"

definition nio_shutdown where
  "nio_shutdown C W fn_ptr socket how =
     (if how = 0 then andThen (ev_del_read W socket) (\<lambda>_. raw_shutdown C fn_ptr socket how)
      else if how = 1 then andThen (ev_del_write W socket) (\<lambda>_. raw_shutdown C fn_ptr socket how)
      else if how = 2 then andThen (ev_del W socket) (\<lambda>_. raw_shutdown C fn_ptr socket how)
      else einval)"

definition nio_close where
  "nio_close C W fn_ptr fd = andThen (ev_del W fd) (\<lambda>_. raw_close C fn_ptr fd)"

subsection \<open>Reading and writing\<close>

definition nio_recv where
  "nio_recv C W fn_ptr socket buf len flags =
     impl_read_nio_buf C W socket (\<lambda>buf len. raw_recv C fn_ptr socket buf len flags) buf len"

definition nio_recvfrom where
  "nio_recvfrom C W fn_ptr socket buf len flags addr addrlen =
     impl_read_nio_buf C W socket (\<lambda>buf len. raw_recvfrom C fn_ptr socket buf len flags addr addrlen) buf len"

definition nio_read where
  "nio_read C W fn_ptr fd buf cnt =
     impl_read_nio_buf C W fd (\<lambda>buf cnt. raw_read C fn_ptr fd buf cnt) buf cnt"

definition nio_pread where
  "nio_pread C W fn_ptr fd buf cnt offset =
     impl_read_nio_buf C W fd (\<lambda>buf cnt. raw_pread C fn_ptr fd buf cnt offset) buf cnt"

definition nio_readv where
  "nio_readv C W fn_ptr fd iov iovcnt =
     impl_read_nio_iovec C W fd (\<lambda>iov iovcnt. raw_readv C fn_ptr fd iov iovcnt) iov iovcnt"

definition nio_preadv where
  "nio_preadv C W fn_ptr fd iov iovcnt offset =
     impl_read_nio_iovec C W fd (\<lambda>iov iovcnt. raw_preadv C fn_ptr fd iov iovcnt offset) iov iovcnt"

definition nio_recvmsg where
  "nio_recvmsg frame C W fn_ptr fd msg flags =
     impl_read_nio_msghdr C W frame fd (\<lambda>msg. raw_recvmsg C fn_ptr fd msg flags) msg"

definition nio_send where
  "nio_send C W fn_ptr socket buf len flags =
     impl_write_nio_buf C W socket (\<lambda>buf len. raw_send C fn_ptr socket buf len flags) buf len"

definition nio_sendto where
  "nio_sendto C W fn_ptr socket buf len flags addr addrlen =
     impl_write_nio_buf C W socket (\<lambda>buf len. raw_sendto C fn_ptr socket buf len flags addr addrlen) buf len"

definition nio_write where
  "nio_write C W fn_ptr fd buf cnt =
     impl_write_nio_buf C W fd (\<lambda>buf cnt. raw_write C fn_ptr fd buf cnt) buf cnt"

definition nio_pwrite where
  "nio_pwrite C W fn_ptr fd buf cnt offset =
     impl_write_nio_buf C W fd (\<lambda>buf cnt. raw_pwrite C fn_ptr fd buf cnt offset) buf cnt"

definition nio_writev where
  "nio_writev C W fn_ptr fd iov iovcnt =
     impl_write_nio_iovec C W fd (\<lambda>iov iovcnt. raw_writev C fn_ptr fd iov iovcnt) iov iovcnt"

definition nio_pwritev where
  "nio_pwritev C W fn_ptr fd iov iovcnt offset =
     impl_write_nio_iovec C W fd (\<lambda>iov iovcnt. raw_pwritev C fn_ptr fd iov iovcnt offset) iov iovcnt"

definition nio_sendmsg where
  "nio_sendmsg frame C W fn_ptr fd msg flags =
     impl_write_nio_msghdr C W frame fd (\<lambda>msg. raw_sendmsg C fn_ptr fd msg flags) msg"

definition nio_epoll_ctl where
  "nio_epoll_ctl C fn_ptr epfd op fd event = raw_epoll_ctl C fn_ptr epfd op fd event"

definition nio_accept4 where
  "nio_accept4 C W fn_ptr fd addr len flg =
     impl_nio C (ev_wait_read W) fd (raw_accept4 C fn_ptr fd addr len flg)"

end
