(* ===== verification/EventLoop.thy ===== *)
theory EventLoop
  imports Selector Pool Nio
begin

text \<open>
  One event loop (\<^verbatim>\<open>open-coroutine-core/src/net/event_loop.rs\<close>): a coroutine pool with a selector. A loop is a value of
  the record \<open>event_loop\<close>; its operations act on the loop and on the state of the calling thread.

  \<open>enter\<close> and \<open>leave\<close> are the passage into the pool, whose operations see the thread's state as part of their own. The
  pool's operations come with the parameters of the pool (its queues, what tasks do, what other threads do while one
  waits): they are collected in the record \<open>pool_ops\<close>, and \<open>model_pool\<close> builds it from the pool of this development.

  \<open>yield\<close> stands for everything that happens between the suspension of a coroutine and its resumption.
\<close>

datatype 'x el_error =
    Pool_err pool_error
  | Io 'x
  | El_wait_timeout
  | El_stop_timeout
  | El_spawn_failed
  | El_invalid_name

subsection \<open>Into the pool and back\<close>

definition enter :: "('q, 'd, 'k, 'l, 'li, 'i, 'b, 'e, 'v) pool \<Rightarrow> 'n tls_scheme
    \<Rightarrow> ('q, 'd, 'k, 'l, 'li, 'i, 'b, 'e, 'v, 'n) pool_scheme" where
  "enter p w =
     pool.extend
       (p\<lparr>clk := clk w, reads := reads w, TIMESTAMP := TIMESTAMP w, COROUTINE := COROUTINE w, SUSPENDER := SUSPENDER w,
          SYSCALL := SYSCALL w, SCHEDULER := SCHEDULER w, COROUTINE_POOL := COROUTINE_POOL w,
          TRAP_HANDLER_INITED := TRAP_HANDLER_INITED w, signal_handlers := signal_handlers w\<rparr>)
       (tls.more w)"

definition leave :: "('q, 'd, 'k, 'l, 'li, 'i, 'b, 'e, 'v, 'n) pool_scheme
    \<Rightarrow> ('q, 'd, 'k, 'l, 'li, 'i, 'b, 'e, 'v) pool \<times> 'n tls_scheme" where
  "leave s = (pool.truncate s, tls.extend (tls.truncate s) (pool.more s))"

record ('s, 'f) pool_ops =
  po_schedule :: "u64 \<Rightarrow> (u64, pool_error, 's) prog"
  po_try_resume :: "string \<Rightarrow> 's \<Rightarrow> (unit, sched_error) outcome \<times> 's"
  po_try_get_result :: "string \<Rightarrow> 's \<Rightarrow> (string \<times> task_result) option \<times> 's"
  po_wait_result :: "string \<Rightarrow> duration \<Rightarrow> ((string \<times> task_result) option, pool_error, 's) prog"
  po_size :: "'s \<Rightarrow> nat"
  po_stop :: "duration \<Rightarrow> (unit, pool_error, 's) prog"
  po_submit_raw :: "'f task \<Rightarrow> 's \<Rightarrow> (string, pool_error) outcome \<times> 's"
  po_pop :: "('f task option, pool_error, 's) prog"

definition model_pool where
  "model_pool T Q D L E V f alloc page_size uuid worker local_default run others =
     (let schedule = pool_try_timeout_schedule T Q D L f alloc page_size uuid worker local_default in
      \<lparr>po_schedule = schedule,
       po_try_resume = pool_try_resume Q D,
       po_try_get_result = pool_try_get_result E,
       po_wait_result = pool_wait_result T E V run others,
       po_size = pool_size T,
       po_stop = pool_stop T schedule others,
       po_submit_raw = pool_submit_raw T,
       po_pop = (\<lambda>s. case pool_pop T s of None \<Rightarrow> None | Some (r, s) \<Rightarrow> Some (Ok r, s))\<rparr>)"

subsection \<open>State\<close>

record ('p, 'po) event_loop =
  el_cpu :: nat
  el_pool :: 'p
  el_poller :: 'po
  el_stop_pending :: bool

text \<open>Running a part on the selector, or on the pool, of a loop.\<close>

definition on_selector :: "('a, 'x, 'po \<times> 'w) prog \<Rightarrow> ('a, 'x el_error, ('p, 'po) event_loop \<times> 'w) prog" where
  "on_selector q = (\<lambda>(e, w).
     case q (el_poller e, w) of
       None \<Rightarrow> None
     | Some (Ok a, (p, w)) \<Rightarrow> Some (Ok a, (e\<lparr>el_poller := p\<rparr>, w))
     | Some (Err x, (p, w)) \<Rightarrow> Some (Err (Io x), (e\<lparr>el_poller := p\<rparr>, w))
     | Some (Panic m, (p, w)) \<Rightarrow> Some (Panic m, (e\<lparr>el_poller := p\<rparr>, w)))"

definition on_pool :: "('a, pool_error, ('q, 'd, 'k, 'l, 'li, 'i, 'b, 'e, 'v, 'n) pool_scheme) prog
    \<Rightarrow> ('a, 'x el_error, (('q, 'd, 'k, 'l, 'li, 'i, 'b, 'e, 'v) pool, 'po) event_loop \<times> 'n tls_scheme) prog" where
  "on_pool q = (\<lambda>(e, w).
     case q (enter (el_pool e) w) of
       None \<Rightarrow> None
     | Some (r, s) \<Rightarrow>
         let (p, w) = leave s; e = e\<lparr>el_pool := p\<rparr> in
         Some (case r of Ok a \<Rightarrow> Ok a | Err x \<Rightarrow> Err (Pool_err x) | Panic m \<Rightarrow> Panic m, (e, w)))"

definition el_name where "el_name e = pool_name (el_pool e)"
definition el_get_state where "el_get_state e = pool_get_state (el_pool e)"
definition el_get_min_size where "el_get_min_size e = pool_get_min_size (el_pool e)"
definition el_get_running_size where "el_get_running_size e = pool_get_running_size (el_pool e)"
definition el_get_max_size where "el_get_max_size e = pool_get_max_size (el_pool e)"
definition el_get_keep_alive_time where "el_get_keep_alive_time e = pool_get_keep_alive_time (el_pool e)"
definition el_set_min_size where "el_set_min_size n e = e\<lparr>el_pool := pool_set_min_size n (el_pool e)\<rparr>"
definition el_set_max_size where "el_set_max_size n e = e\<lparr>el_pool := pool_set_max_size n (el_pool e)\<rparr>"
definition el_set_keep_alive_time where "el_set_keep_alive_time t e = e\<lparr>el_pool := pool_set_keep_alive_time t (el_pool e)\<rparr>"

definition el_change_state where
  "el_change_state st e = (let (old, p) = pool_change_state st (el_pool e) in (old, e\<lparr>el_pool := p\<rparr>))"

definition el_change_blocker where
  "el_change_blocker b e = (let (old, p) = pool_change_blocker b (el_pool e) in (old, e\<lparr>el_pool := p\<rparr>))"

definition el_size where "el_size PO = (\<lambda>(e, w). po_size PO (enter (el_pool e) w))"

definition el_is_empty where "el_is_empty PO s \<longleftrightarrow> el_size PO s = 0"

definition el_pop where "el_pop PO = on_pool (po_pop PO)"

text \<open>\<open>pool\<close> is the pool \<open>new\<close> makes, named after the loop, with a \<^verbatim>\<open>DelayBlocker\<close>.\<close>

definition el_new :: "('po, 'x) poller_ops \<Rightarrow> nat \<Rightarrow> 'p \<Rightarrow> (('p, 'po) event_loop, 'x) outcome" where
  "el_new P cpu pool =
     (case sel_new P of
        Ok p \<Rightarrow> Ok \<lparr>el_cpu = cpu, el_pool = pool, el_poller = p, el_stop_pending = False\<rparr>
      | Err x \<Rightarrow> Err x
      | Panic m \<Rightarrow> Panic m)"

definition el_default :: "('po, 'x) poller_ops \<Rightarrow> 'p \<Rightarrow> (('p, 'po) event_loop, 'x) outcome" where
  "el_default P pool =
     (case el_new P 1 pool of
        Ok e \<Rightarrow> Ok e
      | Err _ \<Rightarrow> Panic ''create event-loop failed''
      | Panic m \<Rightarrow> Panic m)"

subsection \<open>Tokens\<close>

text \<open>
  In a coroutine the token is the address of a leaked copy of its name, elsewhere the thread's id. \<open>malloc\<close> gives the
  address of a new allocation, \<open>pthread_self\<close> the id.
\<close>

definition leak_cstring :: "((ptr \<times> string) list \<Rightarrow> ptr) \<Rightarrow> string \<Rightarrow> ('co, 'tf, 'ds, 'dt, 'z) net_scheme
    \<Rightarrow> ptr \<times> ('co, 'tf, 'ds, 'dt, 'z) net_scheme" where
  "leak_cstring malloc name w =
     (let a = malloc (CSTRINGS w) in (a, w\<lparr>CSTRINGS := (a, name) # CSTRINGS w\<rparr>))"

definition token :: "((ptr \<times> string) list \<Rightarrow> ptr) \<Rightarrow> usize
    \<Rightarrow> (usize, 'e, (('k, 'y, 'r, 'l) coroutine, 'tf, 'ds, 'dt, 'z) net_scheme) prog" where
  "token malloc pthread_self w =
     (case cur w of
        Some co \<Rightarrow>
          (if CHR 0x00 \<in> set (co_name co) then Some (Panic ''build name failed!'', w)
           else let (a, w) = leak_cstring malloc (co_name co) w in Some (Ok a, w))
      | None \<Rightarrow> Some (Ok pthread_self, w))"

text \<open>The name a token points to: known for the leaked names; for a thread's id the code reads foreign memory.\<close>

definition map_name :: "usize \<Rightarrow> ('co, 'tf, 'ds, 'dt, 'z) net_scheme \<Rightarrow> string option" where
  "map_name t w = map_of (CSTRINGS w) t"

subsection \<open>Events\<close>

definition with_token where
  "with_token malloc pthread_self f =
     andThen (\<lambda>(e, w). case token malloc pthread_self w of
        Some (r, w) \<Rightarrow> Some (r, (e, w)) | None \<Rightarrow> None) (\<lambda>t. on_selector (f t))"

definition el_add_read_event where
  "el_add_read_event M P malloc pthread_self fd = with_token malloc pthread_self (add_read_event M P fd)"

definition el_add_write_event where
  "el_add_write_event M P malloc pthread_self fd = with_token malloc pthread_self (add_write_event M P fd)"

definition el_del_event where "el_del_event M P fd = on_selector (sel_del_event M P fd)"
definition el_del_read_event where "el_del_read_event M P fd = on_selector (sel_del_read_event M P fd)"
definition el_del_write_event where "el_del_write_event M P fd = on_selector (sel_del_write_event M P fd)"

subsection \<open>Waiting\<close>

text \<open>The coroutine of the thread changes its state; a refusal is a panic.\<close>

definition set_call_state :: "(syscall \<Rightarrow> syscall_state \<Rightarrow> bool) \<Rightarrow> syscall option \<Rightarrow> syscall_state
    \<Rightarrow> (unit, 'e, (('k, unit, unit, 'l) coroutine, 'z) io_scheme) prog" where
  "set_call_state expected running st w =
     (case cur w of
        None \<Rightarrow> Some (Ok (), w)
      | Some co \<Rightarrow>
          (let go = (\<lambda>sc. case co_syscall () sc st co of
                 (Ok _, co) \<Rightarrow> Some (Ok (), w\<lparr>cur := Some co\<rparr>)
               | (_, co) \<Rightarrow> Some (Panic ''change to syscall state failed !'', w))
           in case co_state_of co of
                Running \<Rightarrow> (case running of Some sc \<Rightarrow> go sc | None \<Rightarrow> Some (Panic ''wait should never execute to here'', w))
              | SystemCall _ sc st' \<Rightarrow>
                  (if expected sc st' then go sc else Some (Panic ''wait should never execute to here'', w))
              | _ \<Rightarrow> Some (Panic ''wait should never execute to here'', w)))"

definition on_thread :: "('a, 'e, 'w) prog \<Rightarrow> ('a, 'e, 'el \<times> 'w) prog" where
  "on_thread q = (\<lambda>(e, w). case q w of None \<Rightarrow> None | Some (r, w) \<Rightarrow> Some (r, (e, w)))"

text \<open>The suspension of a coroutine that waits: it is put into the call's state \<open>Suspend\<close> and yields.\<close>

definition suspend_call where
  "suspend_call yield time =
     andThen (on_thread (timeout_after time)) (\<lambda>ts.
     andThen (on_thread (set_call_state (\<lambda>_ _. True) (Some Sys_epoll_wait) (Sys_Suspend ts))) (\<lambda>_.
     upd (\<lambda>(e, w). yield (e, delay_with time w))))"

text \<open>Every name an event points to is handed to the pool.\<close>

fun resume_names where
  "resume_names PO [] s = Some (Ok (), s)"
| "resume_names PO (event # events) (e, w) =
     (case map_name (ev_key event) w of
        None \<Rightarrow> resume_names PO events (e, w)
      | Some nm \<Rightarrow>
          (case po_try_resume PO nm (enter (el_pool e) w) of
             (Ok _, s) \<Rightarrow> (let (p, w) = leave s in resume_names PO events (e\<lparr>el_pool := p\<rparr>, w))
           | (Err _, s) \<Rightarrow> (let (p, w) = leave s in Some (Panic ''has bug, notice !'', (e\<lparr>el_pool := p\<rparr>, w)))
           | (Panic m, s) \<Rightarrow> (let (p, w) = leave s in Some (Panic m, (e\<lparr>el_pool := p\<rparr>, w)))))"

definition poll_events where
  "poll_events M P timeout = (\<lambda>(e, w).
     case sel_select M P timeout (el_poller e, w) of (r, (p, w)) \<Rightarrow> Some (Ok r, (e\<lparr>el_poller := p\<rparr>, w)))"

definition wait_just where
  "wait_just M P PO yield timeout =
     andThen (gets (\<lambda>(e, w). (cur w \<noteq> None, suspender_current w \<noteq> None))) (\<lambda>(in_co, has_suspender).
     andThen (case timeout of
                Some time \<Rightarrow>
                  if in_co \<and> has_suspender then andThen (suspend_call yield time) (\<lambda>_. ret (Some 0)) else ret timeout
              | None \<Rightarrow> ret timeout) (\<lambda>timeout.
     andThen (on_thread (set_call_state (\<lambda>_ st. st = Sys_Computing \<or> st = Sys_Timeout) None (Sys_Calling Sys_epoll_wait))) (\<lambda>_.
     andThen (poll_events M P timeout) (\<lambda>(events, result).
     andThen (on_thread (set_call_state (\<lambda>_ st. case st of Sys_Calling _ \<Rightarrow> True | _ \<Rightarrow> False) None Sys_Computing)) (\<lambda>_.
     case result of
       Ok n \<Rightarrow> andThen (if n > 0 then resume_names PO events else ret ()) (\<lambda>_. ret n)
     | Err x \<Rightarrow> fail (Io x)
     | Panic m \<Rightarrow> panic m)))))"

definition el_wait_event where
  "el_wait_event M P PO yield timeout =
     andThen (gets (\<lambda>(e, w). cur w \<noteq> None)) (\<lambda>in_co.
     andThen (if in_co then ret timeout
              else case timeout of
                Some time \<Rightarrow>
                  andThen (on_pool (\<lambda>s. pool_try_timed_schedule (po_schedule PO) time s)) (\<lambda>left. ret (Some (unat left)))
              | None \<Rightarrow> andThen (on_pool (\<lambda>s. pool_try_schedule (po_schedule PO) s)) (\<lambda>_. ret None)) (\<lambda>left_time.
     wait_just M P PO yield left_time))"

subsection \<open>Results\<close>

text \<open>
  The loops that wait go in turns of \<open>once\<close>: in one turn a started loop lets its own thread work, an unstarted one runs the
  loop itself. The value of a turn is what the loop returns, if it returns then.
\<close>

definition once :: duration where "once = 10 * ms"

definition result_turn where
  "result_turn M P PO yield task_name time = (\<lambda>(e, w).
     if el_get_state e = Pool_Running
     then on_pool (attempt (po_wait_result PO task_name time) ret) (e, w)
     else andThen (el_wait_event M P PO yield (Some time))
            (\<lambda>_ (e, w). let (r, s) = po_try_get_result PO task_name (enter (el_pool e) w); (p, w) = leave s
                         in Some (Ok (map_option Some r), (e\<lparr>el_pool := p\<rparr>, w))) (e, w))"

function take_turns :: "'x \<Rightarrow> (duration \<Rightarrow> ('a option, 'x, 's) prog) \<Rightarrow> duration \<Rightarrow> ('a, 'x, 's) prog" where
  "take_turns timed_out turn left s =
     (if left = 0 then Some (Err timed_out, s)
      else case turn (min left once) s of
        None \<Rightarrow> None
      | Some (Ok (Some a), s) \<Rightarrow> Some (Ok a, s)
      | Some (Ok None, s) \<Rightarrow> take_turns timed_out turn (left - once) s
      | Some (Err x, s) \<Rightarrow> Some (Err x, s)
      | Some (Panic m, s) \<Rightarrow> Some (Panic m, s))"
  by pat_completeness auto

termination take_turns
  by (relation "measure (\<lambda>(_, _, left, _). left)") (simp_all add: once_def ms_def)

declare take_turns.simps [simp del]

definition el_wait_result where
  "el_wait_result M P PO yield task_name wait_time =
     take_turns El_wait_timeout (result_turn M P PO yield task_name) wait_time"

text \<open>The handle of a task is its name; the handle made by \<^verbatim>\<open>error()\<close> has the empty name and no loop.\<close>

definition el_join_handle_new where
  "el_join_handle_new malloc name = (\<lambda>(e, w).
     if CHR 0x00 \<in> set name then Some (Panic ''init JoinHandle failed!'', (e, w))
     else let (_, w) = leak_cstring malloc name w in Some (Ok name, (e, w)))"

definition el_join_handle_error where
  "el_join_handle_error malloc = el_join_handle_new malloc []"

definition el_submit_raw where
  "el_submit_raw PO malloc task =
     andThen (on_pool (\<lambda>s. Some (po_submit_raw PO task s))) (\<lambda>name. el_join_handle_new malloc name)"

definition el_submit where
  "el_submit PO malloc uuid name func param = (\<lambda>(e, w).
     el_submit_raw PO malloc (task_new (case name of Some n \<Rightarrow> n | None \<Rightarrow> el_name e @ ''|'' @ uuid) func param) (e, w))"

definition el_submit_and_wait where
  "el_submit_and_wait M P PO yield malloc uuid name func param wait_time =
     andThen (el_submit PO malloc uuid name func param) (\<lambda>join_name. el_wait_result M P PO yield join_name wait_time)"

definition el_timeout_at_join where
  "el_timeout_at_join M P PO yield name timeout_time =
     (if name = [] then fail El_invalid_name
      else andThen (on_thread read_clock) (\<lambda>n.
           andThen (el_wait_result M P PO yield name (unat (saturating_sub timeout_time n))) (\<lambda>r.
           case r of Some res \<Rightarrow> ret (snd res) | None \<Rightarrow> panic ''result is None !'')))"

subsection \<open>The thread of a loop\<close>

definition is_idle where
  "is_idle PO = (\<lambda>(e, w). el_is_empty PO (e, w) \<and> \<not> el_get_running_size e > 0)"

text \<open>
  \<open>start\<close> moves the pool to \<open>Running\<close> and begins the thread: \<open>thread_loop\<close> is the loop it runs, \<open>thread_exit\<close> what it does
  after that.
\<close>

definition el_start where
  "el_start spawn e =
     (let (old, e) = el_change_state Pool_Running e in
      if old \<noteq> Pool_Created then (Panic ''assertion failed: `(left == right)`'', e)
      else if spawn then (Ok (), e) else (Err El_spawn_failed, e))"

definition thread_done where
  "thread_done PO = (\<lambda>(e, w). el_get_state e \<noteq> Pool_Running \<and> is_idle PO (e, w))"

partial_function (option) thread_loop where
  "thread_loop M P PO yield s =
     (if thread_done PO s then Some (Ok (), s)
      else attempt (el_wait_event M P PO yield (Some once)) (\<lambda>_. thread_loop M P PO yield) s)"

definition thread_exit :: "('p, 'po) event_loop \<times> ('co, 'tf, 'ds, 'dt, 'z) net_scheme
    \<Rightarrow> ('p, 'po) event_loop \<times> ('co, 'tf, 'ds, 'dt, 'z) net_scheme" where
  "thread_exit = (\<lambda>(e, w). (e\<lparr>el_stop_pending := False\<rparr>, w\<lparr>EVENT_LOOP_STOP := EVENT_LOOP_STOP w + 1\<rparr>))"

definition loop_thread where
  "loop_thread M P PO yield = andThen (thread_loop M P PO yield) (\<lambda>_. upd thread_exit)"

text \<open>
  \<open>stop\<close>. A started loop is waited for on a condition variable while its flag is set; \<open>others\<close> is what the other threads
  do in at most the time given.
\<close>

definition stop_turn where
  "stop_turn M P PO yield time =
     andThen (el_wait_event M P PO yield (Some time)) (\<lambda>_ (e, w).
       if is_idle PO (e, w) then Some (Ok (Some ()), (snd (el_change_state Pool_Stopped e), w))
       else Some (Ok None, (e, w)))"

definition await_thread where
  "await_thread others wait_time = (\<lambda>(e, w).
     let (e, w) = if el_stop_pending e then others wait_time (e, w) else (e, w) in
     if el_stop_pending e then Some (Err El_stop_timeout, (e, w))
     else Some (Ok (), (snd (el_change_state Pool_Stopped e), w)))"

definition el_stop where
  "el_stop M P PO yield others wait_time = (\<lambda>(e, w).
     let st = el_get_state e in
     if st = Pool_Stopped then Some (Ok (), (e, w))
     else andThen (on_pool (attempt (po_stop PO 0) ret)) (\<lambda>_.
       if st = Pool_Running then await_thread others wait_time
       else take_turns El_stop_timeout (stop_turn M P PO yield) wait_time) (e, w))"

end
