(* ===== verification/EventLoops.thy ===== *)
theory EventLoops
  imports EventLoop
begin

text \<open>
  The event loops of the process (\<^verbatim>\<open>open-coroutine-core/src/net/core.rs\<close>) and their configuration
  (\<^verbatim>\<open>open-coroutine-core/src/net/config.rs\<close>). The loops and the counter that chooses among them are added to the state
  of the thread. \<open>preemptive\<close> tells whether the feature \<^verbatim>\<open>preemptive-schedule\<close> is compiled in (on Unix): the first loop then
  belongs to the monitor.

  An operation on one loop works on the loop and on the state; what it leaves of the loop is written back.
\<close>

subsection \<open>Configuration\<close>

record config =
  cf_event_loop_size :: usize
  cf_stack_size :: usize
  cf_min_size :: usize
  cf_max_size :: usize
  cf_keep_alive_time :: u64

definition get_event_loop_size where "get_event_loop_size c = cf_event_loop_size c"
definition get_stack_size where "get_stack_size c = cf_stack_size c"
definition get_min_size where "get_min_size c = cf_min_size c"
definition get_max_size where "get_max_size c = cf_max_size c"
definition get_keep_alive_time where "get_keep_alive_time c = cf_keep_alive_time c"

definition set_event_loop_size :: "usize \<Rightarrow> (unit, unit, config) prog" where
  "set_event_loop_size n =
     (if n > 1 then upd (\<lambda>c. c\<lparr>cf_event_loop_size := n\<rparr>) else panic ''event_loop_size must be greater than 1'')"

definition config_set_stack_size :: "usize \<Rightarrow> (unit, unit, config) prog" where
  "config_set_stack_size n = upd (\<lambda>c. c\<lparr>cf_stack_size := n\<rparr>)"

definition set_min_size :: "usize \<Rightarrow> (unit, unit, config) prog" where
  "set_min_size n = upd (\<lambda>c. c\<lparr>cf_min_size := n\<rparr>)"

definition set_max_size :: "usize \<Rightarrow> (unit, unit, config) prog" where
  "set_max_size n =
     (if \<not> n > 0 then panic ''max_size must be greater than 0''
      else andThen (gets cf_min_size) (\<lambda>min_size.
        if n \<ge> min_size then upd (\<lambda>c. c\<lparr>cf_max_size := n\<rparr>)
        else panic ''max_size must be greater than or equal to min_size''))"

definition set_keep_alive_time :: "u64 \<Rightarrow> (unit, unit, config) prog" where
  "set_keep_alive_time t = upd (\<lambda>c. c\<lparr>cf_keep_alive_time := t\<rparr>)"

definition config_default :: "usize \<Rightarrow> config" where
  "config_default num_cpus =
     \<lparr>cf_event_loop_size = num_cpus, cf_stack_size = of_nat DEFAULT_STACK_SIZE, cf_min_size = 0, cf_max_size = 65536,
      cf_keep_alive_time = 0\<rparr>"

text \<open>\<^verbatim>\<open>init_config\<close> of the hooks copies a configuration into the global one.\<close>

definition init_config :: "config \<Rightarrow> (unit, unit, config) prog" where
  "init_config config =
     andThen (set_event_loop_size (get_event_loop_size config)) (\<lambda>_.
     andThen (config_set_stack_size (get_stack_size config)) (\<lambda>_.
     andThen (set_min_size (get_min_size config)) (\<lambda>_.
     andThen (set_max_size (get_max_size config)) (\<lambda>_.
     set_keep_alive_time (get_keep_alive_time config)))))"

subsection \<open>State\<close>

record ('co, 'tf, 'ds, 'dt, 'p, 'po) world = "('co, 'tf, 'ds, 'dt) net" +
  EVENT_LOOPS :: "('p, 'po) event_loop list"
  INDEX :: usize

definition on_loop :: "nat \<Rightarrow> ('a, 'x, ('p, 'po) event_loop \<times> ('co, 'tf, 'ds, 'dt, 'p, 'po, 'z) world_scheme) prog
    \<Rightarrow> ('a, 'x, ('co, 'tf, 'ds, 'dt, 'p, 'po, 'z) world_scheme) prog" where
  "on_loop i q w =
     (case q (EVENT_LOOPS w ! i, w) of
        None \<Rightarrow> None
      | Some (r, (e, w)) \<Rightarrow> Some (r, w\<lparr>EVENT_LOOPS := (EVENT_LOOPS w)[i := e]\<rparr>))"

text \<open>The loops are made when they are first used: every one but the monitor's is started.\<close>

definition init_loop :: "bool \<Rightarrow> ('po, 'x) poller_ops \<Rightarrow> (nat \<Rightarrow> ('q, 'd, 'k, 'l, 'li, 'i, 'b, 'e, 'v) pool) \<Rightarrow> (nat \<Rightarrow> bool) \<Rightarrow> nat
    \<Rightarrow> ((('q, 'd, 'k, 'l, 'li, 'i, 'b, 'e, 'v) pool, 'po) event_loop, 'x) outcome" where
  "init_loop preemptive P new_pool spawn i =
     (case el_new P i (new_pool i) of
        Ok e \<Rightarrow>
          if preemptive \<and> i = 0 then Ok e
          else (case (el_start (spawn i) e :: (unit, 'x el_error) outcome \<times> _) of
                  (Ok _, e) \<Rightarrow> Ok e
                | (Err _, e) \<Rightarrow> Panic ''init event-loop failed!''
                | (Panic m, e) \<Rightarrow> Panic m)
      | Err _ \<Rightarrow> Panic ''init event-loop failed!''
      | Panic m \<Rightarrow> Panic m)"

fun init_loops where
  "init_loops preemptive P new_pool spawn [] = Ok []"
| "init_loops preemptive P new_pool spawn (i # is) =
     (case init_loop preemptive P new_pool spawn i of
        Ok e \<Rightarrow>
          (case init_loops preemptive P new_pool spawn is of Ok es \<Rightarrow> Ok (e # es) | Err x \<Rightarrow> Err x | Panic m \<Rightarrow> Panic m)
      | Err x \<Rightarrow> Err x
      | Panic m \<Rightarrow> Panic m)"

subsection \<open>Choosing a loop\<close>

definition loops_next :: "bool \<Rightarrow> bool \<Rightarrow> (nat \<times> bool, 'x, ('co, 'tf, 'ds, 'dt, 'p, 'po, 'z) world_scheme) prog" where
  "loops_next preemptive skip_monitor w =
     (let skip_monitor = (preemptive \<and> skip_monitor);
          len = length (EVENT_LOOPS w);
          index = unat (INDEX w);
          w = w\<lparr>INDEX := INDEX w + 1\<rparr>
      in if len = 0 then Some (Panic ''attempt to calculate the remainder with a divisor of zero'', w)
         else if skip_monitor \<and> index mod len = MONITOR_CPU then
           let w = w\<lparr>INDEX := 1\<rparr> in
           if 1 < len then Some (Ok (1, False), w) else Some (Panic ''init event-loop-1 failed!'', w)
         else Some (Ok (index mod len, preemptive \<and> MONITOR_CPU = index mod len), w))"

definition monitor_loop :: "(nat, 'x, ('co, 'tf, 'ds, 'dt, 'p, 'po, 'z) world_scheme) prog" where
  "monitor_loop w =
     (if MONITOR_CPU < length (EVENT_LOOPS w) then Some (Ok MONITOR_CPU, w)
      else Some (Panic ''init event-loop-monitor failed!'', w))"

text \<open>\<^verbatim>\<open>for _ in 0..EVENT_LOOPS.len() { _ = EventLoops::next(skip).0.f(); }\<close>\<close>

primrec each_next :: "bool \<Rightarrow> bool \<Rightarrow> (nat \<Rightarrow> ('a, 'x, ('co, 'tf, 'ds, 'dt, 'p, 'po, 'z) world_scheme) prog) \<Rightarrow> nat
    \<Rightarrow> (unit, unit, ('co, 'tf, 'ds, 'dt, 'p, 'po, 'z) world_scheme) prog" where
  "each_next preemptive skip f 0 = ret ()"
| "each_next preemptive skip f (Suc n) =
     andThen (loops_next preemptive skip) (\<lambda>(i, _). attempt (f i) (\<lambda>_. each_next preemptive skip f n))"

definition for_each_loop where
  "for_each_loop preemptive skip f =
     andThen (gets (\<lambda>w. length (EVENT_LOOPS w))) (\<lambda>n. each_next preemptive skip f n)"

subsection \<open>Operations\<close>

text \<open>
  \<open>stop\<close> then waits until as many loops have ended as were started; \<open>others\<close> is what the other threads do in the time given.
  The value tells whether they did end.
\<close>

definition loops_await :: "bool
    \<Rightarrow> (duration \<Rightarrow> ('co, 'tf, 'ds, 'dt, 'p, 'po, 'z) world_scheme \<Rightarrow> ('co, 'tf, 'ds, 'dt, 'p, 'po, 'z) world_scheme)
    \<Rightarrow> (bool, 'x, ('co, 'tf, 'ds, 'dt, 'p, 'po, 'z) world_scheme) prog" where
  "loops_await preemptive others w =
     (let running = (\<lambda>w. unat (EVENT_LOOP_STOP w) < (if preemptive then length (EVENT_LOOPS w) - 1 else length (EVENT_LOOPS w)));
          w = (if running w then others (30000 * ms) w else w)
      in Some (Ok (\<not> running w), w))"

definition loops_stop where
  "loops_stop preemptive M P PO yield others others' monitor_stop =
     andThen (for_each_loop preemptive True (\<lambda>i. on_loop i (el_stop M P PO yield others 0))) (\<lambda>_.
     andThen (loops_await preemptive others') (\<lambda>ended.
     andThen (if preemptive then upd monitor_stop else ret ()) (\<lambda>_. ret ended)))"

text \<open>The handle \<open>submit\<close> returns: the loop, by its place among the loops, and the name of the task.\<close>

definition loops_submit where
  "loops_submit preemptive PO malloc uuid name func param =
     andThen (loops_next preemptive True) (\<lambda>(i, _).
     andThen (on_loop i (el_submit PO malloc uuid name func param)) (\<lambda>name. ret (i, name)))"

definition loops_submit_raw where
  "loops_submit_raw preemptive PO malloc task =
     andThen (loops_next preemptive True) (\<lambda>(i, _). andThen (on_loop i (el_submit_raw PO malloc task)) (\<lambda>_. ret ()))"

definition loops_wait_event where
  "loops_wait_event preemptive M P PO yield timeout =
     andThen (loops_next preemptive True) (\<lambda>(i, _). on_loop i (el_wait_event M P PO yield timeout))"

definition loops_wait_read_event where
  "loops_wait_read_event preemptive M P PO yield malloc pthread_self fd added timeout =
     andThen (loops_next preemptive False) (\<lambda>(i, is_monitor).
     andThen (if \<not> added then on_loop i (el_add_read_event M P malloc pthread_self fd) else ret ()) (\<lambda>_.
       if is_monitor then loops_wait_event preemptive M P PO yield timeout
       else on_loop i (el_wait_event M P PO yield timeout)))"

definition loops_wait_write_event where
  "loops_wait_write_event preemptive M P PO yield malloc pthread_self fd added timeout =
     andThen (loops_next preemptive False) (\<lambda>(i, is_monitor).
     andThen (if \<not> added then on_loop i (el_add_write_event M P malloc pthread_self fd) else ret ()) (\<lambda>_.
       if is_monitor then loops_wait_event preemptive M P PO yield timeout
       else on_loop i (el_wait_event M P PO yield timeout)))"

definition loops_del_event where
  "loops_del_event preemptive M P fd = for_each_loop preemptive False (\<lambda>i. on_loop i (el_del_event M P fd))"

definition loops_del_read_event where
  "loops_del_read_event preemptive M P fd = for_each_loop preemptive False (\<lambda>i. on_loop i (el_del_read_event M P fd))"

definition loops_del_write_event where
  "loops_del_write_event preemptive M P fd = for_each_loop preemptive False (\<lambda>i. on_loop i (el_del_write_event M P fd))"

text \<open>What the system calls use of the loops.\<close>

definition loops_events where
  "loops_events preemptive M P PO yield malloc pthread_self =
     \<lparr>ev_wait = loops_wait_event preemptive M P PO yield,
      ev_wait_read = loops_wait_read_event preemptive M P PO yield malloc pthread_self,
      ev_wait_write = loops_wait_write_event preemptive M P PO yield malloc pthread_self,
      ev_del = loops_del_event preemptive M P,
      ev_del_read = loops_del_read_event preemptive M P,
      ev_del_write = loops_del_write_event preemptive M P\<rparr>"

end
