(* ===== verification/ConfigClaims.thy ===== *)
theory ConfigClaims
  imports EventLoops
begin

text \<open>
  The configuration of the event loops. A configuration is valid when there are at least two loops (the first is the
  monitor's) and the bounds of the pools are in order; the setters check this, with one exception.
\<close>

definition config_valid :: "config \<Rightarrow> bool" where
  "config_valid c \<longleftrightarrow> 1 < get_event_loop_size c \<and> 0 < get_max_size c \<and> get_min_size c \<le> get_max_size c"

lemmas config_defs = config_valid_def get_event_loop_size_def get_stack_size_def get_min_size_def get_max_size_def
  get_keep_alive_time_def set_event_loop_size_def config_set_stack_size_def set_min_size_def set_max_size_def
  set_keep_alive_time_def

lemma setters_keep_valid:
  assumes "config_valid c"
  shows "set_event_loop_size n c = Some (Ok (), c') \<Longrightarrow> config_valid c'"
    and "config_set_stack_size n c = Some (Ok (), c') \<Longrightarrow> config_valid c'"
    and "set_max_size n c = Some (Ok (), c') \<Longrightarrow> config_valid c'"
    and "set_keep_alive_time n c = Some (Ok (), c') \<Longrightarrow> config_valid c'"
  using assms by (auto simp: config_defs upd_def panic_def word_gt_0 split: if_splits)

text \<open>\<open>set_min_size\<close> does not look at the maximum, so a valid configuration becomes one that is not.\<close>

lemma set_min_size_unchecked:
  assumes "get_max_size c < n"
  shows "set_min_size n c = Some (Ok (), c\<lparr>cf_min_size := n\<rparr>) \<and> \<not> config_valid (c\<lparr>cf_min_size := n\<rparr>)"
  using assms by (simp add: config_defs upd_def not_le)

text \<open>On a machine with one processor the default is not valid: \<open>next\<close> then has no second loop to give.\<close>

lemma default_config_valid: "config_valid (config_default num_cpus) \<longleftrightarrow> 1 < num_cpus"
  by (simp add: config_defs config_default_def)

text \<open>
  C29: \<open>init_config\<close> takes over a configuration if and only if it is valid, whatever the global configuration was: then the
  global configuration is the given one; otherwise it panics with the reason, and what it had copied by then stays.
\<close>

theorem init_config_checks:
  "init_config c g =
     (if config_valid c then Some (Ok (), c)
      else if \<not> 1 < get_event_loop_size c then Some (Panic ''event_loop_size must be greater than 1'', g)
      else Some (Panic (if get_max_size c = 0 then ''max_size must be greater than 0''
                        else ''max_size must be greater than or equal to min_size''),
                 g\<lparr>cf_event_loop_size := get_event_loop_size c, cf_stack_size := get_stack_size c, cf_min_size := get_min_size c\<rparr>))"
  by (cases c, cases g) (auto simp: init_config_def config_defs andThen_def upd_def panic_def gets_def word_gt_0 not_le)

end
