(* ===== verification/Monitor.thy ===== *)
theory Monitor
  imports CoLocal Scheduler Pool
begin

text \<open>
  The monitor of \<^verbatim>\<open>open-coroutine-core/src/monitor\<close>, which interrupts coroutines that run for too long: the table of
  the running coroutines (\<^verbatim>\<open>mod.rs\<close>, \<^verbatim>\<open>node.rs\<close>), the listener through which every scheduler reports to it (\<^verbatim>\<open>creator.rs\<close>), and
  the thread that sends the signals.

  A coroutine is known to the monitor by an address: a scheduler passes the address of the variable that holds the
  coroutine it runs, \<open>slot\<close> below, together with the id of its thread. The local storage of a coroutine is changed
  through shared references, so \<open>LOCALS\<close> keeps the storages by the handle \<open>co_local\<close>. Parameters: the blocker a new
  monitor gets (\<open>new_blocker\<close>), the answers of the system to \<^verbatim>\<open>sigaction\<close> and to the creation of a thread (\<open>os\<close>).
  The code guards neither the table nor the queue by a lock; the model takes its operations one after the other.
\<close>

subsection \<open>TaskNode\<close>

datatype task_node = Task_Node (tn_timestamp: u64) (tn_pthread: u64) (tn_coroutine: u64)

text \<open>The derived order compares the fields from the first to the last.\<close>

definition node_less :: "task_node \<Rightarrow> task_node \<Rightarrow> bool" where
  "node_less a b \<longleftrightarrow> tn_timestamp a < tn_timestamp b \<or>
     tn_timestamp a = tn_timestamp b \<and>
       (tn_pthread a < tn_pthread b \<or> tn_pthread a = tn_pthread b \<and> tn_coroutine a < tn_coroutine b)"

definition node_less_eq :: "task_node \<Rightarrow> task_node \<Rightarrow> bool" where
  "node_less_eq a b \<longleftrightarrow> node_less a b \<or> a = b"

instantiation task_node :: linorder
begin

definition less_task_node :: "task_node \<Rightarrow> task_node \<Rightarrow> bool" where
  "less_task_node = node_less"

definition less_eq_task_node :: "task_node \<Rightarrow> task_node \<Rightarrow> bool" where
  "less_eq_task_node = node_less_eq"

instance
  by standard (auto simp: less_task_node_def less_eq_task_node_def node_less_def node_less_eq_def intro: task_node.expand)

end

definition node_new :: "u64 \<Rightarrow> u64 \<Rightarrow> u64 \<Rightarrow> task_node" where
  "node_new pthread_self timestamp slot = Task_Node timestamp pthread_self slot"

subsection \<open>MonitorImpl\<close>

record 'b monitor_impl =
  mi_cpu :: nat
  mi_tasks :: "task_node timer_list"
  mi_clean_queue :: "task_node list"
  mi_run :: bool
  mi_monitor :: bool
  mi_blocker :: 'b

record ('b, 'l, 'd) monitors =
  MONITOR :: "'b monitor_impl option"
  SIGURG_HANDLER :: bool
  LOCALS :: "'l \<Rightarrow> 'd \<times> u64 heap"

record os_answers =
  os_sigaction :: bool
  os_spawn :: bool

datatype monitor_error = Sigaction_failed | Spawn_failed

definition get_instance :: "'b \<Rightarrow> ('b, 'l, 'd) monitors \<Rightarrow> 'b monitor_impl \<times> ('b, 'l, 'd) monitors" where
  "get_instance new_blocker m =
     (case MONITOR m of
        Some i \<Rightarrow> (i, m)
      | None \<Rightarrow>
          let i = \<lparr>mi_cpu = MONITOR_CPU, mi_tasks = tl_default, mi_clean_queue = [], mi_run = False, mi_monitor = False,
                   mi_blocker = new_blocker\<rparr>
          in (i, m\<lparr>MONITOR := Some i\<rparr>))"

definition monitor_change_blocker :: "'b \<Rightarrow> 'b \<Rightarrow> ('b, 'l, 'd) monitors \<Rightarrow> 'b \<times> ('b, 'l, 'd) monitors" where
  "monitor_change_blocker new_blocker blocker m =
     (let (i, m) = get_instance new_blocker m in (mi_blocker i, m\<lparr>MONITOR := Some (i\<lparr>mi_blocker := blocker\<rparr>)\<rparr>))"

text \<open>The operations on the instance. \<open>start\<close> also installs the handler; when it fails, \<open>run\<close> is already set.\<close>

definition monitor_start :: "os_answers \<Rightarrow> 'b monitor_impl \<times> bool
    \<Rightarrow> (unit, monitor_error) outcome \<times> 'b monitor_impl \<times> bool" where
  "monitor_start os = (\<lambda>(i, handler).
     if mi_run i then (Ok (), i, handler)
     else
       let i = i\<lparr>mi_run := True\<rparr> in
       if \<not> os_sigaction os then (Err Sigaction_failed, i, handler)
       else if \<not> os_spawn os then (Err Spawn_failed, i, True)
       else (Ok (), i\<lparr>mi_monitor := True\<rparr>, True))"

definition monitor_stop :: "'b monitor_impl \<Rightarrow> 'b monitor_impl" where
  "monitor_stop i = i\<lparr>mi_run := False\<rparr>"

definition monitor_submit :: "os_answers \<Rightarrow> u64 \<Rightarrow> u64 \<Rightarrow> u64 \<Rightarrow> 'b monitor_impl \<times> bool
    \<Rightarrow> (unit, monitor_error) outcome \<times> 'b monitor_impl \<times> bool" where
  "monitor_submit os pthread_self timestamp slot s =
     (case monitor_start os s of
        (Ok _, i, handler) \<Rightarrow>
          (Ok (), i\<lparr>mi_tasks := tl_insert timestamp (node_new pthread_self timestamp slot) (mi_tasks i)\<rparr>, handler)
      | (r, i, handler) \<Rightarrow> (r, i, handler))"

definition monitor_remove :: "u64 \<Rightarrow> u64 \<Rightarrow> u64 \<Rightarrow> 'b monitor_impl \<Rightarrow> 'b monitor_impl" where
  "monitor_remove pthread_self timestamp slot i =
     i\<lparr>mi_clean_queue := mi_clean_queue i @ [node_new pthread_self timestamp slot]\<rparr>"

subsection \<open>The listener\<close>

definition MONITOR_TIMESTAMP :: string where "MONITOR_TIMESTAMP = ''MONITOR_TIMESTAMP''"

definition monitor_on_resume :: "('d, string, nat) dash_ops \<Rightarrow> 'b \<Rightarrow> os_answers \<Rightarrow> u64 \<Rightarrow> u64 \<Rightarrow> u64 \<Rightarrow> ('k, 'l) sched_co
    \<Rightarrow> ('b, 'l, 'd) monitors \<times> 'w env_scheme \<Rightarrow> (unit, unit) outcome \<times> ('b, 'l, 'd) monitors \<times> 'w env_scheme" where
  "monitor_on_resume D new_blocker os pthread_self slot timeout_time co = (\<lambda>(m, w).
     let (ts, w) = get_timeout_time 10000000 w; timestamp = min ts timeout_time;
         (d, h) = LOCALS m (co_local co);
         (r, d, h) = local_put D MONITOR_TIMESTAMP timestamp d h;
         m = m\<lparr>LOCALS := (LOCALS m)(co_local co := (d, h))\<rparr>
     in case r of
          Panic msg \<Rightarrow> (Panic msg, m, w)
        | _ \<Rightarrow>
            (let (i, m) = get_instance new_blocker m in
             case monitor_submit os pthread_self timestamp slot (i, SIGURG_HANDLER m) of
               (Ok _, i, handler) \<Rightarrow> (Ok (), m\<lparr>MONITOR := Some i, SIGURG_HANDLER := handler\<rparr>, w)
             | (_, i, handler) \<Rightarrow>
                 (Panic ''Submit task to monitor failed !'', m\<lparr>MONITOR := Some i, SIGURG_HANDLER := handler\<rparr>, w)))"

text \<open>\<open>on_suspend\<close>, \<open>on_complete\<close> and \<open>on_error\<close> have the same body; \<open>on_create\<close> and \<open>on_syscall\<close> are not implemented.\<close>

definition monitor_on_leave :: "('d, string, nat) dash_ops \<Rightarrow> 'b \<Rightarrow> u64 \<Rightarrow> u64 \<Rightarrow> ('k, 'l) sched_co
    \<Rightarrow> ('b, 'l, 'd) monitors \<times> 'w env_scheme \<Rightarrow> (unit, unit) outcome \<times> ('b, 'l, 'd) monitors \<times> 'w env_scheme" where
  "monitor_on_leave D new_blocker pthread_self slot co = (\<lambda>(m, w).
     let (d, h) = LOCALS m (co_local co) in
     case local_get D MONITOR_TIMESTAMP d h of
       Ok (Some timestamp) \<Rightarrow>
         (let (i, m) = get_instance new_blocker m
          in (Ok (), m\<lparr>MONITOR := Some (monitor_remove pthread_self timestamp slot i)\<rparr>, w))
     | Ok None \<Rightarrow> (Ok (), m, w)
     | Err e \<Rightarrow> (Err e, m, w)
     | Panic msg \<Rightarrow> (Panic msg, m, w))"

definition monitor_on_event :: "('d, string, nat) dash_ops \<Rightarrow> 'b \<Rightarrow> os_answers \<Rightarrow> u64 \<Rightarrow> u64 \<Rightarrow> ('k, 'l) event
    \<Rightarrow> ('b, 'l, 'd) monitors \<times> 'w env_scheme \<Rightarrow> (unit, unit) outcome \<times> ('b, 'l, 'd) monitors \<times> 'w env_scheme" where
  "monitor_on_event D new_blocker os pthread_self slot e =
     (case e of
        On_resume timeout_time co \<Rightarrow> monitor_on_resume D new_blocker os pthread_self slot timeout_time co
      | On_suspend _ co \<Rightarrow> monitor_on_leave D new_blocker pthread_self slot co
      | On_complete _ co \<Rightarrow> monitor_on_leave D new_blocker pthread_self slot co
      | On_error _ co _ \<Rightarrow> monitor_on_leave D new_blocker pthread_self slot co
      | On_create _ \<Rightarrow> (\<lambda>(m, w). (Ok (), m, w))
      | On_syscall _ _ _ _ \<Rightarrow> (\<lambda>(m, w). (Ok (), m, w)))"

subsection \<open>The thread\<close>

text \<open>
  What a task of the thread does: only a coroutine that is running gets the signal. \<open>state_at\<close> reads the state of the
  coroutine at an address, \<open>pthread_kill\<close> sends the signal; its failure is only logged.
\<close>

definition preempt :: "(u64 \<Rightarrow> 's \<Rightarrow> (unit, unit) coroutine_state) \<Rightarrow> (u64 \<Rightarrow> 's \<Rightarrow> 's) \<Rightarrow> task_node \<Rightarrow> usize option \<Rightarrow> 's
    \<Rightarrow> task_end \<times> 's" where
  "preempt state_at pthread_kill node param s =
     (Gives None, if state_at (tn_coroutine node) s = Running then pthread_kill (tn_pthread node) s else s)"

text \<open>
  The thread visits the entries in order, up to the first that is not due yet. The nodes of an entry become tasks of
  the thread's own pool, which is then scheduled; \<open>uuid\<close> gives the names of the tasks.
\<close>

fun preempt_due where
  "preempt_due T schedule uuid [] s = Some s"
| "preempt_due T schedule uuid ((exec_time, entry) # entries) s =
     (let (n, s) = now s in
      if n < exec_time then Some s
      else if te_is_empty entry then preempt_due T schedule uuid entries s
      else
        let s = fold (\<lambda>node s. snd (pool_submit T (uuid s) None node None s)) (te_iter entry) s in
        case pool_try_schedule schedule s of
          None \<Rightarrow> None
        | Some (_, s) \<Rightarrow> preempt_due T schedule uuid entries s)"

text \<open>The nodes to remove are taken from the end of the queue.\<close>

definition clean_node :: "task_node \<Rightarrow> task_node timer_list \<Rightarrow> task_node timer_list" where
  "clean_node node tasks =
     (let timestamp = tn_timestamp node in
      case tl_get_entry timestamp (\<lambda>entry. let (_, entry) = te_remove node entry in (te_is_empty entry, entry)) tasks of
        (None, tasks) \<Rightarrow> tasks
      | (Some is_empty, tasks) \<Rightarrow> if is_empty then snd (tl_remove timestamp tasks) else tasks)"

definition monitor_clean :: "'b monitor_impl \<Rightarrow> 'b monitor_impl" where
  "monitor_clean i = i\<lparr>mi_tasks := foldr clean_node (mi_clean_queue i) (mi_tasks i), mi_clean_queue := []\<rparr>"

text \<open>
  One round of the thread and its loop. \<open>block\<close> is what happens, here and in the other threads, while the blocker
  blocks for a millisecond; \<open>stop\<close> is the pool's.
\<close>

definition monitor_round where
  "monitor_round T schedule uuid block = (\<lambda>(i, s).
     case preempt_due T schedule uuid (tl_iter (mi_tasks i)) s of
       None \<Rightarrow> None
     | Some s \<Rightarrow> (let i = monitor_clean i in Some (block (mi_blocker i) (1000000 :: duration) (i, s))))"

partial_function (option) monitor_thread where
  "monitor_thread T schedule uuid block stop is =
     (let (i, s) = is in
      if mi_run i \<or> \<not> tl_is_empty (mi_tasks i) then
        (case monitor_round T schedule uuid block (i, s) of
           None \<Rightarrow> None
         | Some is \<Rightarrow> monitor_thread T schedule uuid block stop is)
      else case stop (30000000000 :: duration) s of None \<Rightarrow> None | Some (_, s) \<Rightarrow> Some (i, s))"

subsection \<open>The handler of the signal\<close>

text \<open>
  \<open>get_mask\<close> and \<open>set_mask\<close> are the calls that read and write the signal mask of the thread; \<open>yield\<close> is everything that
  happens between the suspension of the interrupted coroutine and its resumption.
\<close>

definition sigurg_handler :: "('n tls_scheme \<Rightarrow> string list option) \<Rightarrow> (string list \<Rightarrow> 'n tls_scheme \<Rightarrow> bool \<times> 'n tls_scheme)
    \<Rightarrow> ('n tls_scheme \<Rightarrow> 'n tls_scheme) \<Rightarrow> 'n tls_scheme \<Rightarrow> (unit, unit) outcome \<times> 'n tls_scheme" where
  "sigurg_handler get_mask set_mask yield s =
     (case get_mask s of
        None \<Rightarrow> (Ok (), s)
      | Some sigs \<Rightarrow>
          (let (ok, s) = set_mask (removeAll ''SIGURG'' sigs) s in
           if \<not> ok then (Panic ''Failed to remove SIGURG signal mask!'', s)
           else if suspender_current s \<noteq> None then (Ok (), yield s)
           else (Ok (), s)))"

end
