(* ===== verification/MonitorClaims.thy ===== *)
theory MonitorClaims
  imports Monitor
begin

text \<open>
  What the monitor watches. Its table is followed through the events of the schedulers and the rounds of its thread:
  it holds the nodes of the running coroutines, those still queued for removal, and one for every time a coroutine left
  its scheduler by a system call, since nothing removes those.
\<close>

subsection \<open>The table as a map\<close>

text \<open>While no two nodes share a timestamp, every entry has one element and the table is a map from timestamps.\<close>

definition holds :: "task_node timer_list \<Rightarrow> (u64 \<rightharpoonup> task_node) \<Rightarrow> bool" where
  "holds tasks f \<longleftrightarrow> bt_inv tasks \<and> (\<forall>k n. f k = Some n \<longrightarrow> tn_timestamp n = k) \<and>
     map_of tasks = (\<lambda>k. map_option (\<lambda>n. \<lparr>te_timestamp = k, te_inner = [n]\<rparr>) (f k))"

lemma holdsD:
  assumes "holds tasks f"
  shows "bt_inv tasks" "f k = Some n \<Longrightarrow> tn_timestamp n = k"
    "map_of tasks k = map_option (\<lambda>n. \<lparr>te_timestamp = k, te_inner = [n]\<rparr>) (f k)"
  using assms by (simp_all add: holds_def)

lemma ran_keyed:
  assumes "\<And>k n. h k = Some n \<Longrightarrow> tn_timestamp n = k"
  shows "m \<in> ran h \<longleftrightarrow> h (tn_timestamp m) = Some m"
  using assms by (auto simp: ran_def)

lemma holds_default: "holds tl_default Map.empty"
  by (simp add: holds_def tl_default_def fun_eq_iff)

lemma holds_insert:
  assumes "holds tasks f" "f k = None" "tn_timestamp n = k"
  shows "holds (tl_insert k n tasks) (f(k \<mapsto> n))"
  using assms holdsD [OF assms(1)]
  by (simp add: holds_def tl_insert_eq bt_inv_put map_of_bt_put te_defs fun_eq_iff)

lemma binary_search_single: "binary_search [n] n = Ok 0"
  using binary_search_sorted_Ok [of "[n]" n] by auto

lemma holds_clean:
  assumes "holds tasks f" "f (tn_timestamp n) = Some n"
  shows "holds (clean_node n tasks) (f(tn_timestamp n := None))"
proof -
  let ?k = "tn_timestamp n" and ?e = "\<lparr>te_timestamp = tn_timestamp n, te_inner = [n]\<rparr>"
  have "map_of tasks ?k = Some ?e" using holdsD(3) [OF assms(1), of ?k] assms(2) by simp
  then have "clean_node n tasks = AList.delete ?k (bt_put ?k \<lparr>te_timestamp = ?k, te_inner = []\<rparr> tasks)"
    by (simp add: clean_node_def tl_get_entry_def bt_get_def te_remove_def binary_search_single Let_def te_is_empty_def
        bt_insert_def tl_remove_def bt_remove_def)
  with holdsD [OF assms(1)] show ?thesis
    by (auto simp: holds_def bt_inv_put bt_inv_delete delete_conv' map_of_bt_put fun_eq_iff)
qed

lemma holds_clean_all:
  assumes "holds tasks f" "distinct q" "set q \<subseteq> ran f"
  shows "\<exists>g. holds (foldr clean_node q tasks) g \<and> ran g = ran f - set q"
  using assms(2,3)
proof (induction q)
  case Nil
  then show ?case using assms(1) by auto
next
  case (Cons n q)
  then obtain g where g: "holds (foldr clean_node q tasks) g" "ran g = ran f - set q" by auto
  have n: "n \<in> ran g" using Cons.prems g(2) by auto
  then obtain k where "g k = Some n" by (auto simp: ran_def)
  with holdsD(2) [OF g(1)] have gn: "g (tn_timestamp n) = Some n" by blast
  have "m \<in> ran (g(tn_timestamp n := None)) \<longleftrightarrow> m \<in> ran g - {n}" for m
  proof -
    have "m \<in> ran (g(tn_timestamp n := None)) \<longleftrightarrow> (g(tn_timestamp n := None)) (tn_timestamp m) = Some m"
      by (rule ran_keyed) (metis fun_upd_apply holdsD(2) [OF g(1)] option.distinct(1))
    moreover have "m \<in> ran g \<longleftrightarrow> g (tn_timestamp m) = Some m"
      by (rule ran_keyed) (rule holdsD(2) [OF g(1)])
    ultimately show ?thesis using gn by (cases "tn_timestamp m = tn_timestamp n") auto
  qed
  then have "ran (g(tn_timestamp n := None)) = ran g - {n}" by blast
  then show ?case
    using holds_clean [OF g(1) gn] g(2) by auto
qed

text \<open>What an instance watches.\<close>

definition watched :: "'b monitor_impl \<Rightarrow> task_node set" where
  "watched i = snd ` set (tl_pairs (mi_tasks i))"

lemma set_pairs_holds:
  assumes "holds tasks f"
  shows "snd ` set (tl_pairs tasks) = ran f"
proof -
  have mem: "(k, e) \<in> set tasks \<longleftrightarrow> (\<exists>n. f k = Some n \<and> e = \<lparr>te_timestamp = k, te_inner = [n]\<rparr>)" for k e
    using holdsD(3) [OF assms, of k] map_of_eq_Some_iff [OF bt_inv_distinct [OF holdsD(1) [OF assms]], of k e]
    by auto
  have "n \<in> snd ` set (tl_pairs tasks) \<longleftrightarrow> (\<exists>k e. (k, e) \<in> set tasks \<and> n \<in> set (te_inner e))" for n
    unfolding tl_pairs_def by force
  moreover have "(\<exists>k e. (k, e) \<in> set tasks \<and> n \<in> set (te_inner e)) \<longleftrightarrow> (\<exists>k. f k = Some n)" for n
    unfolding mem by (force simp del: not_None_eq)
  ultimately have "n \<in> snd ` set (tl_pairs tasks) \<longleftrightarrow> n \<in> ran f" for n by (simp add: ran_def)
  then show ?thesis by blast
qed

subsection \<open>Following the events\<close>

text \<open>
  \<open>follows D nb m on lost\<close>: the processes' events lead to the state \<open>m\<close> of the monitor. \<open>on\<close> gives the node of every
  coroutine that runs, \<open>lost\<close> the nodes of the stays that ended with a system call. A coroutine is resumed when it does
  not run, and the event that ends its stay comes from the same thread and place; two stays never have the same timestamp.
\<close>

definition stays_until :: "u64 \<Rightarrow> 'w env_scheme \<Rightarrow> u64" where
  "stays_until timeout_time w = min (fst (get_timeout_time 10000000 w)) timeout_time"

definition new_monitors :: "('d, string, nat) dash_ops \<Rightarrow> ('b, 'l, 'd) monitors" where
  "new_monitors D = \<lparr>MONITOR = None, SIGURG_HANDLER = False, LOCALS = (\<lambda>_. (dm_new D, \<lparr>hp_next = 0, hp_box = Map.empty\<rparr>))\<rparr>"

inductive follows :: "('d, string, nat) dash_ops \<Rightarrow> 'b \<Rightarrow> ('b, 'l, 'd) monitors \<Rightarrow> ('l \<rightharpoonup> task_node) \<Rightarrow> task_node set \<Rightarrow> bool"
  for D nb where
  begins: "follows D nb (new_monitors D) Map.empty {}"
| resumes: "follows D nb m on lost \<Longrightarrow> on (co_local co) = None \<Longrightarrow>
    (\<forall>i. MONITOR m = Some i \<longrightarrow> map_of (mi_tasks i) (stays_until tt w) = None) \<Longrightarrow>
    monitor_on_event D nb os pthread slot (On_resume tt co :: (unit, 'l) event) (m, w :: env) = (Ok (), m', w') \<Longrightarrow>
    follows D nb m' (on(co_local co \<mapsto> Task_Node (stays_until tt w) pthread slot)) lost"
| leaves: "follows D nb m on lost \<Longrightarrow> on (co_local co) = Some n \<Longrightarrow> tn_pthread n = pthread \<Longrightarrow> tn_coroutine n = slot \<Longrightarrow>
    e \<in> {On_suspend tt co, On_complete tt co, On_error tt co message} \<Longrightarrow>
    monitor_on_event D nb os pthread slot (e :: (unit, 'l) event) (m, w :: env) = (Ok (), m', w') \<Longrightarrow>
    follows D nb m' (on(co_local co := None)) lost"
| calls: "follows D nb m on lost \<Longrightarrow> on (co_local co) = Some n \<Longrightarrow>
    monitor_on_event D nb os pthread slot (On_syscall tt co sc st :: (unit, 'l) event) (m, w :: env) = (Ok (), m', w') \<Longrightarrow>
    follows D nb m' (on(co_local co := None)) (insert n lost)"
| cleans: "follows D nb m on lost \<Longrightarrow> MONITOR m = Some i \<Longrightarrow> follows D nb (m\<lparr>MONITOR := Some (monitor_clean i)\<rparr>) on lost"
| stops: "follows D nb m on lost \<Longrightarrow> MONITOR m = Some i \<Longrightarrow> follows D nb (m\<lparr>MONITOR := Some (monitor_stop i)\<rparr>) on lost"
| reblocks: "follows D nb m on lost \<Longrightarrow> follows D nb (snd (monitor_change_blocker nb b m)) on lost"

subsection \<open>The invariant\<close>

definition table_ok :: "'b monitor_impl \<Rightarrow> ('l \<rightharpoonup> task_node) \<Rightarrow> task_node set \<Rightarrow> bool" where
  "table_ok i on lost \<longleftrightarrow> (\<exists>f. holds (mi_tasks i) f \<and> ran f = set (mi_clean_queue i) \<union> ran on \<union> lost) \<and>
     distinct (mi_clean_queue i) \<and> set (mi_clean_queue i) \<inter> (ran on \<union> lost) = {} \<and> ran on \<inter> lost = {} \<and>
     inj_on on (dom on)"

lemma ran_upd_None:
  assumes "inj_on on (dom on)" "on l = Some n"
  shows "ran (on(l := None)) = ran on - {n}" "n \<in> ran on"
proof -
  have "l' = l" if "on l' = Some n" for l' using assms that by (metis domI inj_onD)
  then have "(\<exists>l'. l' \<noteq> l \<and> on l' = Some x) \<longleftrightarrow> (\<exists>l'. on l' = Some x) \<and> x \<noteq> n" for x
    using assms(2) by (metis option.inject)
  then show "ran (on(l := None)) = ran on - {n}" unfolding ran_def by auto
  show "n \<in> ran on" using assms(2) by (rule ranI)
qed

lemma inj_upd_None: "inj_on on (dom on) \<Longrightarrow> inj_on (on(l := None)) (dom (on(l := None)))"
  by (auto simp: inj_on_def dom_def split: if_splits)

lemma inj_upd_Some:
  assumes "inj_on on (dom on)" "n \<notin> ran on"
  shows "inj_on (on(l \<mapsto> n)) (dom (on(l \<mapsto> n)))"
  using assms by (auto simp: inj_on_def ran_def dom_def split: if_splits)

lemma table_default: "mi_tasks i = tl_default \<Longrightarrow> mi_clean_queue i = [] \<Longrightarrow> table_ok i Map.empty {}"
  using holds_default by (auto simp: table_ok_def)

lemma table_insert:
  assumes ok: "table_ok i on lost" and fresh: "map_of (mi_tasks i) (tn_timestamp n) = None" and l: "on l = None"
    and j: "mi_tasks j = tl_insert (tn_timestamp n) n (mi_tasks i)" "mi_clean_queue j = mi_clean_queue i"
  shows "table_ok j (on(l \<mapsto> n)) lost"
proof -
  obtain f where f: "holds (mi_tasks i) f" "ran f = set (mi_clean_queue i) \<union> ran on \<union> lost"
    using ok by (auto simp: table_ok_def)
  have on: "ran (on(l \<mapsto> n)) = insert n (ran on)" using l by (rule ran_map_upd)
  have none: "f (tn_timestamp n) = None" using fresh holdsD(3) [OF f(1), of "tn_timestamp n"] by simp
  then have new: "n \<notin> ran f" using holdsD(2) [OF f(1), of _ n] by (auto simp: ran_def)
  have "holds (mi_tasks j) (f(tn_timestamp n \<mapsto> n))" using holds_insert [OF f(1) none] j by simp
  moreover have "ran (f(tn_timestamp n \<mapsto> n)) = insert n (ran f)" using none by (rule ran_map_upd)
  ultimately have "\<exists>f. holds (mi_tasks j) f \<and> ran f = set (mi_clean_queue j) \<union> ran (on(l \<mapsto> n)) \<union> lost"
    unfolding on j f(2) by (metis Un_insert_left Un_insert_right)
  moreover have "inj_on (on(l \<mapsto> n)) (dom (on(l \<mapsto> n)))"
    using ok new f(2) by (intro inj_upd_Some) (simp_all add: table_ok_def)
  moreover have "set (mi_clean_queue j) \<inter> (ran (on(l \<mapsto> n)) \<union> lost) = {}" "ran (on(l \<mapsto> n)) \<inter> lost = {}"
    using ok new f(2) unfolding on j by (auto simp: table_ok_def)
  ultimately show ?thesis using ok unfolding table_ok_def j by blast
qed

lemma table_leave:
  assumes ok: "table_ok i on lost" and l: "on l = Some n"
    and j: "mi_tasks j = mi_tasks i" "mi_clean_queue j = mi_clean_queue i @ [n]"
  shows "table_ok j (on(l := None)) lost"
proof -
  have inj: "inj_on on (dom on)" using ok by (simp add: table_ok_def)
  note ran = ran_upd_None [OF inj l]
  show ?thesis using ok inj_upd_None [OF inj] ran(2) unfolding table_ok_def ran(1) j
    by (auto simp: insert_absorb)
qed

lemma table_call:
  assumes ok: "table_ok i on lost" and l: "on l = Some n"
  shows "table_ok i (on(l := None)) (insert n lost)"
proof -
  have inj: "inj_on on (dom on)" using ok by (simp add: table_ok_def)
  note ran = ran_upd_None [OF inj l]
  have "set q \<union> (ran on - {n}) \<union> insert n lost = set q \<union> ran on \<union> lost" for q using ran(2) by auto
  then show ?thesis using ok inj_upd_None [OF inj] ran(2) unfolding table_ok_def ran(1) by auto
qed

lemma table_clean:
  assumes "table_ok i on lost"
  shows "table_ok (monitor_clean i) on lost"
proof -
  obtain f where f: "holds (mi_tasks i) f" "ran f = set (mi_clean_queue i) \<union> ran on \<union> lost"
    using assms by (auto simp: table_ok_def)
  obtain g where "holds (mi_tasks (monitor_clean i)) g" "ran g = ran f - set (mi_clean_queue i)"
    using holds_clean_all [OF f(1), of "mi_clean_queue i"] assms f(2) by (auto simp: table_ok_def monitor_clean_def)
  moreover have "ran f - set (mi_clean_queue i) = ran on \<union> lost" using assms f(2) by (auto simp: table_ok_def)
  ultimately show ?thesis using assms by (auto simp: table_ok_def monitor_clean_def)
qed

lemma table_watched: "table_ok i on lost \<Longrightarrow> watched i = set (mi_clean_queue i) \<union> ran on \<union> lost"
  unfolding table_ok_def watched_def by (elim conjE exE) (simp only: set_pairs_holds)

definition locals_ok where
  "locals_ok look dok m on \<longleftrightarrow> (\<forall>l d h. LOCALS m l = (d, h) \<longrightarrow> dok d \<and> local_inv (look d) h \<and>
     (\<forall>n. on l = Some n \<longrightarrow> local_view (look d) h MONITOR_TIMESTAMP = Some (tn_timestamp n)))"

definition monitor_inv where
  "monitor_inv nb look dok m on lost \<longleftrightarrow> locals_ok look dok m on \<and> table_ok (fst (get_instance nb m)) on lost"

lemma get_instance_tasks:
  "mi_tasks (fst (get_instance nb m)) = (case MONITOR m of None \<Rightarrow> tl_default | Some i \<Rightarrow> mi_tasks i)"
  "MONITOR m = Some i \<Longrightarrow> fst (get_instance nb m) = i"
  "LOCALS (snd (get_instance nb m)) = LOCALS m"
  by (simp_all add: get_instance_def Let_def split: option.splits)

lemma submit_Ok:
  assumes "monitor_submit os pthread ts slot s = (Ok (), i, handler)"
  shows "mi_tasks i = tl_insert ts (Task_Node ts pthread slot) (mi_tasks (fst s))" "mi_clean_queue i = mi_clean_queue (fst s)"
  using assms by (auto simp: monitor_submit_def monitor_start_def node_new_def Let_def split: prod.splits outcome.splits if_splits)

lemma on_resume_Ok:
  assumes "monitor_on_resume D nb os pthread slot tt co (m, w) = (Ok (), m', w')"
    and "LOCALS m (co_local co) = (d, h)" "local_put D MONITOR_TIMESTAMP (stays_until tt w) d h = (r, d', h')"
  shows "\<exists>i handler. MONITOR m' = Some i \<and> LOCALS m' = (LOCALS m)(co_local co := (d', h')) \<and>
    monitor_submit os pthread (stays_until tt w) slot (fst (get_instance nb m), SIGURG_HANDLER m) = (Ok (), i, handler)"
proof -
  let ?m = "m\<lparr>LOCALS := (LOCALS m)(co_local co := (d', h'))\<rparr>"
  obtain i m1 where inst: "get_instance nb ?m = (i, m1)" by force
  obtain r' i' handler where sub:
    "monitor_submit os pthread (stays_until tt w) slot (i, SIGURG_HANDLER m1) = (r', i', handler)"
    by (metis prod_cases3)
  have m1: "LOCALS m1 = LOCALS ?m" "SIGURG_HANDLER m1 = SIGURG_HANDLER ?m" "fst (get_instance nb m) = i"
    using inst by (auto simp: get_instance_def Let_def split: option.splits)
  from assms inst sub show ?thesis
    unfolding monitor_on_resume_def Let_def stays_until_def
    by (auto split: prod.splits outcome.splits simp: m1)
qed

lemma on_leave_Ok:
  assumes "monitor_on_leave D nb pthread slot co (m, w) = (Ok (), m', w')"
    and "LOCALS m (co_local co) = (d, h)" "local_get D MONITOR_TIMESTAMP d h = Ok (Some ts)"
  shows "MONITOR m' = Some (monitor_remove pthread ts slot (fst (get_instance nb m))) \<and> LOCALS m' = LOCALS m"
  using assms by (auto simp: monitor_on_leave_def get_instance_tasks split: prod.splits)
    (metis get_instance_tasks(3) snd_conv)


lemma inv_begins: "dash_map D look dok \<Longrightarrow> monitor_inv nb look dok (new_monitors D) Map.empty {}"
  by (auto simp: monitor_inv_def locals_ok_def new_monitors_def dash_map.new_ok local_inv_def get_instance_def Let_def
      intro: table_default)

lemma inv_resumes:
  assumes map: "dash_map D look dok" and inv: "monitor_inv nb look dok m on lost" and off: "on (co_local co) = None"
    and fresh: "\<forall>i. MONITOR m = Some i \<longrightarrow> map_of (mi_tasks i) (stays_until tt w) = None"
    and run: "monitor_on_resume D nb os pthread slot tt co (m, w) = (Ok (), m', w')"
  shows "monitor_inv nb look dok m' (on(co_local co \<mapsto> Task_Node (stays_until tt w) pthread slot)) lost"
proof -
  let ?n = "Task_Node (stays_until tt w) pthread slot"
  obtain d h where l: "LOCALS m (co_local co) = (d, h)" by force
  obtain r d' h' where put: "local_put D MONITOR_TIMESTAMP (stays_until tt w) d h = (r, d', h')" by (metis prod_cases3)
  obtain i handler where i: "MONITOR m' = Some i" "LOCALS m' = (LOCALS m)(co_local co := (d', h'))"
    "monitor_submit os pthread (stays_until tt w) slot (fst (get_instance nb m), SIGURG_HANDLER m) = (Ok (), i, handler)"
    using on_resume_Ok [OF run l put] by blast
  have "dok d" "local_inv (look d) h" using inv l by (auto simp: monitor_inv_def locals_ok_def)
  from local_put_spec [OF map this, of MONITOR_TIMESTAMP "stays_until tt w"] put
  have "dok d'" "local_inv (look d') h'" "local_view (look d') h' MONITOR_TIMESTAMP = Some (stays_until tt w)" by simp_all
  then have "locals_ok look dok m' (on(co_local co \<mapsto> ?n))"
    using inv i(2) by (auto simp: monitor_inv_def locals_ok_def)
  moreover have "table_ok i (on(co_local co \<mapsto> ?n)) lost"
  proof (rule table_insert [of "fst (get_instance nb m)"])
    show "table_ok (fst (get_instance nb m)) on lost" using inv by (simp add: monitor_inv_def)
    show "map_of (mi_tasks (fst (get_instance nb m))) (tn_timestamp ?n) = None"
      using fresh by (simp add: get_instance_tasks(1) tl_default_def split: option.splits)
  qed (use off submit_Ok [OF i(3)] in simp_all)
  ultimately show ?thesis by (simp add: monitor_inv_def get_instance_tasks(2) [OF i(1)])
qed

lemma inv_leaves:
  assumes map: "dash_map D look dok" and inv: "monitor_inv nb look dok m on lost"
    and on: "on (co_local co) = Some n" "tn_pthread n = pthread" "tn_coroutine n = slot"
    and run: "monitor_on_leave D nb pthread slot co (m, w) = (Ok (), m', w')"
  shows "monitor_inv nb look dok m' (on(co_local co := None)) lost"
proof -
  obtain d h where l: "LOCALS m (co_local co) = (d, h)" by force
  have d: "dok d" "local_inv (look d) h" "local_view (look d) h MONITOR_TIMESTAMP = Some (tn_timestamp n)"
    using inv l on by (auto simp: monitor_inv_def locals_ok_def)
  then have "local_get D MONITOR_TIMESTAMP d h = Ok (Some (tn_timestamp n))"
    using local_get_spec [OF map d(1,2)] by simp
  note m' = on_leave_Ok [OF run l this]
  have "node_new pthread (tn_timestamp n) slot = n" using on by (cases n) (simp add: node_new_def)
  with on(1) inv have "table_ok (monitor_remove pthread (tn_timestamp n) slot (fst (get_instance nb m))) (on(co_local co := None)) lost"
    by (intro table_leave [of "fst (get_instance nb m)"]) (auto simp: monitor_inv_def monitor_remove_def)
  moreover have "locals_ok look dok m' (on(co_local co := None))"
    using inv m' by (auto simp: monitor_inv_def locals_ok_def)
  ultimately show ?thesis using m' by (simp add: monitor_inv_def get_instance_tasks(2))
qed

lemma inv_calls:
  assumes "monitor_inv nb look dok m on lost" "on l = Some n"
  shows "monitor_inv nb look dok m (on(l := None)) (insert n lost)"
  using assms table_call [of _ on lost l n] by (auto simp: monitor_inv_def locals_ok_def)

lemma inv_changes:
  assumes "monitor_inv nb look dok m on lost" "table_ok (fst (get_instance nb m)) on lost \<Longrightarrow> table_ok i on lost"
  shows "monitor_inv nb look dok (m\<lparr>MONITOR := Some i\<rparr>) on lost"
  using assms by (auto simp: monitor_inv_def locals_ok_def get_instance_def)

lemma follows_inv:
  assumes "dash_map D look dok" "follows D nb m on lost"
  shows "monitor_inv nb look dok m on lost"
  using assms(2)
proof (induction rule: follows.induct)
  case begins
  then show ?case by (rule inv_begins [OF assms(1)])
next
  case (resumes m on lost co tt w os pthread slot m' w')
  from resumes.hyps(4) have "monitor_on_resume D nb os pthread slot tt co (m, w) = (Ok (), m', w')"
    by (simp add: monitor_on_event_def)
  then show ?case by (rule inv_resumes [OF assms(1) resumes.IH resumes.hyps(2,3)])
next
  case (leaves m on lost co n pthread slot e tt message os w m' w')
  then have "monitor_on_leave D nb pthread slot co (m, w) = (Ok (), m', w')"
    by (auto simp: monitor_on_event_def)
  then show ?case by (rule inv_leaves [OF assms(1) leaves.IH leaves.hyps(2-4)])
next
  case (calls m on lost co n os pthread slot tt sc st w m' w')
  from calls.hyps(3) have "m' = m" by (simp add: monitor_on_event_def)
  then show ?case using inv_calls [OF calls.IH calls.hyps(2)] by (simp only:)
next
  case (cleans m on lost i)
  then show ?case by (auto simp: get_instance_tasks(2) intro!: inv_changes table_clean)
next
  case (stops m on lost i)
  then show ?case
    by (intro inv_changes) (simp_all add: get_instance_tasks(2) table_ok_def monitor_stop_def)
next
  case (reblocks m on lost b)
  then show ?case
    by (auto simp: monitor_change_blocker_def get_instance_def Let_def monitor_inv_def locals_ok_def table_ok_def
        split: option.splits)
qed

subsection \<open>Claims about the monitor\<close>


text \<open>A coroutine to report about, and a clock.\<close>

definition some_co :: "(unit, nat) sched_co" where
  "some_co = \<lparr>co_name = ''co'', co_inner = \<lparr>in_started = True, in_done = False, in_cont = ()\<rparr>, co_state = Ready, co_local = 0\<rparr>"

definition all_well :: os_answers where "all_well = \<lparr>os_sigaction = True, os_spawn = True\<rparr>"

text \<open>The monitor after a coroutine was resumed at time 0 and left by a system call.\<close>

definition after_call :: "(unit, nat, (string \<times> nat) list) monitors" where
  "after_call = fst (snd (monitor_on_event alist_map () all_well 7 9 (On_resume 100 some_co) (new_monitors alist_map, sample_env 0)))"

lemma timeout_at_0: "get_timeout_time 10000000 (sample_env 0) = (10000000, (sample_env 0)\<lparr>reads := 1\<rparr>)"
  by (simp add: get_timeout_time_def now_def u64_try_from_def sample_env_def saturating_add_def)

lemmas resume_eval = monitor_on_event_def monitor_on_resume_def new_monitors_def local_put_def box_leak_def
  take_box_def alist_map_def get_instance_def monitor_submit_def monitor_start_def all_well_def Let_def timeout_at_0

lemma after_call_follows: "follows alist_map () after_call Map.empty {Task_Node 100 7 9}"
proof -
  let ?run = "monitor_on_event alist_map () all_well 7 9"
  have ts: "stays_until 100 (sample_env 0) = 100" by (simp add: stays_until_def timeout_at_0 min_def)
  have ok: "?run (On_resume 100 some_co) (new_monitors alist_map, sample_env 0) =
      (Ok (), after_call, (sample_env 0)\<lparr>reads := 1\<rparr>)"
    by (simp add: after_call_def resume_eval)
  have "follows alist_map () after_call (Map.empty(co_local some_co \<mapsto> Task_Node 100 7 9)) {}"
    using follows.resumes [OF follows.begins _ _ ok] ts by (simp add: new_monitors_def)
  from follows.calls [OF this, of some_co "Task_Node 100 7 9" all_well 7 9 100 Sys_read Sys_Computing "sample_env 0"]
  show ?thesis by (simp add: monitor_on_event_def)
qed


text \<open>
  When two threads have the same timestamp, the search for a node relies on an order the entry does not have: with the node of the
  thread with the greater id in front, cleaning that node removes nothing, and it stays.
\<close>

lemma shared_timestamp_keeps_node:
  assumes "p < q"
  shows "clean_node (Task_Node t q c) (tl_insert t (Task_Node t p c) (tl_insert t (Task_Node t q c) tl_default)) =
    tl_insert t (Task_Node t p c) (tl_insert t (Task_Node t q c) tl_default)"
  using assms
  by (simp add: clean_node_def tl_default_def tl_insert_eq te_defs tl_get_entry_def bt_get_def te_remove_def binary_search_def
      bsearch_loop.simps less_task_node_def node_less_def Let_def bt_insert_def)

end
