(* ===== verification/CoApi.thy ===== *)
theory CoApi
  imports EventLoops PoolClaims
begin

text \<open>
  What an application calls: \<^verbatim>\<open>co\<close> and the join handle of the crate \<^verbatim>\<open>open-coroutine\<close>, the C functions of
  \<^verbatim>\<open>open-coroutine-hooks/src/coroutine.rs\<close> and \<^verbatim>\<open>lib.rs\<close> behind them, and the function the macro \<^verbatim>\<open>open_coroutine::main\<close> generates.

  A result crosses the C interface as a \<^verbatim>\<open>c_long\<close>: the address of a leaked box. \<open>boxes\<close> reads a value of the heap.
\<close>

type_synonym c_long = "64 word"

text \<open>The task \<open>coroutine_crate\<close> submits: the closure around a C function. The stack size is read and not used.\<close>

datatype 'c crate_task = Crate_task 'c

definition run_crate_task :: "('c \<Rightarrow> usize \<Rightarrow> 's \<Rightarrow> usize \<times> 's) \<Rightarrow> 'c crate_task \<Rightarrow> usize option \<Rightarrow> 's \<Rightarrow> task_end \<times> 's" where
  "run_crate_task call task param s =
     (case task of Crate_task f \<Rightarrow>
        let (r, s) = call f (case param of Some p \<Rightarrow> p | None \<Rightarrow> 0) s in (Gives (Some r), s))"

definition coroutine_crate where
  "coroutine_crate preemptive PO malloc uuid f param stack_size =
     (let stack_size' = (if stack_size > (0 :: usize) then Some stack_size else None)
      in loops_submit preemptive PO malloc uuid None (Crate_task f) (Some param))"

text \<open>What the two joins make of the answer: \<open>None\<close> stands for a join that failed.\<close>

definition join_value :: "task_result option \<Rightarrow> c_long" where
  "join_value r = (case r of Some (Ok (Some ptr)) \<Rightarrow> ptr | Some (Ok None) \<Rightarrow> 0 | _ \<Rightarrow> - 1)"

definition coroutine_join where
  "coroutine_join M P PO yield = (\<lambda>(i, name).
     attempt (on_loop i (el_timeout_at_join M P PO yield name u64_MAX)) (\<lambda>r. ret (join_value r) :: (c_long, unit, _) prog))"

definition coroutine_timeout_join where
  "coroutine_timeout_join M P PO yield = (\<lambda>(i, name) (ns_time :: u64).
     andThen (timeout_after (unat ns_time)) (\<lambda>timeout_time.
     attempt (on_loop i (el_timeout_at_join M P PO yield name timeout_time)) (\<lambda>r. ret (join_value r) :: (c_long, unit, _) prog)))"

subsection \<open>The crate open-coroutine\<close>

text \<open>
  The boxes \<open>co\<close> leaks: the function with its parameter, whose address is the parameter of \<open>co_main\<close>, and the result, whose
  address \<open>co_main\<close> returns.
\<close>

datatype ('f, 'p, 'r) leaked = Leaked_call 'f 'p | Leaked_result 'r

record ('f, 'p, 'r) app_heap =
  ah_boxes :: "(usize \<times> ('f, 'p, 'r) leaked) list"

definition leak_box :: "((usize \<times> ('f, 'p, 'r) leaked) list \<Rightarrow> usize) \<Rightarrow> ('f, 'p, 'r) leaked \<Rightarrow> ('f, 'p, 'r) app_heap
    \<Rightarrow> usize \<times> ('f, 'p, 'r) app_heap" where
  "leak_box malloc b h = (let a = malloc (ah_boxes h) in (a, h\<lparr>ah_boxes := (a, b) # ah_boxes h\<rparr>))"

text \<open>Reading an address that does not hold a box of the expected kind is undefined in the code, a panic in the model.\<close>

definition co_main :: "((usize \<times> ('f, 'p, 'r) leaked) list \<Rightarrow> usize) \<Rightarrow> ('f \<Rightarrow> 'p \<Rightarrow> 'r) \<Rightarrow> usize \<Rightarrow> ('f, 'p, 'r) app_heap
    \<Rightarrow> (usize, unit) outcome \<times> ('f, 'p, 'r) app_heap" where
  "co_main malloc apply_fn input h =
     (case map_of (ah_boxes h) input of
        Some (Leaked_call f p) \<Rightarrow> (let (a, h) = leak_box malloc (Leaked_result (apply_fn f p)) h in (Ok a, h))
      | _ \<Rightarrow> (Panic ''undefined: not the box of a call'', h))"

definition co_input :: "((usize \<times> ('f, 'p, 'r) leaked) list \<Rightarrow> usize) \<Rightarrow> 'f \<Rightarrow> 'p \<Rightarrow> ('f, 'p, 'r) app_heap
    \<Rightarrow> usize \<times> ('f, 'p, 'r) app_heap" where
  "co_input malloc f param h = leak_box malloc (Leaked_call f param) h"

definition read_result :: "string \<Rightarrow> c_long \<Rightarrow> ('f, 'p, 'r) app_heap \<Rightarrow> ('r option, string) outcome" where
  "read_result message ptr h =
     (if ptr <s 0 then Err message
      else if ptr = 0 then Ok None
      else case map_of (ah_boxes h) ptr of
        Some (Leaked_result r) \<Rightarrow> Ok (Some r)
      | _ \<Rightarrow> Panic ''undefined: not the box of a result'')"

text \<open>The timeout is cut to 64 bits on the way to the C function.\<close>

definition join where
  "join M P PO yield handle h =
     andThen (coroutine_join M P PO yield handle) (\<lambda>ptr. ret (read_result ''join failed'' ptr h))"

definition app_timeout_join where
  "app_timeout_join M P PO yield handle dur h =
     andThen (coroutine_timeout_join M P PO yield handle (of_nat dur))
       (\<lambda>ptr. ret (read_result ''timeout join failed'' ptr h))"

subsection \<open>The generated main function\<close>

text \<open>
  The configuration is built by the setters from the default one and copied into the global one; then the body runs,
  then the event loops are stopped. \<open>config\<close> is \<open>main_config\<close> with the arguments of the macro.
\<close>

definition main_config :: "usize \<Rightarrow> usize \<Rightarrow> usize \<Rightarrow> usize \<Rightarrow> usize \<Rightarrow> u64 \<Rightarrow> (unit, unit, config) prog" where
  "main_config num_cpus event_loop_size stack_size min_size max_size keep_alive_time global =
     (case andThen (set_event_loop_size event_loop_size) (\<lambda>_.
           andThen (config_set_stack_size stack_size) (\<lambda>_.
           andThen (set_min_size min_size) (\<lambda>_.
           andThen (set_max_size max_size) (\<lambda>_.
           set_keep_alive_time keep_alive_time)))) (config_default num_cpus) of
        None \<Rightarrow> None
      | Some (Ok _, config) \<Rightarrow> init_config config global
      | Some (Err e, config) \<Rightarrow> Some (Err e, global)
      | Some (Panic m, config) \<Rightarrow> Some (Panic m, global))"

definition shutdowns where
  "shutdowns preemptive M P PO yield others others' monitor_stop =
     andThen (loops_stop preemptive M P PO yield others others' monitor_stop) (\<lambda>_. ret ())"

definition main_caller where
  "main_caller preemptive M P PO yield others others' monitor_stop config body = (\<lambda>(global, w).
     case config global of
       Some (Ok _, global) \<Rightarrow>
         (case andThen body (\<lambda>r. andThen (shutdowns preemptive M P PO yield others others' monitor_stop) (\<lambda>_. ret r)) w of
            None \<Rightarrow> None
          | Some (r, w) \<Rightarrow> Some (r, (global, w)))
     | Some (Err e, global) \<Rightarrow> Some (Panic [], (global, w))
     | Some (Panic m, global) \<Rightarrow> Some (Panic m, (global, w))
     | None \<Rightarrow> None)"

subsection \<open>Joining\<close>

lemma negative_iff: "(a :: c_long) <s 0 \<longleftrightarrow> 2 ^ 63 \<le> unat a"
proof -
  have "a <s 0 \<longleftrightarrow> bit a 63" by (simp add: word_sless_alt sint_uint signed_take_bit_negative_iff bit_uint_iff)
  also have "\<dots> \<longleftrightarrow> odd (unat a div 2 ^ 63)" using bit_iff_odd [of "unat a" 63] by (simp add: bit_unsigned_iff)
  also have "\<dots> \<longleftrightarrow> 0 < unat a div 2 ^ 63"
  proof -
    have "unat a < 2 ^ 64" using unsigned_less [of a] by simp
    then have "unat a div 2 ^ 63 < 2" by (simp add: div_less_iff_less_mult)
    then have "unat a div 2 ^ 63 = 0 \<or> unat a div 2 ^ 63 = 1" by linarith
    then show ?thesis by auto
  qed
  also have "\<dots> \<longleftrightarrow> 2 ^ 63 \<le> unat a" by (simp add: div_greater_zero_iff)
  finally show ?thesis .
qed

lemma join_value_sign:
  "(join_value r) <s 0 \<longleftrightarrow> (case r of Some (Ok (Some a)) \<Rightarrow> 2 ^ 63 \<le> unat a | Some (Ok None) \<Rightarrow> False | _ \<Rightarrow> True)"
  by (auto simp: join_value_def negative_iff unsigned_minus_1_eq_mask mask_eq_exp_minus_1 split: option.splits outcome.splits)

lemma wait_result_there:
  assumes E: "dash_map E look dok" and "dok (pl_results (el_pool e))" "look (pl_results (el_pool e)) name = Some r"
    and "el_get_state e = Pool_Running" "0 < left"
    and PO: "PO = model_pool T Q D L E V f alloc page_size uuid worker local_default run others"
  shows "\<exists>e'. el_wait_result M P PO yield name left (e, w) = Some (Ok (Some (name, r)), (e', w)) \<and>
    look (pl_results (el_pool e')) name = None"
proof -
  let ?s = "enter (el_pool e) w"
  have res: "pl_results ?s = pl_results (el_pool e)" by (simp add: enter_def pool.defs)
  have "pool_try_get_result E name ?s = (Some (name, r), ?s\<lparr>pl_results := snd (dm_remove E name (pl_results ?s))\<rparr>)"
    using dash_map.remove_eq [OF E assms(2), of name] assms(3) by (auto simp: pool_try_get_result_def res split: prod.splits)
  then have "po_wait_result PO name time ?s =
      Some (Ok (Some (name, r)), ?s\<lparr>pl_results := snd (dm_remove E name (pl_results ?s)), pl_waits := snd (dm_remove V name (pl_waits ?s))\<rparr>)" for time
    by (simp add: PO model_pool_def Let_def pool_wait_result_def)
  moreover have "leave (?s\<lparr>pl_results := x, pl_waits := y\<rparr>) = (fst (leave ?s)\<lparr>pl_results := x, pl_waits := y\<rparr>, w)" for x y
    by (cases w) (simp add: leave_def enter_def pool.defs tls.defs)
  moreover have "look (snd (dm_remove E name (pl_results ?s))) name = None"
    using dash_map.remove_look [OF E assms(2)] by (simp add: res)
  ultimately show ?thesis
    using assms(4,5) unfolding el_wait_result_def
    by (subst take_turns.simps) (simp add: result_turn_def on_pool_def attempt_def ret_def Let_def)
qed

text \<open>
  C40: A coroutine's result reaches the application. Let \<^verbatim>\<open>co\<close> leak a function with its parameter and let \<open>co_main\<close>, called with that
  address, return the address of the leaked result. Once the loop's pool has filed this address as the result of the
  task, \<open>join\<close> on a running loop returns the function's value at the parameter and takes the result out of the table, if the
  address is positive as a \<^verbatim>\<open>c_long\<close>.
\<close>

theorem join_gives_result:
  assumes "dash_map E look dok" and "PO = model_pool T Q D L E V f alloc page_size uuid worker local_default run others"
    and "e = EVENT_LOOPS w ! i" and "i < length (EVENT_LOOPS w)" and "el_get_state e = Pool_Running"
    and "dok (pl_results (el_pool e))" and "look (pl_results (el_pool e)) name = Some (Ok (Some a))" and "name \<noteq> []"
    and "clk w (reads w) < 2 ^ 64 - 1" and "0 < unat a" and "unat a < 2 ^ 63"
    and "co_input malloc g p h = (input, h1)" and "co_main malloc apply_fn input h1 = (Ok a, h2)"
  shows "\<exists>w'. join M P PO yield (i, name) h2 w = Some (Ok (Ok (Some (apply_fn g p))), w') \<and>
    look (pl_results (el_pool (EVENT_LOOPS w' ! i))) name = None"
proof -
  let ?w = "snd (now w)"
  have left: "0 < unat (saturating_sub u64_MAX (fst (now w)))"
    using assms(9) by (simp add: unat_saturating_sub unat_now u64_MAX_def unat_max_word)
  obtain e' where e': "el_wait_result M P PO yield name (unat (saturating_sub u64_MAX (fst (now w)))) (e, ?w) =
      Some (Ok (Some (name, Ok (Some a))), (e', ?w))" "look (pl_results (el_pool e')) name = None"
    using wait_result_there [OF assms(1,6,7,5) left assms(2)] by blast
  have loops: "EVENT_LOOPS ?w = EVENT_LOOPS w" "now w = (n, w0) \<Longrightarrow> EVENT_LOOPS w0 = EVENT_LOOPS w" for n w0
    by (auto simp: now_def)
  have "coroutine_join M P PO yield (i, name) w = Some (Ok a, ?w\<lparr>EVENT_LOOPS := (EVENT_LOOPS w)[i := e']\<rparr>)"
    using e'(1) assms(3,8) by (cases "now w")
      (simp add: coroutine_join_def attempt_def on_loop_def el_timeout_at_join_def on_thread_def read_clock_def state_of_def
        andThen_def ret_def join_value_def loops)
  moreover have "map_of (ah_boxes h2) a = Some (Leaked_result (apply_fn g p))"
    using assms(12,13) by (auto simp: co_input_def co_main_def leak_box_def Let_def)
  moreover have "a \<noteq> 0" using assms(10) by auto
  ultimately show ?thesis
    using assms(4,11) e'(2) by (auto simp: join_def andThen_def ret_def read_result_def negative_iff)
qed

text \<open>A timeout is only known modulo \<open>2 ^ 64\<close> nanoseconds: a longer one ends early.\<close>

lemma timeout_join_truncates:
  "app_timeout_join M P PO yield handle (dur + 2 ^ 64) h = app_timeout_join M P PO yield handle dur h"
proof -
  have "(of_nat (dur + 2 ^ 64) :: u64) = of_nat dur"
    by (rule word_of_nat_eq_iff [THEN iffD2]) (simp add: take_bit_eq_mod)
  then show ?thesis by (simp only: app_timeout_join_def)
qed

text \<open>The generated main function starts with exactly the arguments of the macro, or panics.\<close>

lemma main_config_exact:
  "main_config num_cpus els stack mi ma keep global =
     (if \<not> els > 1 then Some (Panic ''event_loop_size must be greater than 1'', global)
      else if \<not> ma > 0 then Some (Panic ''max_size must be greater than 0'', global)
      else if \<not> ma \<ge> mi then Some (Panic ''max_size must be greater than or equal to min_size'', global)
      else Some (Ok (), global\<lparr>cf_event_loop_size := els, cf_stack_size := stack, cf_min_size := mi, cf_max_size := ma,
        cf_keep_alive_time := keep\<rparr>))"
  by (simp add: main_config_def init_config_def set_event_loop_size_def config_set_stack_size_def set_min_size_def
      set_max_size_def set_keep_alive_time_def config_default_def get_event_loop_size_def get_stack_size_def get_min_size_def
      get_max_size_def get_keep_alive_time_def andThen_def gets_def upd_def panic_def)

end
