(* ===== verification/MainMacro.thy ===== *)
theory MainMacro
  imports CoApi
begin

text \<open>
  The arguments of the attribute \<^verbatim>\<open>open_coroutine::main\<close> (\<^verbatim>\<open>open-coroutine-macros/src/lib.rs\<close>): which numbers end up in
  the function it generates (\<open>main_caller\<close> of \<open>CoApi\<close>). The third-party \<^verbatim>\<open>syn\<close> is a parameter twice: \<open>lit\<close>
  reads \<open>= \<close> and an integer literal from the tokens after a name, \<open>parser\<close> calls the closure for every name in the tokens.
\<close>

record macro_args =
  ma_event_loop_size :: usize
  ma_stack_size :: usize
  ma_min_size :: usize
  ma_max_size :: usize
  ma_keep_alive_time :: u64

text \<open>The defaults; the number of processors is that of the machine that compiles.\<close>

definition macro_default :: "usize \<Rightarrow> macro_args" where
  "macro_default num_cpus = \<lparr>ma_event_loop_size = num_cpus, ma_stack_size = 64 * 1024, ma_min_size = 0, ma_max_size = 65536,
     ma_keep_alive_time = 0\<rparr>"

definition read_arg :: "('i \<Rightarrow> (u64, string) outcome \<times> 'i) \<Rightarrow> (u64 \<Rightarrow> macro_args \<Rightarrow> macro_args) \<Rightarrow> 'i \<Rightarrow> macro_args
    \<Rightarrow> (unit, string) outcome \<times> 'i \<times> macro_args" where
  "read_arg lit store input args =
     (case lit input of
        (Ok v, input) \<Rightarrow> (Ok (), input, store v args)
      | (Err e, input) \<Rightarrow> (Err e, input, args)
      | (Panic m, input) \<Rightarrow> (Panic m, input, args))"

definition tea_parser :: "('i \<Rightarrow> (u64, string) outcome \<times> 'i) \<Rightarrow> string \<Rightarrow> 'i \<Rightarrow> macro_args
    \<Rightarrow> (unit, string) outcome \<times> 'i \<times> macro_args" where
  "tea_parser lit path input args =
     (if path = ''event_loop_size'' then read_arg lit (\<lambda>v a. a\<lparr>ma_event_loop_size := v\<rparr>) input args
      else if path = ''stack_size'' then read_arg lit (\<lambda>v a. a\<lparr>ma_stack_size := v\<rparr>) input args
      else if path = ''min_size'' then read_arg lit (\<lambda>v a. a\<lparr>ma_min_size := v\<rparr>) input args
      else if path = ''max_size'' then read_arg lit (\<lambda>v a. a\<lparr>ma_max_size := v\<rparr>) input args
      else if path = ''keep_alive_time'' then read_arg lit (\<lambda>v a. a\<lparr>ma_keep_alive_time := v\<rparr>) input args
      else (Ok (), input, args))"

text \<open>An error of the parser is an error of the compiler.\<close>

definition main_args where
  "main_args parser lit is_empty num_cpus tokens =
     (if is_empty tokens then Ok (macro_default num_cpus)
      else case parser (tea_parser lit) tokens (macro_default num_cpus) of
        (Ok _, args) \<Rightarrow> Ok args
      | (Err e, args) \<Rightarrow> Err e
      | (Panic m, args) \<Rightarrow> Panic m)"

text \<open>The configuration of the generated function; \<open>num_cpus'\<close> is the number of processors where it runs.\<close>

definition macro_main where
  "macro_main parser lit is_empty num_cpus num_cpus' tokens =
     (case main_args parser lit is_empty num_cpus tokens of
        Ok a \<Rightarrow> Ok (main_config num_cpus' (ma_event_loop_size a) (ma_stack_size a) (ma_min_size a) (ma_max_size a)
          (ma_keep_alive_time a))
      | Err e \<Rightarrow> Err e
      | Panic m \<Rightarrow> Panic m)"

subsection \<open>Which values are taken\<close>

text \<open>Calling the closure for a list of names, each with its tokens, up to the first error.\<close>

fun run_metas :: "(string \<Rightarrow> 'i \<Rightarrow> 'a \<Rightarrow> (unit, string) outcome \<times> 'i \<times> 'a) \<Rightarrow> (string \<times> 'i) list \<Rightarrow> 'a
    \<Rightarrow> (unit, string) outcome \<times> 'a" where
  "run_metas f [] a = (Ok (), a)"
| "run_metas f ((path, input) # metas) a =
     (case f path input a of (Ok _, _, a) \<Rightarrow> run_metas f metas a | (Err e, _, a) \<Rightarrow> (Err e, a) | (Panic m, _, a) \<Rightarrow> (Panic m, a))"

definition last_value :: "(string \<times> u64) list \<Rightarrow> string \<Rightarrow> u64 \<Rightarrow> u64" where
  "last_value given name d = (case map_of (rev given) name of Some v \<Rightarrow> v | None \<Rightarrow> d)"

lemma last_value_Nil [simp]: "last_value [] name d = d"
  by (simp add: last_value_def)

lemma last_value_Cons: "last_value ((n, v) # given) name d = last_value given name (if name = n then v else d)"
  by (auto simp: last_value_def map_add_def split: option.splits)

lemma run_metas_last:
  assumes "\<forall>(path, input) \<in> set metas. fst (lit input) = Ok (val input)"
  shows "run_metas (tea_parser lit) metas a = (Ok (),
    \<lparr>ma_event_loop_size = last_value (map (map_prod id val) metas) ''event_loop_size'' (ma_event_loop_size a),
     ma_stack_size = last_value (map (map_prod id val) metas) ''stack_size'' (ma_stack_size a),
     ma_min_size = last_value (map (map_prod id val) metas) ''min_size'' (ma_min_size a),
     ma_max_size = last_value (map (map_prod id val) metas) ''max_size'' (ma_max_size a),
     ma_keep_alive_time = last_value (map (map_prod id val) metas) ''keep_alive_time'' (ma_keep_alive_time a)\<rparr>)"
  using assms
proof (induction metas arbitrary: a)
  case (Cons m metas)
  obtain path input where m: "m = (path, input)" by force
  obtain rest where "lit input = (Ok (val input), rest)" using Cons.prems m by (cases "lit input") auto
  with Cons m show ?case by (auto simp: tea_parser_def read_arg_def last_value_Cons)
qed simp

text \<open>
  The generated function checks and uses exactly the last value given for each name, and the defaults for the others;
  names it does not know are ignored.
\<close>

lemma macro_main_exact:
  assumes "\<forall>f a. parser f tokens a = run_metas f metas a" and "is_empty tokens \<longleftrightarrow> metas = []"
    and "\<forall>(path, input) \<in> set metas. fst (lit input) = Ok (val input)"
  defines "given \<equiv> last_value (map (map_prod id val) metas)"
  shows "macro_main parser lit is_empty num_cpus num_cpus' tokens =
    Ok (main_config num_cpus' (given ''event_loop_size'' num_cpus) (given ''stack_size'' (64 * 1024)) (given ''min_size'' 0)
      (given ''max_size'' 65536) (given ''keep_alive_time'' 0))"
proof (cases "metas = []")
  case True
  then show ?thesis using assms(2) by (simp add: macro_main_def main_args_def macro_default_def given_def)
next
  case False
  then show ?thesis
    using assms(1,2) run_metas_last [OF assms(3), of "macro_default num_cpus"]
    by (simp add: macro_main_def main_args_def macro_default_def given_def)
qed

text \<open>So compiled on a machine with one processor, a program that does not name \<open>event_loop_size\<close> panics at its start.\<close>

lemma one_cpu_panics:
  assumes "macro_main parser lit is_empty 1 num_cpus' tokens = Ok config" "is_empty tokens"
  shows "config global = Some (Panic ''event_loop_size must be greater than 1'', global)"
  using assms by (auto simp: macro_main_def main_args_def macro_default_def main_config_exact)

end
