(* ===== verification/NioClaims.thy ===== *)
theory NioClaims
  imports Nio
begin

text \<open>
  What the non-blocking layer guarantees: the blocking mode of a descriptor is restored, every transfer is one
  successful call, sleeping and polling end and last as long as asked.
\<close>

subsection \<open>Transfers\<close>

text \<open>
  One turn of the buffer loop that has not transferred anything yet behaves like one turn of the plain loop: after any
  success \<open>errno\<close> is reset, so the loop is left.
\<close>

lemma transfer_done:
  "wait_or_break wait r added again (reset_errno s) = Some (Ok r, reset_errno s)"
  by (simp add: wait_or_break_def ret_def)

lemma wait_or_break_SomeI:
  assumes "wait_or_break wait r added again s = Some x" and "\<And>b t y. again b t = Some y \<Longrightarrow> again' b t = Some y"
  shows "wait_or_break wait r added again' s = Some x"
  using assms by (cases x) (auto simp: wait_or_break_def attempt_def split: if_splits option.splits outcome.splits)

text \<open>One turn of the plain loop, in which \<open>again\<close> is the rest of the loop. All three loops are left by the first success.\<close>

definition nio_turn where
  "nio_turn wait call again added =
     andThen call (\<lambda>r.
       if r \<noteq> - 1 then andThen (upd reset_errno) (\<lambda>_. ret r) else wait_or_break wait r added again)"

lemma nio_loop_turn: "nio_loop wait call added = nio_turn wait call (nio_loop wait call) added"
  by (rule ext) (simp add: nio_turn_def nio_loop.simps [of wait call added])

lemma nio_turn_SomeI:
  assumes "nio_turn wait call again added s = Some x" and again: "\<And>b t y. again b t = Some y \<Longrightarrow> again' b t = Some y"
  shows "nio_turn wait call again' added s = Some x"
proof (cases "\<exists>t. call s = Some (Ok (- 1), t)")
  case True
  then obtain t where "call s = Some (Ok (- 1), t)" ..
  with assms(1) show ?thesis
    by (simp add: nio_turn_def prog wait_or_break_SomeI [OF _ again])
next
  case False
  then have "nio_turn wait call again' added s = nio_turn wait call again added s"
    by (auto simp: nio_turn_def andThen_def split: option.splits outcome.splits)
  with assms(1) show ?thesis by simp
qed

text \<open>What the buffer and vector loops do after a call, before anything has been transferred.\<close>

lemma transfer_turn:
  fixes r len :: "64 word"
  shows "andThen (if r \<noteq> - 1 then upd reset_errno else ret ()) (\<lambda>_.
      let done = (if r \<noteq> - 1 then 0 + r else 0) in
      if r \<noteq> - 1 \<and> (len \<le> done \<or> condition \<and> r = 0) then ret done
      else wait_or_break wait r added (again done r)) =
   (if r \<noteq> - 1 then andThen (upd reset_errno) (\<lambda>_. ret r) else wait_or_break wait r added (again 0 (- 1)))"
  by (rule ext) (auto simp: Let_def transfer_done ret_def)

lemma nio_buf_turn:
  fixes buffer len :: "64 word"
  assumes "0 < len"
  shows "(if 0 < len then
        andThen (call (buffer + 0) (len - 0)) (\<lambda>r.
        andThen (if r \<noteq> - 1 then upd reset_errno else ret ()) (\<lambda>_.
          let done = (if r \<noteq> - 1 then 0 + r else 0) in
          if r \<noteq> - 1 \<and> (len \<le> done \<or> condition \<and> r = 0) then ret done
          else wait_or_break wait r added (\<lambda>added. again added done r))) s
      else ret r0 s) =
    nio_turn wait (call buffer len) (\<lambda>added. again added 0 (- 1)) added s"
  using assms by (simp only: transfer_turn [where again = "\<lambda>d r b. again b d r"] nio_turn_def) simp

lemma nio_buf_of_nio:
  assumes "nio_loop wait call added s = Some x" and "0 < len"
  shows "\<forall>buf_call r. call = buf_call buffer len \<longrightarrow>
    nio_buf_loop wait buf_call condition buffer len added 0 r s = Some x"
proof (rule nio_loop.raw_induct [OF _ assms(1), where P = "\<lambda>w c b t y. \<forall>buf_call r. c = buf_call buffer len \<longrightarrow>
    nio_buf_loop w buf_call condition buffer len b 0 r t = Some y"], intro allI impI, goal_cases)
  case (1 loop w c b t y buf_call r)
  from 1(2) have "nio_turn w (buf_call buffer len) (loop w c) b t = Some y"
    by (simp only: nio_turn_def 1(3))
  then have "nio_turn w (buf_call buffer len) (\<lambda>b. nio_buf_loop w buf_call condition buffer len b 0 (- 1)) b t = Some y"
    by (rule nio_turn_SomeI) (use 1(1,3) in blast)
  then show ?case
    by (subst nio_buf_loop.simps) (subst nio_buf_turn [OF assms(2)])
qed

lemma nio_of_nio_buf:
  assumes "nio_buf_loop wait call condition buffer len added done r s = Some x"
  shows "0 < len \<longrightarrow> done = 0 \<longrightarrow> nio_loop wait (call buffer len) added s = Some x"
proof (rule nio_buf_loop.raw_induct [OF _ assms, where P = "\<lambda>w c cd bf ln b d r t y. 0 < ln \<longrightarrow> d = 0 \<longrightarrow>
    nio_loop w (c bf ln) b t = Some y"], intro impI, goal_cases)
  case (1 loop w c cd bf ln b d r t y)
  from 1(2) have "nio_turn w (c bf ln) (\<lambda>b. loop w c cd bf ln b 0 (- 1)) b t = Some y"
    unfolding 1(4) by (subst (asm) nio_buf_turn [OF 1(3)])
  then have "nio_turn w (c bf ln) (nio_loop w (c bf ln)) b t = Some y"
    by (rule nio_turn_SomeI) (use 1(1,3) in blast)
  then show ?case by (subst nio_loop_turn)
qed

lemma option_eqI: "(\<And>y. x = Some y \<Longrightarrow> x' = Some y) \<Longrightarrow> (\<And>y. x' = Some y \<Longrightarrow> x = Some y) \<Longrightarrow> x = x'"
  by (cases x; cases x') auto

lemma nio_buf_loop_eq:
  assumes "0 < len"
  shows "nio_buf_loop wait call condition buffer len added 0 r = nio_loop wait (call buffer len) added"
proof (rule ext, rule option_eqI)
  fix s y
  show "nio_loop wait (call buffer len) added s = Some y"
    if "nio_buf_loop wait call condition buffer len added 0 r s = Some y"
    using nio_of_nio_buf [OF that] assms by simp
  show "nio_buf_loop wait call condition buffer len added 0 r s = Some y"
    if "nio_loop wait (call buffer len) added s = Some y"
    using nio_buf_of_nio [OF that assms] by simp
qed

text \<open>
  The vector loop: the elements before the first non-empty one are dropped in the first turn. Nothing is transferred
  until the turn that leaves the loop, so the offset is always 0 and the array is written with what it holds.
\<close>

lemma shift_iovec_0 [simp]: "shift_iovec p 0 s = s"
proof -
  have "\<lparr>iov_base = iov_base v + 0, iov_len = iov_len v - 0\<rparr> = v" for v :: iovec by (cases v) simp
  then have "shift_iovec p 0 s = s\<lparr>mem_iovec := mem_iovec s\<rparr>"
    by (simp only: shift_iovec_def Let_def fun_upd_triv)
  then show ?thesis by simp
qed

lemma find_from_Suc: "find_from done (Suc i) vs = (if \<exists>v \<in> set vs. done < v then Suc (find_from done i vs) else 0)"
  by (induction vs arbitrary: i) auto

lemma find_from_found: "\<exists>v \<in> set vs. done < v \<Longrightarrow> done < vs ! find_from done 0 vs \<and> find_from done 0 vs < length vs"
  by (induction vs) (auto simp: find_from_Suc)

lemma find_from_absent: "\<not> (\<exists>v \<in> set vs. done < v) \<Longrightarrow> find_from done i vs = 0"
  by (induction vs arbitrary: i) auto

lemma find_from_again: "find_from done 0 (drop (find_from done 0 vs) vs) = 0"
proof (cases "\<exists>v \<in> set vs. done < v")
  case True
  then have "drop (find_from done 0 vs) vs = vs ! find_from done 0 vs # drop (Suc (find_from done 0 vs)) vs"
    "done < vs ! find_from done 0 vs"
    using find_from_found [OF True] by (simp_all add: Cons_nth_drop_Suc)
  then show ?thesis by simp
next
  case False
  then show ?thesis by (simp add: find_from_absent)
qed

lemma nio_iovec_turn:
  fixes len :: size_t
  assumes "0 < len" and "k = find_from 0 0 pices" and "drop k pices \<noteq> []"
  shows "(if 0 < len then
        let from_index = find_from 0 0 pices;
            current_offset = (if from_index > 0 then saturating_sub 0 (pices ! (from_index - 1)) else 0);
            skipped = skipped + from_index;
            pices = drop from_index pices
        in if pices = [] then panic ''Out of bounds access'' s
           else
             andThen (upd (shift_iovec (iovec_at iov skipped) current_offset)) (\<lambda>_.
             andThen (call (iovec_at iov skipped) (length pices)) (\<lambda>r.
             andThen (if r \<noteq> - 1 then upd reset_errno else ret ()) (\<lambda>_.
               let done = (if r \<noteq> - 1 then 0 + r else 0) in
               if r \<noteq> - 1 \<and> (len \<le> done \<or> condition \<and> r = 0) then ret done
               else wait_or_break wait r added (\<lambda>added. again skipped pices added done r)))) s
      else ret r0 s) =
    nio_turn wait (call (iovec_at iov (skipped + k)) (length pices - k))
      (\<lambda>added. again (skipped + k) (drop k pices) added 0 (- 1)) added s"
proof -
  have "(if 0 < find_from 0 0 pices then saturating_sub 0 (pices ! (find_from 0 0 pices - 1)) else 0) = 0"
    by simp
  with assms show ?thesis
    by (simp only: transfer_turn [where again = "\<lambda>d r b. again (skipped + find_from 0 0 pices)
          (drop (find_from 0 0 pices) pices) b d r", unfolded Let_def] nio_turn_def
        Let_def if_True if_False simp_thms andThen_upd shift_iovec_0 length_drop)
qed

lemma nio_iovec_of_nio:
  assumes "nio_loop wait call added s = Some x" and "0 < len" "find_from 0 0 pices = 0" "pices \<noteq> []"
  shows "\<forall>vec_call r. call = vec_call (iovec_at iov skipped) (length pices) \<longrightarrow>
    nio_iovec_loop wait vec_call condition iov len skipped pices added 0 r s = Some x"
proof (rule nio_loop.raw_induct [OF _ assms(1), where P = "\<lambda>w c b t y. \<forall>vec_call r.
    c = vec_call (iovec_at iov skipped) (length pices) \<longrightarrow>
    nio_iovec_loop w vec_call condition iov len skipped pices b 0 r t = Some y"], intro allI impI, goal_cases)
  case (1 loop w c b t y vec_call r)
  from 1(2) have "nio_turn w (vec_call (iovec_at iov skipped) (length pices)) (loop w c) b t = Some y"
    by (simp only: nio_turn_def 1(3))
  then have "nio_turn w (vec_call (iovec_at iov skipped) (length pices))
      (\<lambda>b. nio_iovec_loop w vec_call condition iov len skipped pices b 0 (- 1)) b t = Some y"
    by (rule nio_turn_SomeI) (use 1(1,3) in blast)
  then show ?case
    using assms by (subst nio_iovec_loop.simps) (subst nio_iovec_turn [where k = 0], simp_all)
qed

lemma nio_of_nio_iovec:
  assumes "nio_iovec_loop wait call condition iov len skipped pices added done r s = Some x"
  shows "0 < len \<longrightarrow> find_from 0 0 pices = 0 \<longrightarrow> pices \<noteq> [] \<longrightarrow> done = 0 \<longrightarrow>
    nio_loop wait (call (iovec_at iov skipped) (length pices)) added s = Some x"
proof (rule nio_iovec_loop.raw_induct [OF _ assms, where P = "\<lambda>w c cd iov ln sk ps b d r t y.
    0 < ln \<longrightarrow> find_from 0 0 ps = 0 \<longrightarrow> ps \<noteq> [] \<longrightarrow> d = 0 \<longrightarrow>
    nio_loop w (c (iovec_at iov sk) (length ps)) b t = Some y"], intro impI, goal_cases)
  case (1 loop w c cd iov ln sk ps b d r t y)
  from 1(2) have "nio_turn w (c (iovec_at iov sk) (length ps)) (\<lambda>b. loop w c cd iov ln sk ps b 0 (- 1)) b t = Some y"
    unfolding 1(6) using 1(3-5) by (subst (asm) nio_iovec_turn [where k = 0]) simp_all
  then have "nio_turn w (c (iovec_at iov sk) (length ps)) (nio_loop w (c (iovec_at iov sk) (length ps))) b t = Some y"
    by (rule nio_turn_SomeI) (use 1(1,3-5) in blast)
  then show ?case by (subst nio_loop_turn)
qed

lemma nio_iovec_loop_eq:
  assumes "0 < len" "find_from 0 0 pices = 0" "pices \<noteq> []"
  shows "nio_iovec_loop wait call condition iov len skipped pices added 0 r =
    nio_loop wait (call (iovec_at iov skipped) (length pices)) added"
proof (rule ext, rule option_eqI)
  fix s y
  show "nio_loop wait (call (iovec_at iov skipped) (length pices)) added s = Some y"
    if "nio_iovec_loop wait call condition iov len skipped pices added 0 r s = Some y"
    using nio_of_nio_iovec [OF that] assms by simp
  show "nio_iovec_loop wait call condition iov len skipped pices added 0 r s = Some y"
    if "nio_loop wait (call (iovec_at iov skipped) (length pices)) added s = Some y"
    using nio_iovec_of_nio [OF that assms] by simp
qed

lemma nio_iovec_loop_start:
  assumes "0 < len" and "k = find_from 0 0 pices" and "drop k pices \<noteq> []"
  shows "nio_iovec_loop wait call condition iov len 0 pices added 0 r =
    nio_loop wait (call (iovec_at iov k) (length pices - k)) added"
proof
  fix s
  have "nio_iovec_loop wait call condition iov len 0 pices added 0 r s =
      nio_iovec_loop wait call condition iov len k (drop k pices) added 0 r s"
    using assms find_from_again [of 0 pices]
    by (subst nio_iovec_loop.simps, subst nio_iovec_turn [OF assms(1-3)],
        subst nio_iovec_loop.simps, subst nio_iovec_turn [where k = 0]) simp_all
  then show "nio_iovec_loop wait call condition iov len 0 pices added 0 r s =
      nio_loop wait (call (iovec_at iov k) (length pices - k)) added s"
    using assms find_from_again [of 0 pices] by (simp add: nio_iovec_loop_eq)
qed

text \<open>The running sums of the lengths.\<close>

lemma length_running_sums [simp]: "length (running_sums a vs) = length vs"
  by (induction vs arbitrary: a) auto

lemma running_sums_eq_Nil [simp]: "running_sums a vs = [] \<longleftrightarrow> vs = []"
  by (cases vs) auto

lemma running_sums_positive: "\<exists>v \<in> set vs. iov_len v \<noteq> 0 \<Longrightarrow> \<exists>x \<in> set (running_sums 0 vs). 0 < x"
  by (induction vs) (auto simp: word_gt_0)

lemma find_from_running_sums:
  "\<exists>v \<in> set vs. iov_len v \<noteq> 0 \<Longrightarrow>
    find_from 0 0 (running_sums 0 vs) = length (takeWhile (\<lambda>v. iov_len v = 0) vs)"
proof (induction vs)
  case (Cons v vs)
  then show ?case
    using running_sums_positive [of vs] by (cases "iov_len v = 0") (auto simp: find_from_Suc word_gt_0)
qed simp

lemma unat_last_running_sums:
  assumes "vs \<noteq> []" and "unat a + (\<Sum>v\<leftarrow>vs. unat (iov_len v)) < 2 ^ 64"
  shows "unat (last (running_sums a vs)) = unat a + (\<Sum>v\<leftarrow>vs. unat (iov_len v))"
  using assms
proof (induction vs arbitrary: a)
  case (Cons v vs)
  then have "unat (a + iov_len v) = unat a + unat (iov_len v)"
    by (simp add: unat_word_ariths)
  with Cons show ?case by (cases "vs = []") (auto simp: add.assoc)
qed simp

lemma sum_list_pos_ex: "0 < (\<Sum>v\<leftarrow>vs. unat (iov_len v)) \<Longrightarrow> \<exists>v \<in> set vs. iov_len v \<noteq> 0"
  by (induction vs) auto

lemma nio_buf_loop_0: "nio_buf_loop wait call condition buffer 0 added 0 r = ret r"
  by (rule ext) (simp add: nio_buf_loop.simps)

text \<open>
  C23: A transfer with a buffer is one successful call. Once the buffer is not empty, the loop over its rest behaves in every
  state like the plain loop around one call with the whole buffer: the first call that succeeds ends it, however
  little it transferred, because \<open>errno\<close> has just been reset. An empty buffer makes no call and gives 0.
\<close>

theorem buffer_transfer_is_one_call:
  "impl_nio_buf C wait condition socket call buffer len =
     (if len = 0 then impl_non_blocking C socket (ret (Inr 0))
      else impl_nio C wait socket (call buffer len))"
  by (simp add: impl_nio_buf_def impl_nio_def nio_buf_loop_0 nio_buf_loop_eq word_gt_0)

text \<open>
  C22: A transfer with a vector of buffers is one successful call with the elements from the first non-empty one on, and
  afterwards the caller's own array is given back to the allocator.
\<close>

theorem vector_transfer_is_one_call:
  assumes "0 < (\<Sum>v\<leftarrow>iovecs iov n s. unat (iov_len v))" and "(\<Sum>v\<leftarrow>iovecs iov n s. unat (iov_len v)) < 2 ^ 64"
    and "k = length (takeWhile (\<lambda>v. iov_len v = 0) (iovecs iov n s))"
  shows "nio_iovec_block wait condition socket call iov n s =
    andThen (nio_loop (\<lambda>added. wait socket added (Some (10 * ms))) (call (iovec_at iov k) (n - k)) False)
      (\<lambda>r. andThen (upd (\<lambda>s. s\<lparr>freed := iov # freed s\<rparr>)) (\<lambda>_. ret (Inr r))) s"
proof -
  let ?vs = "iovecs iov n s" and ?ps = "running_sums 0 (iovecs iov n s)"
  have ex: "\<exists>v \<in> set ?vs. iov_len v \<noteq> 0" using sum_list_pos_ex assms(1) by blast
  then have ne: "?vs \<noteq> []" by auto
  then have n: "length ?vs = n" "n \<noteq> 0" "?ps \<noteq> []"
    by (auto simp: iovecs_def)
  have k: "k = find_from 0 0 ?ps" using find_from_running_sums [OF ex] assms(3) by simp
  have "k < length ?ps" using find_from_found [OF running_sums_positive [OF ex]] by (simp add: k)
  then have drop: "drop k ?ps \<noteq> []" by simp
  have "0 < unat (last ?ps)" using unat_last_running_sums [OF ne, of 0] assms(1,2) by (simp only: unat_0 add_0)
  then have "0 < last ?ps" by (simp add: unat_gt_0 word_gt_0)
  from nio_iovec_loop_start [OF this k drop, of "\<lambda>added. wait socket added (Some (10 * ms))"] n show ?thesis
    by (simp add: nio_iovec_block_def drop_vec_def [abs_def] Let_def)
qed

subsection \<open>Sleeping\<close>

text \<open>Waiting on the event loops comes back, and the clock is only read.\<close>

definition waits_return :: "('e, 'w env_scheme) event_ops \<Rightarrow> bool" where
  "waits_return W \<longleftrightarrow> (\<forall>d s. \<exists>r s'. ev_wait W d s = Some (r, s') \<and> (\<forall>m. r \<noteq> Panic m) \<and>
     clk s' = clk s \<and> reads s \<le> reads s')"

lemma attempt_ignored:
  assumes "p s = Some (r, s')" "\<And>m. r \<noteq> Panic m"
  shows "attempt p (\<lambda>_. k) s = k s'"
  using assms by (cases r) (auto simp: attempt_def)

lemma sleep_until_returns:
  assumes "waits_return W" and "mono (clk s)" and "unat timeout \<le> clk s K"
  shows "\<exists>s' k. sleep_until W timeout s = Some (Ok (), s') \<and> clk s' = clk s \<and>
    reads s \<le> k \<and> k < reads s' \<and> unat timeout \<le> clk s k"
  using assms(2,3)
proof (induction "K - reads s" arbitrary: s rule: less_induct)
  case less
  let ?s = "snd (now s)"
  have le: "timeout \<le> fst (now s) \<longleftrightarrow> unat timeout \<le> clk s (reads s)"
    using unsigned_less [of timeout, where ?'a = nat] by (simp add: word_le_nat_alt unat_now)
  show ?case
  proof (cases "unat timeout \<le> clk s (reads s)")
    case True
    with le have "sleep_until W timeout s = Some (Ok (), ?s)" by (simp add: sleep_until.simps ret_def)
    with True show ?thesis by auto
  next
    case False
    let ?d = "unat (saturating_sub timeout (fst (now s)))"
    from assms(1) obtain r t where t: "ev_wait W (Some ?d) ?s = Some (r, t)" "\<And>m. r \<noteq> Panic m"
      "clk t = clk ?s" "reads ?s \<le> reads t"
      unfolding waits_return_def by metis
    have "reads s < K"
      using False less.prems monoD [OF less.prems(1), of K "reads s"] by (meson le_trans not_le_imp_less)
    with t have "K - reads t < K - reads s" "mono (clk t)" "unat timeout \<le> clk t K"
      using less.prems by auto
    from less.hyps [OF this] obtain s' k where IH: "sleep_until W timeout t = Some (Ok (), s')"
      "clk s' = clk t" "reads t \<le> k" "k < reads s'" "unat timeout \<le> clk t k" by blast
    have "sleep_until W timeout s = sleep_until W timeout t"
      using False le by (subst sleep_until.simps) (simp add: attempt_ignored [of "ev_wait W (Some ?d)", OF t(1,2)] Let_def)
    moreover have "reads s \<le> k" using t(4) IH(3) by simp
    ultimately show ?thesis using IH t(3) by auto
  qed
qed

lemma nio_sleep_unfold:
  "nio_sleep W f secs s =
     andThen (sleep_until W (fst (get_timeout_time (unat secs * 1000000000) s)))
       (\<lambda>_. andThen (upd reset_errno) (\<lambda>_. ret 0)) (snd (get_timeout_time (unat secs * 1000000000) s))"
  by (simp add: nio_sleep_def)

text \<open>
  C24: \<open>sleep\<close> returns 0 with \<open>errno\<close> reset, as soon as time goes on and the waits of the event loops come back; and it does
  not return before its deadline: at its last reading, the clock was at least the given number of seconds past the
  first reading (up to the limit of 64 bits).
\<close>

theorem sleep_returns_after_deadline:
  assumes "waits_return W" and "mono (clk s)" and "\<forall>t. \<exists>K. t \<le> clk s K"
  shows "\<exists>s' k. nio_sleep W f secs s = Some (Ok 0, s') \<and> errno s' = 0 \<and> reads s < k \<and> k < reads s' \<and>
    min (unat (fst (now s)) + unat secs * 1000000000) (2 ^ 64 - 1) \<le> clk s k"
proof -
  let ?g = "get_timeout_time (unat secs * 1000000000) s"
  have "unat secs < 2 ^ 32" using unsigned_less [of secs, where ?'a = nat] by simp
  then have d: "unat secs * 1000000000 < 2 ^ 64" by simp
  then have g: "unat (fst ?g) = min (unat (fst (now s)) + unat secs * 1000000000) (2 ^ 64 - 1)"
    unfolding unat_get_timeout_time if_P [OF d] by (simp only: add.commute)
  have g2: "snd ?g = snd (now s)"
    using d by (simp add: get_timeout_time_def u64_try_from_def case_prod_beta)
  obtain K where "unat (fst ?g) \<le> clk s K" using assms(3) by blast
  then obtain s' k where run: "sleep_until W (fst ?g) (snd ?g) = Some (Ok (), s')" "reads (snd ?g) \<le> k" "k < reads s'"
    "unat (fst ?g) \<le> clk s k"
    using sleep_until_returns [OF assms(1), of "snd ?g" "fst ?g" K] assms(2) g2 by auto
  have "nio_sleep W f secs s = Some (Ok 0, reset_errno s')"
    unfolding nio_sleep_unfold by (simp add: andThen_def [of "sleep_until W t" for t] run(1) ret_def)
  with run(2-4) show ?thesis unfolding g g2 by (intro exI [of _ "reset_errno s'"] exI [of _ k]) auto
qed

subsection \<open>Polling\<close>

text \<open>\<open>waited\<close> is the time the waits asked for so far were to last.\<close>

definition records_waits :: "('e, 's) event_ops \<Rightarrow> ('s \<Rightarrow> nat) \<Rightarrow> bool" where
  "records_waits W waited \<longleftrightarrow> (\<forall>d s. \<exists>r s'. ev_wait W (Some d) s = Some (r, s') \<and> (\<forall>m. r \<noteq> Panic m) \<and>
     waited s' = waited s + d)"

text \<open>A call that reports nothing and does not wait.\<close>

definition finds_nothing :: "(c_int, unit, 's) prog \<Rightarrow> ('s \<Rightarrow> nat) \<Rightarrow> bool" where
  "finds_nothing call waited \<longleftrightarrow> (\<forall>s. \<exists>s'. call s = Some (Ok 0, s') \<and> waited s' = waited s)"

lemma sint_small:
  assumes "unat (a :: c_int) < 2 ^ 31"
  shows "sint a = uint a"
proof -
  have "int (unat a) < int (2 ^ 31)" using assms by (simp only: of_nat_less_iff)
  then have "uint a < 2 ^ 31" by simp
  moreover have "- (2 ^ 31) \<le> uint a" by (rule order_trans [OF _ uint_ge_0]) simp
  ultimately have "signed_take_bit 31 (uint a) = uint a" by (simp only: signed_take_bit_int_eq_self)
  then show ?thesis by (simp add: sint_uint)
qed

lemma sless_small:
  assumes "unat (a :: c_int) < 2 ^ 31" "unat b < 2 ^ 31"
  shows "a <s b \<longleftrightarrow> a < b" "a \<le>s b \<longleftrightarrow> a \<le> b"
  using assms by (simp_all only: word_sless_alt word_sle_eq sint_small word_less_def word_le_def)

text \<open>The step by which the pause grows: 1, 2, 4, 8, 16 and then 16 for good.\<close>

lemma unat_double:
  assumes "unat (x :: 32 word) < 2 ^ 30" "x \<noteq> 0"
  shows "unat (if x < 16 then push_bit 1 x else x) < 2 ^ 30 \<and> (if x < 16 then push_bit 1 x else x) \<noteq> 0"
proof (cases "x < 16")
  case True
  then have "unat x < 16" by (simp add: word_less_nat_alt)
  then have "unat (push_bit 1 x) = 2 * unat x"
    by (simp add: push_bit_eq_mult unat_word_ariths)
  with \<open>unat x < 16\<close> True assms(2) show ?thesis by (auto simp: unat_eq_zero simp flip: unat_gt_0)
qed (use assms in simp)

lemma pause_split:
  fixes t x :: "32 word"
  assumes "t \<noteq> 0" "x \<noteq> 0"
  shows "unat (min t x) + unat (if x < t then t - x else 0) = unat t" "unat (if x < t then t - x else 0) < unat t"
proof -
  show "unat (min t x) + unat (if x < t then t - x else 0) = unat t"
    by (auto simp: min_def word_less_nat_alt word_le_nat_alt unat_sub)
  moreover have "0 < unat (min t x)" using assms by (simp add: min_def unat_gt_0)
  ultimately show "unat (if x < t then t - x else 0) < unat t" by linarith
qed

lemma poll_loop_waits:
  assumes "records_waits W waited" "finds_nothing call waited"
    and "unat t < 2 ^ 31" "t \<noteq> c_int_MAX" "unat x < 2 ^ 30" "x \<noteq> 0"
  shows "\<exists>s'. poll_loop W call t x s = Some (Ok 0, s') \<and> waited s' = waited s + unat t * ms"
  using assms(3-6)
proof (induction "unat t" arbitrary: t x s rule: less_induct)
  case less
  obtain s1 where s1: "call s = Some (Ok 0, s1)" "waited s1 = waited s"
    using assms(2) unfolding finds_nothing_def by blast
  show ?case
  proof (cases "t = 0")
    case True
    with s1 show ?thesis by (intro exI [of _ s1]) (simp add: poll_loop.simps andThen_def ret_def)
  next
    case False
    let ?m = "if t \<le>s x then t else x" and ?t = "if x <s t then t - x else 0" and ?x = "if x <s 16 then push_bit 1 x else x"
    have small: "unat x < 2 ^ 31" "unat (16 :: c_int) < 2 ^ 31" using less.prems(3) by simp_all
    then have x: "?x = (if x < 16 then push_bit 1 x else x)" by (simp only: sless_small)
    have m: "?m = min t x" "?t = (if x < t then t - x else 0)"
      using sless_small [OF less.prems(1) small(1)] sless_small [OF small(1) less.prems(1)] by (simp_all add: min_def)
    have mt: "unat (min t x) + unat ?t = unat t" and lt: "unat ?t < unat t"
      unfolding m(2) by (fact pause_split [OF False less.prems(4)])+
    have "unat (min t x) < 2 ^ 31" using less.prems(1) small(1) by (simp add: min_def)
    then have nat_m: "nat (sint ?m) = unat (min t x)" unfolding m(1) by (simp add: sint_small)
    from assms(1) obtain r s2 where s2: "ev_wait W (Some (unat (min t x) * ms)) s1 = Some (r, s2)" "\<And>m. r \<noteq> Panic m"
      "waited s2 = waited s1 + unat (min t x) * ms"
      unfolding records_waits_def by metis
    have "poll_loop W call t x s = poll_loop W call ?t ?x s2"
      using False less.prems(2)
      by (subst poll_loop.simps)
        (simp add: andThen_def [of call] s1(1) nat_m attempt_ignored [of "ev_wait W d" for d, OF s2(1,2)])
    moreover have "unat c_int_MAX = 2 ^ 31 - 1" by (simp add: c_int_MAX_def)
    then have "?t \<noteq> c_int_MAX" using lt less.prems(1) by auto
    then obtain s' where "poll_loop W call ?t ?x s2 = Some (Ok 0, s')" "waited s' = waited s2 + unat ?t * ms"
      using less.hyps [OF lt less_trans [OF lt less.prems(1)], of ?x s2] unat_double [OF less.prems(3,4)]
      unfolding x by blast
    moreover have "waited s2 + unat ?t * ms = waited s + unat t * ms"
      unfolding s2(3) s1(2) mt [symmetric] by (simp only: add_mult_distrib add.assoc)
    ultimately show ?thesis by (intro exI [of _ s']) (simp only: simp_thms)
  qed
qed

lemma select_loop_waits:
  assumes "records_waits W waited" "finds_nothing call waited" "\<And>s. waited (restore s) = waited s"
    and "t \<noteq> c_uint_MAX" "unat x < 2 ^ 30" "x \<noteq> 0"
  shows "\<exists>s'. select_loop W call restore t x s = Some (Ok 0, s') \<and> waited s' = waited s + unat t * ms"
  using assms(4-6)
proof (induction "unat t" arbitrary: t x s rule: less_induct)
  case less
  obtain s1 where s1: "call s = Some (Ok 0, s1)" "waited s1 = waited s"
    using assms(2) unfolding finds_nothing_def by blast
  show ?case
  proof (cases "t = 0")
    case True
    with s1 show ?thesis by (intro exI [of _ s1]) (simp add: select_loop.simps andThen_def ret_def)
  next
    case False
    let ?t = "if x < t then t - x else 0" and ?x = "if x < 16 then push_bit 1 x else x"
    from assms(1) obtain r s2 where s2: "ev_wait W (Some (unat (min t x) * ms)) s1 = Some (r, s2)" "\<And>m. r \<noteq> Panic m"
      "waited s2 = waited s1 + unat (min t x) * ms"
      unfolding records_waits_def by metis
    have eq: "select_loop W call restore t x s = select_loop W call restore ?t ?x (restore s2)"
      using False less.prems(1)
      by (subst select_loop.simps)
        (simp add: andThen_def [of call] s1(1) attempt_ignored [of "ev_wait W d" for d, OF s2(1,2)])
    have "?t \<noteq> c_uint_MAX"
      using pause_split(2) [OF False less.prems(3)] unsigned_less [of t, where ?'a = nat]
      by (auto simp: c_uint_MAX_def unat_max_word dest: arg_cong [of _ _ unat])
    then obtain s' where s': "select_loop W call restore ?t ?x (restore s2) = Some (Ok 0, s')"
      "waited s' = waited (restore s2) + unat ?t * ms"
      using less.hyps [OF pause_split(2) [OF False less.prems(3)], of ?x "restore s2"] unat_double [OF less.prems(2,3)]
      by blast
    have "waited s2 + unat ?t * ms = waited s + unat t * ms"
      unfolding s2(3) s1(2) pause_split(1) [OF False less.prems(3), symmetric]
      by (simp only: add_mult_distrib add.assoc)
    with eq s' assms(3) show ?thesis by (intro exI [of _ s']) (simp only: simp_thms)
  qed
qed


text \<open>
  \<open>select\<close> with nothing to report and a timeout given returns 0 after asking to wait for as many \<^emph>\<open>milliseconds\<close> as its
  timeout has \<^emph>\<open>microseconds\<close> (reduced to 32 bits): a thousand times as long as asked.
\<close>

theorem select_waits_thousandfold:
  assumes "records_waits W waited"
    and "finds_nothing (raw_select C fn_ptr nfds readfds writefds errorfds frame) waited"
    and "\<And>s m. waited (s\<lparr>mem_fd_set := m\<rparr>) = waited s" "\<And>s m. waited (s\<lparr>mem_timeval := m\<rparr>) = waited s"
    and "timeout \<noteq> 0" and "tv = mem_timeval s timeout"
    and "us = unat (tv_sec tv) * 1000000 + unat (tv_usec tv)" and "us < 2 ^ 32 - 1"
  shows "\<exists>s'. nio_select frame C W fn_ptr nfds readfds writefds errorfds timeout s = Some (Ok 0, s') \<and>
    waited s' = waited s + us * 1000000"
proof -
  let ?t = "select_timeout timeout s"
  have t: "?t = of_nat us"
    using assms(5,6) by (simp add: select_timeout_def assms(7))
  then have us: "unat ?t = us" using assms(8) by (simp add: unat_of_nat)
  then have max: "?t \<noteq> c_uint_MAX" using assms(8) by (auto simp: c_uint_MAX_def unat_max_word dest: arg_cong [of _ _ unat])
  let ?restore = "\<lambda>s'. zero_timeval frame (restore_set errorfds (saved_set errorfds (zero_timeval frame s))
    (restore_set writefds (saved_set writefds (zero_timeval frame s))
      (restore_set readfds (saved_set readfds (zero_timeval frame s)) s')))"
  have restore: "waited (?restore s') = waited s'" for s'
    by (simp add: zero_timeval_def restore_set_def assms(3,4))
  have "\<exists>s'. select_loop W (raw_select C fn_ptr nfds readfds writefds errorfds frame) ?restore ?t 1 (zero_timeval frame s) =
      Some (Ok 0, s') \<and> waited s' = waited (zero_timeval frame s) + unat ?t * ms"
    by (rule select_loop_waits [where restore = ?restore, OF assms(1,2) restore max]) simp_all
  moreover have "waited (zero_timeval frame s) = waited s" by (simp add: zero_timeval_def assms(4))
  ultimately show ?thesis by (simp add: nio_select_def us ms_def)
qed

end
