(* ===== verification/SyscallChain.thy ===== *)
theory SyscallChain
  imports Nio
begin

text \<open>
  The outer layers of a system call: the layer that records the call in the state of the coroutine
  (\<^verbatim>\<open>open-coroutine-core/src/syscall/state.rs\<close>), the public functions that enter the chain of the layers
  (\<^verbatim>\<open>facade.rs\<close>) and the functions that take the place of the C library's (\<^verbatim>\<open>open-coroutine-hooks/src/unix\<close>). The
  chain is \<^verbatim>\<open>StateLinuxSyscall<NioLinuxSyscall<RawLinuxSyscall>>\<close>: a function of one layer calls the function of the
  same name of the next. The parameters a call does not need (\<open>C\<close> the C library, \<open>W\<close> the event loops, \<open>frame\<close> the address
  of a local variable) are left out. A hooked function is given \<open>next\<close>, the function of the C library it hides.
\<close>

subsection \<open>The state of the coroutine\<close>

text \<open>The macro \<^verbatim>\<open>change_state\<close>: what happens before the call and after it.\<close>

definition on_current :: "string \<Rightarrow> ('co \<Rightarrow> (unit, 'ce) outcome \<times> 'co) \<Rightarrow> (unit, 'e, ('co, 'z) io_scheme) prog" where
  "on_current m f s =
     (case cur s of
        None \<Rightarrow> Some (Ok (), s)
      | Some co \<Rightarrow>
          (case f co of
             (Ok _, co) \<Rightarrow> Some (Ok (), s\<lparr>cur := Some co\<rparr>)
           | (Err _, co) \<Rightarrow> Some (Panic m, s\<lparr>cur := Some co\<rparr>)
           | (Panic m', co) \<Rightarrow> Some (Panic m', s\<lparr>cur := Some co\<rparr>)))"

definition begin_call :: "syscall \<Rightarrow> (unit, unit, (('k, unit, 'r, 'l) coroutine, 'z) io_scheme) prog" where
  "begin_call sc =
     andThen (upd (syscall_init_current sc)) (\<lambda>_.
     on_current ''change to syscall state failed !'' (co_syscall () sc Sys_Computing))"

definition end_call :: "syscall \<Rightarrow> (unit, unit, (('k, unit, 'r, 'l) coroutine, 'z) io_scheme) prog" where
  "end_call sc =
     andThen (on_current ''change to syscall Finished state failed !'' (co_syscall () sc Sys_Finished)) (\<lambda>_.
     andThen (on_current ''change to running state failed !'' co_syscall_resume) (\<lambda>_.
     upd syscall_clean_current))"

definition change_state where
  "change_state sc call =
     andThen (begin_call sc) (\<lambda>_. andThen call (\<lambda>r. andThen (end_call sc) (\<lambda>_. ret r)))"


definition state_sleep where
  "state_sleep W fn_ptr secs = change_state Sys_sleep (nio_sleep W fn_ptr secs)"

definition state_usleep where
  "state_usleep W fn_ptr microseconds = change_state Sys_usleep (nio_usleep W fn_ptr microseconds)"

definition state_nanosleep where
  "state_nanosleep W fn_ptr rqtp rmtp = change_state Sys_nanosleep (nio_nanosleep W fn_ptr rqtp rmtp)"

definition state_poll where
  "state_poll C W fn_ptr fds nfds timeout = change_state Sys_poll (nio_poll C W fn_ptr fds nfds timeout)"

definition state_select where
  "state_select frame C W fn_ptr nfds readfds writefds errorfds timeout = change_state Sys_select (nio_select frame C W fn_ptr nfds readfds writefds errorfds timeout)"

definition state_socket where
  "state_socket C fn_ptr domain ty protocol = change_state Sys_socket (nio_socket C fn_ptr domain ty protocol)"

definition state_listen where
  "state_listen C fn_ptr socket backlog = change_state Sys_listen (nio_listen C fn_ptr socket backlog)"

definition state_accept where
  "state_accept C W fn_ptr socket address address_len = change_state Sys_accept (nio_accept C W fn_ptr socket address address_len)"

definition state_connect where
  "state_connect C W fn_ptr socket address len = change_state Sys_connect (nio_connect C W fn_ptr socket address len)"

definition state_shutdown where
  "state_shutdown C W fn_ptr socket how = change_state Sys_shutdown (nio_shutdown C W fn_ptr socket how)"

definition state_close where
  "state_close C W fn_ptr fd = change_state Sys_close (nio_close C W fn_ptr fd)"

definition state_recv where
  "state_recv C W fn_ptr socket buf len flags = change_state Sys_recv (nio_recv C W fn_ptr socket buf len flags)"

definition state_recvfrom where
  "state_recvfrom C W fn_ptr socket buf len flags addr addrlen = change_state Sys_recvfrom (nio_recvfrom C W fn_ptr socket buf len flags addr addrlen)"

definition state_read where
  "state_read C W fn_ptr fd buf cnt = change_state Sys_read (nio_read C W fn_ptr fd buf cnt)"

definition state_pread where
  "state_pread C W fn_ptr fd buf cnt offset = change_state Sys_pread (nio_pread C W fn_ptr fd buf cnt offset)"

definition state_readv where
  "state_readv C W fn_ptr fd iov iovcnt = change_state Sys_readv (nio_readv C W fn_ptr fd iov iovcnt)"

definition state_preadv where
  "state_preadv C W fn_ptr fd iov iovcnt offset = change_state Sys_preadv (nio_preadv C W fn_ptr fd iov iovcnt offset)"

definition state_recvmsg where
  "state_recvmsg frame C W fn_ptr fd msg flags = change_state Sys_recvmsg (nio_recvmsg frame C W fn_ptr fd msg flags)"

definition state_send where
  "state_send C W fn_ptr socket buf len flags = change_state Sys_send (nio_send C W fn_ptr socket buf len flags)"

definition state_sendto where
  "state_sendto C W fn_ptr socket buf len flags addr addrlen = change_state Sys_sendto (nio_sendto C W fn_ptr socket buf len flags addr addrlen)"

definition state_write where
  "state_write C W fn_ptr fd buf cnt = change_state Sys_write (nio_write C W fn_ptr fd buf cnt)"

definition state_pwrite where
  "state_pwrite C W fn_ptr fd buf cnt offset = change_state Sys_pwrite (nio_pwrite C W fn_ptr fd buf cnt offset)"

definition state_writev where
  "state_writev C W fn_ptr fd iov iovcnt = change_state Sys_writev (nio_writev C W fn_ptr fd iov iovcnt)"

definition state_pwritev where
  "state_pwritev C W fn_ptr fd iov iovcnt offset = change_state Sys_pwritev (nio_pwritev C W fn_ptr fd iov iovcnt offset)"

definition state_sendmsg where
  "state_sendmsg frame C W fn_ptr fd msg flags = change_state Sys_sendmsg (nio_sendmsg frame C W fn_ptr fd msg flags)"

definition state_epoll_ctl where
  "state_epoll_ctl C fn_ptr epfd op fd event = change_state Sys_epoll_ctl (nio_epoll_ctl C fn_ptr epfd op fd event)"

definition state_accept4 where
  "state_accept4 C W fn_ptr fd addr len flg = change_state Sys_accept4 (nio_accept4 C W fn_ptr fd addr len flg)"

subsection \<open>The public functions\<close>

definition facade_sleep where
  "facade_sleep W fn_ptr secs = state_sleep W fn_ptr secs"

definition facade_usleep where
  "facade_usleep W fn_ptr microseconds = state_usleep W fn_ptr microseconds"

definition facade_nanosleep where
  "facade_nanosleep W fn_ptr rqtp rmtp = state_nanosleep W fn_ptr rqtp rmtp"

definition facade_poll where
  "facade_poll C W fn_ptr fds nfds timeout = state_poll C W fn_ptr fds nfds timeout"

definition facade_select where
  "facade_select frame C W fn_ptr nfds readfds writefds errorfds timeout = state_select frame C W fn_ptr nfds readfds writefds errorfds timeout"

definition facade_socket where
  "facade_socket C fn_ptr domain ty protocol = state_socket C fn_ptr domain ty protocol"

definition facade_listen where
  "facade_listen C fn_ptr socket backlog = state_listen C fn_ptr socket backlog"

definition facade_accept where
  "facade_accept C W fn_ptr socket address address_len = state_accept C W fn_ptr socket address address_len"

definition facade_connect where
  "facade_connect C W fn_ptr socket address len = state_connect C W fn_ptr socket address len"

definition facade_shutdown where
  "facade_shutdown C W fn_ptr socket how = state_shutdown C W fn_ptr socket how"

definition facade_close where
  "facade_close C W fn_ptr fd = state_close C W fn_ptr fd"

definition facade_recv where
  "facade_recv C W fn_ptr socket buf len flags = state_recv C W fn_ptr socket buf len flags"

definition facade_recvfrom where
  "facade_recvfrom C W fn_ptr socket buf len flags addr addrlen = state_recvfrom C W fn_ptr socket buf len flags addr addrlen"

definition facade_read where
  "facade_read C W fn_ptr fd buf cnt = state_read C W fn_ptr fd buf cnt"

definition facade_pread where
  "facade_pread C W fn_ptr fd buf cnt offset = state_pread C W fn_ptr fd buf cnt offset"

definition facade_readv where
  "facade_readv C W fn_ptr fd iov iovcnt = state_readv C W fn_ptr fd iov iovcnt"

definition facade_preadv where
  "facade_preadv C W fn_ptr fd iov iovcnt offset = state_preadv C W fn_ptr fd iov iovcnt offset"

definition facade_recvmsg where
  "facade_recvmsg frame C W fn_ptr fd msg flags = state_recvmsg frame C W fn_ptr fd msg flags"

definition facade_send where
  "facade_send C W fn_ptr socket buf len flags = state_send C W fn_ptr socket buf len flags"

definition facade_sendto where
  "facade_sendto C W fn_ptr socket buf len flags addr addrlen = state_sendto C W fn_ptr socket buf len flags addr addrlen"

definition facade_write where
  "facade_write C W fn_ptr fd buf cnt = state_write C W fn_ptr fd buf cnt"

definition facade_pwrite where
  "facade_pwrite C W fn_ptr fd buf cnt offset = state_pwrite C W fn_ptr fd buf cnt offset"

definition facade_writev where
  "facade_writev C W fn_ptr fd iov iovcnt = state_writev C W fn_ptr fd iov iovcnt"

definition facade_pwritev where
  "facade_pwritev C W fn_ptr fd iov iovcnt offset = state_pwritev C W fn_ptr fd iov iovcnt offset"

definition facade_sendmsg where
  "facade_sendmsg frame C W fn_ptr fd msg flags = state_sendmsg frame C W fn_ptr fd msg flags"

definition facade_epoll_ctl where
  "facade_epoll_ctl C fn_ptr epfd op fd event = state_epoll_ctl C fn_ptr epfd op fd event"

definition facade_accept4 where
  "facade_accept4 C W fn_ptr fd addr len flg = state_accept4 C W fn_ptr fd addr len flg"

subsection \<open>The hooked functions\<close>

definition hook_sleep where
  "hook_sleep W next secs = facade_sleep W (Some next) secs"

definition hook_usleep where
  "hook_usleep W next microseconds = facade_usleep W (Some next) microseconds"

definition hook_nanosleep where
  "hook_nanosleep W next rqtp rmtp = facade_nanosleep W (Some next) rqtp rmtp"

definition hook_poll where
  "hook_poll C W next fds nfds timeout = facade_poll C W (Some next) fds nfds timeout"

definition hook_select where
  "hook_select frame C W next nfds readfds writefds errorfds timeout = facade_select frame C W (Some next) nfds readfds writefds errorfds timeout"

definition hook_socket where
  "hook_socket C next domain ty protocol = facade_socket C (Some next) domain ty protocol"

definition hook_listen where
  "hook_listen C next socket backlog = facade_listen C (Some next) socket backlog"

definition hook_accept where
  "hook_accept C W next socket address address_len = facade_accept C W (Some next) socket address address_len"

definition hook_connect where
  "hook_connect C W next socket address len = facade_connect C W (Some next) socket address len"

definition hook_shutdown where
  "hook_shutdown C W next socket how = facade_shutdown C W (Some next) socket how"

definition hook_recv where
  "hook_recv C W next socket buf len flags = facade_recv C W (Some next) socket buf len flags"

definition hook_recvfrom where
  "hook_recvfrom C W next socket buf len flags addr addrlen = facade_recvfrom C W (Some next) socket buf len flags addr addrlen"

definition hook_pread where
  "hook_pread C W next fd buf cnt offset = facade_pread C W (Some next) fd buf cnt offset"

definition hook_readv where
  "hook_readv C W next fd iov iovcnt = facade_readv C W (Some next) fd iov iovcnt"

definition hook_preadv where
  "hook_preadv C W next fd iov iovcnt offset = facade_preadv C W (Some next) fd iov iovcnt offset"

definition hook_recvmsg where
  "hook_recvmsg frame C W next fd msg flags = facade_recvmsg frame C W (Some next) fd msg flags"

definition hook_send where
  "hook_send C W next socket buf len flags = facade_send C W (Some next) socket buf len flags"

definition hook_sendto where
  "hook_sendto C W next socket buf len flags addr addrlen = facade_sendto C W (Some next) socket buf len flags addr addrlen"

definition hook_pwrite where
  "hook_pwrite C W next fd buf cnt offset = facade_pwrite C W (Some next) fd buf cnt offset"

definition hook_writev where
  "hook_writev C W next fd iov iovcnt = facade_writev C W (Some next) fd iov iovcnt"

definition hook_pwritev where
  "hook_pwritev C W next fd iov iovcnt offset = facade_pwritev C W (Some next) fd iov iovcnt offset"

definition hook_sendmsg where
  "hook_sendmsg frame C W next fd msg flags = facade_sendmsg frame C W (Some next) fd msg flags"

definition hook_accept4 where
  "hook_accept4 C W next fd addr len flg = facade_accept4 C W (Some next) fd addr len flg"

end
