(* ===== verification/Keeps.thy ===== *)
theory Keeps
  imports Prog
begin

text \<open>
  Invariants of programs: \<open>keeps I p\<close> says that \<open>p\<close>, started where \<open>I\<close> holds, ends where \<open>I\<close> holds, whether it ends with a
  value or with an error (a panic leaves the state to nobody). The rules follow the structure of programs; they are
  collected in \<open>keeps\<close>, so that a goal about a composed program is reduced to its parts.
\<close>

named_theorems keeps \<open>rules for the invariants of programs\<close>

fun left_in :: "('s \<Rightarrow> bool) \<Rightarrow> ('a, 'e) outcome \<times> 's \<Rightarrow> bool" where
  "left_in I (Ok a, t) = I t"
| "left_in I (Err e, t) = I t"
| "left_in I (Panic m, t) = True"

definition keeps :: "('s \<Rightarrow> bool) \<Rightarrow> ('a, 'e, 's) prog \<Rightarrow> bool" where
  "keeps I p \<longleftrightarrow> (\<forall>s y. I s \<longrightarrow> p s = Some y \<longrightarrow> left_in I y)"

lemma keepsI: "(\<And>s y. I s \<Longrightarrow> p s = Some y \<Longrightarrow> left_in I y) \<Longrightarrow> keeps I p"
  by (simp add: keeps_def)

lemma keepsD: "keeps I p \<Longrightarrow> I s \<Longrightarrow> p s = Some y \<Longrightarrow> left_in I y"
  unfolding keeps_def by blast

lemma keeps_Ok: "keeps I p \<Longrightarrow> I s \<Longrightarrow> p s = Some (Ok a, t) \<Longrightarrow> I t"
  using keepsD [of I p s "(Ok a, t)"] by simp

subsection \<open>Rules\<close>

lemma keeps_basic [keeps]:
  "keeps I (ret a)" "keeps I (fail e)" "keeps I (panic m)" "keeps I (gets f)"
  by (simp_all add: keeps_def ret_def fail_def panic_def gets_def)

lemma keeps_upd [keeps]: "(\<And>s. I s \<Longrightarrow> I (f s)) \<Longrightarrow> keeps I (upd f)"
  by (simp add: keeps_def upd_def)

lemma keeps_state_of [keeps]: "(\<And>s. I s \<Longrightarrow> I (snd (f s))) \<Longrightarrow> keeps I (state_of f)"
  by (auto simp: keeps_def state_of_def case_prod_beta)

lemma keeps_andThen [keeps]:
  assumes "keeps I p" and "\<And>a. keeps I (k a)"
  shows "keeps I (andThen p k)"
proof (rule keepsI)
  fix s y
  assume s: "I s" and y: "andThen p k s = Some y"
  obtain r t where [simp]: "y = (r, t)" by fastforce
  from y have "andThen p k s = Some (r, t)" by simp
  then show "left_in I y"
  proof (cases rule: andThen_SomeE)
    case (ok a s')
    then have "I s'" using assms(1) s by (auto dest: keepsD)
    with ok show ?thesis using assms(2) by (auto dest: keepsD)
  next
    case (err e)
    then show ?thesis using keepsD [OF assms(1) s] by fastforce
  qed simp
qed

lemma keeps_attempt [keeps]:
  assumes "keeps I p" and "\<And>a. keeps I (k a)"
  shows "keeps I (attempt p k)"
proof (rule keepsI)
  fix s y
  assume s: "I s" and y: "attempt p k s = Some y"
  obtain r t where [simp]: "y = (r, t)" by fastforce
  from y have "attempt p k s = Some (r, t)" by simp
  then show "left_in I y"
  proof (cases rule: attempt_SomeE)
    case (ok a s')
    then have "I s'" using assms(1) s by (auto dest: keepsD)
    with ok show ?thesis using assms(2) by (auto dest: keepsD)
  next
    case (err e s')
    then have "I s'" using assms(1) s by (auto dest: keepsD)
    with err show ?thesis using assms(2) by (auto dest: keepsD)
  qed simp
qed

lemma keeps_expect [keeps]: "keeps I p \<Longrightarrow> keeps I (expect p m)"
  by (auto simp: keeps_def expect_def split: option.splits outcome.splits)

lemma keeps_if [keeps]:
  "(b \<Longrightarrow> keeps I p) \<Longrightarrow> (\<not> b \<Longrightarrow> keeps I q) \<Longrightarrow> keeps I (if b then p else q)"
  by simp

lemma keeps_case_prod [keeps]: "(\<And>a b. x = (a, b) \<Longrightarrow> keeps I (p a b)) \<Longrightarrow> keeps I (case x of (a, b) \<Rightarrow> p a b)"
  by (cases x) simp

lemma keeps_case_sum [keeps]:
  "(\<And>a. x = Inl a \<Longrightarrow> keeps I (p a)) \<Longrightarrow> (\<And>b. x = Inr b \<Longrightarrow> keeps I (q b)) \<Longrightarrow>
    keeps I (case x of Inl a \<Rightarrow> p a | Inr b \<Rightarrow> q b)"
  by (cases x) simp_all

lemma keeps_case_option [keeps]:
  "(x = None \<Longrightarrow> keeps I p) \<Longrightarrow> (\<And>a. x = Some a \<Longrightarrow> keeps I (q a)) \<Longrightarrow>
    keeps I (case x of None \<Rightarrow> p | Some a \<Rightarrow> q a)"
  by (cases x) simp_all

lemma keeps_case_outcome [keeps]:
  "(\<And>a. x = Ok a \<Longrightarrow> keeps I (p a)) \<Longrightarrow> (\<And>e. x = Err e \<Longrightarrow> keeps I (q e)) \<Longrightarrow>
    (\<And>m. x = Panic m \<Longrightarrow> keeps I (k m)) \<Longrightarrow>
    keeps I (case x of Ok a \<Rightarrow> p a | Err e \<Rightarrow> q e | Panic m \<Rightarrow> k m)"
  by (cases x) simp_all

lemma keeps_Let [keeps]: "(\<And>x. x = a \<Longrightarrow> keeps I (p x)) \<Longrightarrow> keeps I (let x = a in p x)"
  by (simp add: Let_def)

lemma keeps_clock [keeps]:
  assumes "\<And>s. I s \<Longrightarrow> I (snd (now s))"
  shows "keeps I read_clock" and "keeps I (timeout_after d)"
  using assms
  by (auto simp: keeps_def read_clock_def timeout_after_def get_timeout_time_def state_of_def case_prod_beta
      split: option.splits)

text \<open>The control structures applied to a state, as they stand in the equations of loops.\<close>

lemma keeps_if_at [keeps]:
  "(b \<Longrightarrow> keeps I p) \<Longrightarrow> (\<not> b \<Longrightarrow> keeps I q) \<Longrightarrow> keeps I (\<lambda>s. if b then p s else q s)"
  by (cases b) simp_all

lemma keeps_Let_at [keeps]: "(\<And>x. x = a \<Longrightarrow> keeps I (p x)) \<Longrightarrow> keeps I (\<lambda>s. let x = a in p x s)"
  by (simp add: Let_def)

subsection \<open>Loops\<close>

text \<open>Invariants are admissible, so that they are shown for a loop by induction on the fixed point.\<close>

lemma keeps_admissible: "option.admissible (\<lambda>f. \<forall>x. keeps I (\<lambda>s. f (g x s)))"
proof -
  have "(\<forall>x. keeps I (\<lambda>s. f (g x s))) \<longleftrightarrow> (\<forall>z y. f z = Some y \<longrightarrow> (\<forall>x s. z = g x s \<longrightarrow> I s \<longrightarrow> left_in I y))"
    for f :: "'a \<Rightarrow> (('b, 'c) outcome \<times> 'd) option"
    unfolding keeps_def by blast
  then show ?thesis by (simp only: option_admissible)
qed

lemmas keeps_adm =
  keeps_admissible [where g = "\<lambda>_::unit. g" for g, simplified]
  keeps_admissible
  keeps_admissible [where g = "\<lambda>(a, b). g a b" for g, simplified split_paired_All split]
  keeps_admissible [where g = "\<lambda>(a, b, c). g a b c" for g, simplified split_paired_All split]
  keeps_admissible [where g = "\<lambda>(a, b, c, d). g a b c d" for g, simplified split_paired_All split]
  keeps_admissible [where g = "\<lambda>(a, b, c, d, e). g a b c d e" for g, simplified split_paired_All split]

lemma keeps_diverge [simp]: "keeps I (\<lambda>s. None)"
  by (simp add: keeps_def)

end
