(* ===== verification/CallState.thy ===== *)
theory CallState
  imports SyscallChain Keeps
begin

text \<open>
  The state of the coroutine around a system call. While a call runs, the calling coroutine is in the call's state; when
  it returns, the coroutine runs again. This holds for every call of the chain, provided the C library does not touch the
  current coroutine and a wait on the event loops gives the coroutine back in its call.

  The locale \<open>call_layer\<close> is the interface between the calls and what they use: an invariant that depends only on the
  current coroutine and the stack of calls, and that the waits keep. The lemmas in it show that each macro and each call
  of the non-blocking layer keeps it.
\<close>

subsection \<open>What the layers below do\<close>

definition quiet :: "(('co, 'z) io_scheme \<Rightarrow> 'a \<times> ('co, 'z) io_scheme) \<Rightarrow> bool" where
  "quiet f \<longleftrightarrow> (\<forall>s. cur (snd (f s)) = cur s \<and> SYSCALL (snd (f s)) = SYSCALL s)"

definition libc_quiet :: "('co, 'z) io_scheme libc_ops \<Rightarrow> bool" where
  "libc_quiet C \<longleftrightarrow>
     (\<forall>fd. quiet (lc_fcntl_getfl C fd)) \<and> (\<forall>fd v. quiet (lc_fcntl_setfl C fd v)) \<and>
     (\<forall>fd e n. quiet (lc_getsockopt_error C fd e n)) \<and> (\<forall>fd. quiet (lc_getpeername C fd)) \<and>
     (\<forall>secs. quiet (lc_sleep C secs)) \<and>
     (\<forall>microseconds. quiet (lc_usleep C microseconds)) \<and>
     (\<forall>rqtp rmtp. quiet (lc_nanosleep C rqtp rmtp)) \<and>
     (\<forall>fds nfds timeout. quiet (lc_poll C fds nfds timeout)) \<and>
     (\<forall>nfds readfds writefds errorfds timeout. quiet (lc_select C nfds readfds writefds errorfds timeout)) \<and>
     (\<forall>domain ty protocol. quiet (lc_socket C domain ty protocol)) \<and>
     (\<forall>socket backlog. quiet (lc_listen C socket backlog)) \<and>
     (\<forall>socket address address_len. quiet (lc_accept C socket address address_len)) \<and>
     (\<forall>socket address len. quiet (lc_connect C socket address len)) \<and>
     (\<forall>socket how. quiet (lc_shutdown C socket how)) \<and>
     (\<forall>fd. quiet (lc_close C fd)) \<and>
     (\<forall>socket buf len flags. quiet (lc_recv C socket buf len flags)) \<and>
     (\<forall>socket buf len flags addr addrlen. quiet (lc_recvfrom C socket buf len flags addr addrlen)) \<and>
     (\<forall>fd buf cnt. quiet (lc_read C fd buf cnt)) \<and>
     (\<forall>fd buf cnt offset. quiet (lc_pread C fd buf cnt offset)) \<and>
     (\<forall>fd iov iovcnt. quiet (lc_readv C fd iov iovcnt)) \<and>
     (\<forall>fd iov iovcnt offset. quiet (lc_preadv C fd iov iovcnt offset)) \<and>
     (\<forall>fd msg flags. quiet (lc_recvmsg C fd msg flags)) \<and>
     (\<forall>socket buf len flags. quiet (lc_send C socket buf len flags)) \<and>
     (\<forall>socket buf len flags addr addrlen. quiet (lc_sendto C socket buf len flags addr addrlen)) \<and>
     (\<forall>fd buf cnt. quiet (lc_write C fd buf cnt)) \<and>
     (\<forall>fd buf cnt offset. quiet (lc_pwrite C fd buf cnt offset)) \<and>
     (\<forall>fd iov iovcnt. quiet (lc_writev C fd iov iovcnt)) \<and>
     (\<forall>fd iov iovcnt offset. quiet (lc_pwritev C fd iov iovcnt offset)) \<and>
     (\<forall>fd msg flags. quiet (lc_sendmsg C fd msg flags)) \<and>
     (\<forall>epfd op fd event. quiet (lc_epoll_ctl C epfd op fd event)) \<and>
     (\<forall>fd addr len flg. quiet (lc_accept4 C fd addr len flg))"

definition fn_quiet :: "('f \<Rightarrow> bool) \<Rightarrow> 'f option \<Rightarrow> bool" where
  "fn_quiet q fn_ptr \<longleftrightarrow> (case fn_ptr of None \<Rightarrow> True | Some f \<Rightarrow> q f)"

lemma fn_quiet_simps [simp]: "fn_quiet q None" "fn_quiet q (Some f) \<longleftrightarrow> q f"
  by (simp_all add: fn_quiet_def)

definition waits_keep :: "('s \<Rightarrow> bool) \<Rightarrow> ('e, 's) event_ops \<Rightarrow> bool" where
  "waits_keep I W \<longleftrightarrow>
     (\<forall>d. keeps I (ev_wait W d)) \<and> (\<forall>fd b d. keeps I (ev_wait_read W fd b d)) \<and>
     (\<forall>fd b d. keeps I (ev_wait_write W fd b d)) \<and>
     (\<forall>fd. keeps I (ev_del W fd)) \<and> (\<forall>fd. keeps I (ev_del_read W fd)) \<and> (\<forall>fd. keeps I (ev_del_write W fd))"

subsection \<open>Loops\<close>

lemma keeps_wait_or_break [keeps]:
  assumes "\<And>b. keeps I (wait b)" and "\<And>b. keeps I (again b)"
  shows "keeps I (wait_or_break wait r added again)"
  unfolding wait_or_break_def by (intro keeps assms)

lemma keeps_nio_loop [keeps]:
  assumes "\<And>b. keeps I (wait b)" and "keeps I call" and "\<And>s. I s \<Longrightarrow> I (reset_errno s)"
  shows "keeps I (nio_loop wait call added)"
proof -
  have "\<forall>added. keeps I (nio_loop wait call added)"
    by (induction rule: nio_loop.fixp_induct) (unfold curry_def, rule keeps_adm, simp, (intro allI keeps assms; blast))
  then show ?thesis by blast
qed

lemma keeps_nio_buf_loop [keeps]:
  assumes "\<And>b. keeps I (wait b)" and "\<And>p n. keeps I (call p n)" and "\<And>s. I s \<Longrightarrow> I (reset_errno s)"
  shows "keeps I (nio_buf_loop wait call condition buffer len added done r)"
proof -
  have "\<forall>added done r. keeps I (nio_buf_loop wait call condition buffer len added done r)"
    by (induction rule: nio_buf_loop.fixp_induct) (unfold curry_def, rule keeps_adm, simp, (intro allI keeps assms; blast))
  then show ?thesis by blast
qed

lemma keeps_nio_iovec_loop [keeps]:
  assumes "\<And>b. keeps I (wait b)" and "\<And>p n. keeps I (call p n)" and "\<And>s. I s \<Longrightarrow> I (reset_errno s)" and "\<And>p k s. I s \<Longrightarrow> I (shift_iovec p k s)"
  shows "keeps I (nio_iovec_loop wait call condition iov len skipped pices added done r)"
proof -
  have "\<forall>skipped pices added done r. keeps I (nio_iovec_loop wait call condition iov len skipped pices added done r)"
    by (induction rule: nio_iovec_loop.fixp_induct) (unfold curry_def, rule keeps_adm, simp, (intro allI keeps assms; blast))
  then show ?thesis by blast
qed

lemma keeps_sleep_until [keeps]:
  assumes "\<And>d. keeps I (ev_wait W d)" and "\<And>s. I s \<Longrightarrow> I (snd (now s))"
  shows "keeps I (sleep_until W timeout)"
proof -
  have "keeps I (sleep_until W timeout)"
    by (induction rule: sleep_until.fixp_induct) (unfold curry_def, rule keeps_adm, simp, intro keeps assms)
  then show ?thesis by blast
qed

lemma keeps_poll_loop [keeps]:
  assumes "\<And>d. keeps I (ev_wait W d)" and "keeps I call"
  shows "keeps I (poll_loop W call t x)"
proof -
  have "\<forall>t x. keeps I (poll_loop W call t x)"
    by (induction rule: poll_loop.fixp_induct) (unfold curry_def, rule keeps_adm, simp, (intro allI keeps assms; blast))
  then show ?thesis by blast
qed

lemma keeps_select_loop [keeps]:
  assumes "\<And>d. keeps I (ev_wait W d)" and "keeps I call" and "\<And>s. I s \<Longrightarrow> I (restore s)"
  shows "keeps I (select_loop W call restore t x)"
proof -
  have "\<forall>t x. keeps I (select_loop W call restore t x)"
    by (induction rule: select_loop.fixp_induct) (unfold curry_def, rule keeps_adm, simp, (intro allI keeps assms; blast))
  then show ?thesis by blast
qed

lemma keeps_connect_loop [keeps]:
  assumes "\<And>b d. keeps I (ev_wait_write W socket b d)" and "\<And>s. I s \<Longrightarrow> I (snd (lc_getsockopt_error C socket 0 0 s))" and "\<And>s. I s \<Longrightarrow> I (snd (lc_getpeername C socket s))" and "\<And>e s. I s \<Longrightarrow> I (set_errno e s)" and "\<And>s. I s \<Longrightarrow> I (reset_errno s)"
  shows "keeps I (connect_loop C W socket added)"
proof -
  have "\<forall>added. keeps I (connect_loop C W socket added)"
    by (induction rule: connect_loop.fixp_induct) (unfold curry_def, rule keeps_adm, simp, (intro allI keeps assms; blast))
  then show ?thesis by blast
qed

subsection \<open>Calls\<close>

locale call_layer =
  fixes I :: "('co, 'z) io_scheme \<Rightarrow> bool" and C :: "('co, 'z) io_scheme libc_ops"
    and W :: "('e, ('co, 'z) io_scheme) event_ops"
  assumes view: "I s \<Longrightarrow> cur t = cur s \<Longrightarrow> SYSCALL t = SYSCALL s \<Longrightarrow> I t"
    and libc: "libc_quiet C"
    and waits: "waits_keep I W"
begin

lemma quiet_keeps: "quiet f \<Longrightarrow> I s \<Longrightarrow> I (snd (f s))"
  unfolding quiet_def using view by blast

lemma writes_keep:
  "I s \<Longrightarrow> I (reset_errno s)" "I s \<Longrightarrow> I (set_errno e s)" "I s \<Longrightarrow> I (shift_iovec p k s)" "I s \<Longrightarrow> I (drop_vec p n s)"
  "I s \<Longrightarrow> I (zero_timeval p s)" "I s \<Longrightarrow> I (restore_set p v s)" "I s \<Longrightarrow> I (snd (now s))"
  "I s \<Longrightarrow> I (s\<lparr>mem_msghdr := m\<rparr>)" "I s \<Longrightarrow> I (s\<lparr>mem_timespec := ts\<rparr>)"
  by (erule view; simp add: reset_errno_def set_errno_def shift_iovec_def drop_vec_def zero_timeval_def restore_set_def
      now_def Let_def)+

lemma events_keep:
  "keeps I (ev_wait W d)" "keeps I (ev_wait_read W fd b d)" "keeps I (ev_wait_write W fd b d)"
  "keeps I (ev_del W fd)" "keeps I (ev_del_read W fd)" "keeps I (ev_del_write W fd)"
  using waits by (simp_all add: waits_keep_def)

lemma keeps_c_call: "quiet f \<Longrightarrow> keeps I (c_call f)"
  unfolding c_call_def by (intro keeps quiet_keeps)

lemma fcntl_keeps: "I s \<Longrightarrow> I (snd (lc_fcntl_getfl C fd s))" "I s \<Longrightarrow> I (snd (lc_fcntl_setfl C fd v s))"
  using libc by (simp_all add: libc_quiet_def quiet_keeps)

lemma socket_keeps:
  "I s \<Longrightarrow> I (snd (lc_getsockopt_error C fd e n s))" "I s \<Longrightarrow> I (snd (lc_getpeername C fd s))"
  using libc by (simp_all add: libc_quiet_def quiet_keeps)

lemma keeps_impl_non_blocking:
  assumes "keeps I impls"
  shows "keeps I (impl_non_blocking C fd impls)"
proof -
  have "I s \<Longrightarrow> I (snd (is_blocking C fd s))" "I s \<Longrightarrow> I (snd (set_non_blocking_flag C fd on s))" for s on
    by (simp_all add: is_blocking_def is_non_blocking_def set_non_blocking_flag_def fcntl_keeps case_prod_beta)
  then show ?thesis
    unfolding impl_non_blocking_def set_non_blocking_def set_blocking_def by (intro keeps assms)
qed

lemma keeps_impl_nio:
  "(\<And>b d. keeps I (wait fd b d)) \<Longrightarrow> keeps I call \<Longrightarrow> keeps I (impl_nio C wait fd call)"
  unfolding impl_nio_def by (intro keeps keeps_impl_non_blocking writes_keep)

lemma keeps_impl_nio_buf:
  "(\<And>b d. keeps I (wait fd b d)) \<Longrightarrow> (\<And>p n. keeps I (call p n)) \<Longrightarrow>
    keeps I (impl_nio_buf C wait condition fd call buffer len)"
  unfolding impl_nio_buf_def by (intro keeps keeps_impl_non_blocking writes_keep)

lemma keeps_nio_buf:
  assumes "\<And>p n. keeps I (call p n)"
  shows "keeps I (impl_read_nio_buf C W fd call buffer len)" "keeps I (impl_write_nio_buf C W fd call buffer len)"
  unfolding impl_read_nio_buf_def impl_write_nio_buf_def by (intro keeps_impl_nio_buf events_keep assms)+

lemma keeps_nio_iovec_block:
  "(\<And>b d. keeps I (wait fd b d)) \<Longrightarrow> (\<And>p n. keeps I (call p n)) \<Longrightarrow>
    keeps I (nio_iovec_block wait condition fd call iov n)"
  unfolding nio_iovec_block_def by (intro keeps writes_keep)

lemma keeps_nio_iovec:
  assumes "\<And>p n. keeps I (call p n)"
  shows "keeps I (impl_read_nio_iovec C W fd call iov n)" "keeps I (impl_write_nio_iovec C W fd call iov n)"
  unfolding impl_read_nio_iovec_def impl_write_nio_iovec_def impl_nio_iovec_def with_c_int_def
  by (intro keeps keeps_impl_non_blocking keeps_nio_iovec_block events_keep assms)+

lemma keeps_impl_nio_msghdr:
  "(\<And>b d. keeps I (wait fd b d)) \<Longrightarrow> (\<And>p. keeps I (call p)) \<Longrightarrow>
    keeps I (impl_nio_msghdr C wait condition frame fd call msg)"
  unfolding impl_nio_msghdr_def with_new_msg_def
  by (intro keeps keeps_impl_non_blocking keeps_nio_iovec_block writes_keep)

lemma keeps_nio_msghdr:
  assumes "\<And>p. keeps I (call p)"
  shows "keeps I (impl_read_nio_msghdr C W frame fd call msg)" "keeps I (impl_write_nio_msghdr C W frame fd call msg)"
  unfolding impl_read_nio_msghdr_def impl_write_nio_msghdr_def by (intro keeps_impl_nio_msghdr events_keep assms)+

lemma keeps_raw_poll:
  "fn_quiet (\<lambda>f. \<forall>fds nfds timeout. quiet (f fds nfds timeout)) fn_ptr \<Longrightarrow> keeps I (raw_poll C fn_ptr fds nfds timeout)"
  using libc by (auto simp: raw_poll_def libc_quiet_def fn_quiet_def intro!: keeps_c_call split: option.splits)

lemma keeps_raw_select:
  "fn_quiet (\<lambda>f. \<forall>nfds readfds writefds errorfds timeout. quiet (f nfds readfds writefds errorfds timeout)) fn_ptr \<Longrightarrow> keeps I (raw_select C fn_ptr nfds readfds writefds errorfds timeout)"
  using libc by (auto simp: raw_select_def libc_quiet_def fn_quiet_def intro!: keeps_c_call split: option.splits)

lemma keeps_raw_socket:
  "fn_quiet (\<lambda>f. \<forall>domain ty protocol. quiet (f domain ty protocol)) fn_ptr \<Longrightarrow> keeps I (raw_socket C fn_ptr domain ty protocol)"
  using libc by (auto simp: raw_socket_def libc_quiet_def fn_quiet_def intro!: keeps_c_call split: option.splits)

lemma keeps_raw_listen:
  "fn_quiet (\<lambda>f. \<forall>socket backlog. quiet (f socket backlog)) fn_ptr \<Longrightarrow> keeps I (raw_listen C fn_ptr socket backlog)"
  using libc by (auto simp: raw_listen_def libc_quiet_def fn_quiet_def intro!: keeps_c_call split: option.splits)

lemma keeps_raw_accept:
  "fn_quiet (\<lambda>f. \<forall>socket address address_len. quiet (f socket address address_len)) fn_ptr \<Longrightarrow> keeps I (raw_accept C fn_ptr socket address address_len)"
  using libc by (auto simp: raw_accept_def libc_quiet_def fn_quiet_def intro!: keeps_c_call split: option.splits)

lemma keeps_raw_connect:
  "fn_quiet (\<lambda>f. \<forall>socket address len. quiet (f socket address len)) fn_ptr \<Longrightarrow> keeps I (raw_connect C fn_ptr socket address len)"
  using libc by (auto simp: raw_connect_def libc_quiet_def fn_quiet_def intro!: keeps_c_call split: option.splits)

lemma keeps_raw_shutdown:
  "fn_quiet (\<lambda>f. \<forall>socket how. quiet (f socket how)) fn_ptr \<Longrightarrow> keeps I (raw_shutdown C fn_ptr socket how)"
  using libc by (auto simp: raw_shutdown_def libc_quiet_def fn_quiet_def intro!: keeps_c_call split: option.splits)

lemma keeps_raw_close:
  "fn_quiet (\<lambda>f. \<forall>fd. quiet (f fd)) fn_ptr \<Longrightarrow> keeps I (raw_close C fn_ptr fd)"
  using libc by (auto simp: raw_close_def libc_quiet_def fn_quiet_def intro!: keeps_c_call split: option.splits)

lemma keeps_raw_recv:
  "fn_quiet (\<lambda>f. \<forall>socket buf len flags. quiet (f socket buf len flags)) fn_ptr \<Longrightarrow> keeps I (raw_recv C fn_ptr socket buf len flags)"
  using libc by (auto simp: raw_recv_def libc_quiet_def fn_quiet_def intro!: keeps_c_call split: option.splits)

lemma keeps_raw_recvfrom:
  "fn_quiet (\<lambda>f. \<forall>socket buf len flags addr addrlen. quiet (f socket buf len flags addr addrlen)) fn_ptr \<Longrightarrow> keeps I (raw_recvfrom C fn_ptr socket buf len flags addr addrlen)"
  using libc by (auto simp: raw_recvfrom_def libc_quiet_def fn_quiet_def intro!: keeps_c_call split: option.splits)

lemma keeps_raw_read:
  "fn_quiet (\<lambda>f. \<forall>fd buf cnt. quiet (f fd buf cnt)) fn_ptr \<Longrightarrow> keeps I (raw_read C fn_ptr fd buf cnt)"
  using libc by (auto simp: raw_read_def libc_quiet_def fn_quiet_def intro!: keeps_c_call split: option.splits)

lemma keeps_raw_pread:
  "fn_quiet (\<lambda>f. \<forall>fd buf cnt offset. quiet (f fd buf cnt offset)) fn_ptr \<Longrightarrow> keeps I (raw_pread C fn_ptr fd buf cnt offset)"
  using libc by (auto simp: raw_pread_def libc_quiet_def fn_quiet_def intro!: keeps_c_call split: option.splits)

lemma keeps_raw_readv:
  "fn_quiet (\<lambda>f. \<forall>fd iov iovcnt. quiet (f fd iov iovcnt)) fn_ptr \<Longrightarrow> keeps I (raw_readv C fn_ptr fd iov iovcnt)"
  using libc by (auto simp: raw_readv_def libc_quiet_def fn_quiet_def intro!: keeps_c_call split: option.splits)

lemma keeps_raw_preadv:
  "fn_quiet (\<lambda>f. \<forall>fd iov iovcnt offset. quiet (f fd iov iovcnt offset)) fn_ptr \<Longrightarrow> keeps I (raw_preadv C fn_ptr fd iov iovcnt offset)"
  using libc by (auto simp: raw_preadv_def libc_quiet_def fn_quiet_def intro!: keeps_c_call split: option.splits)

lemma keeps_raw_recvmsg:
  "fn_quiet (\<lambda>f. \<forall>fd msg flags. quiet (f fd msg flags)) fn_ptr \<Longrightarrow> keeps I (raw_recvmsg C fn_ptr fd msg flags)"
  using libc by (auto simp: raw_recvmsg_def libc_quiet_def fn_quiet_def intro!: keeps_c_call split: option.splits)

lemma keeps_raw_send:
  "fn_quiet (\<lambda>f. \<forall>socket buf len flags. quiet (f socket buf len flags)) fn_ptr \<Longrightarrow> keeps I (raw_send C fn_ptr socket buf len flags)"
  using libc by (auto simp: raw_send_def libc_quiet_def fn_quiet_def intro!: keeps_c_call split: option.splits)

lemma keeps_raw_sendto:
  "fn_quiet (\<lambda>f. \<forall>socket buf len flags addr addrlen. quiet (f socket buf len flags addr addrlen)) fn_ptr \<Longrightarrow> keeps I (raw_sendto C fn_ptr socket buf len flags addr addrlen)"
  using libc by (auto simp: raw_sendto_def libc_quiet_def fn_quiet_def intro!: keeps_c_call split: option.splits)

lemma keeps_raw_write:
  "fn_quiet (\<lambda>f. \<forall>fd buf cnt. quiet (f fd buf cnt)) fn_ptr \<Longrightarrow> keeps I (raw_write C fn_ptr fd buf cnt)"
  using libc by (auto simp: raw_write_def libc_quiet_def fn_quiet_def intro!: keeps_c_call split: option.splits)

lemma keeps_raw_pwrite:
  "fn_quiet (\<lambda>f. \<forall>fd buf cnt offset. quiet (f fd buf cnt offset)) fn_ptr \<Longrightarrow> keeps I (raw_pwrite C fn_ptr fd buf cnt offset)"
  using libc by (auto simp: raw_pwrite_def libc_quiet_def fn_quiet_def intro!: keeps_c_call split: option.splits)

lemma keeps_raw_writev:
  "fn_quiet (\<lambda>f. \<forall>fd iov iovcnt. quiet (f fd iov iovcnt)) fn_ptr \<Longrightarrow> keeps I (raw_writev C fn_ptr fd iov iovcnt)"
  using libc by (auto simp: raw_writev_def libc_quiet_def fn_quiet_def intro!: keeps_c_call split: option.splits)

lemma keeps_raw_pwritev:
  "fn_quiet (\<lambda>f. \<forall>fd iov iovcnt offset. quiet (f fd iov iovcnt offset)) fn_ptr \<Longrightarrow> keeps I (raw_pwritev C fn_ptr fd iov iovcnt offset)"
  using libc by (auto simp: raw_pwritev_def libc_quiet_def fn_quiet_def intro!: keeps_c_call split: option.splits)

lemma keeps_raw_sendmsg:
  "fn_quiet (\<lambda>f. \<forall>fd msg flags. quiet (f fd msg flags)) fn_ptr \<Longrightarrow> keeps I (raw_sendmsg C fn_ptr fd msg flags)"
  using libc by (auto simp: raw_sendmsg_def libc_quiet_def fn_quiet_def intro!: keeps_c_call split: option.splits)

lemma keeps_raw_epoll_ctl:
  "fn_quiet (\<lambda>f. \<forall>epfd op fd event. quiet (f epfd op fd event)) fn_ptr \<Longrightarrow> keeps I (raw_epoll_ctl C fn_ptr epfd op fd event)"
  using libc by (auto simp: raw_epoll_ctl_def libc_quiet_def fn_quiet_def intro!: keeps_c_call split: option.splits)

lemma keeps_raw_accept4:
  "fn_quiet (\<lambda>f. \<forall>fd addr len flg. quiet (f fd addr len flg)) fn_ptr \<Longrightarrow> keeps I (raw_accept4 C fn_ptr fd addr len flg)"
  using libc by (auto simp: raw_accept4_def libc_quiet_def fn_quiet_def intro!: keeps_c_call split: option.splits)

lemmas keeps_raw =
 keeps_raw_poll keeps_raw_select keeps_raw_socket keeps_raw_listen keeps_raw_accept keeps_raw_connect
 keeps_raw_shutdown keeps_raw_close keeps_raw_recv keeps_raw_recvfrom keeps_raw_read keeps_raw_pread
 keeps_raw_readv keeps_raw_preadv keeps_raw_recvmsg keeps_raw_send keeps_raw_sendto keeps_raw_write
 keeps_raw_pwrite keeps_raw_writev keeps_raw_pwritev keeps_raw_sendmsg keeps_raw_epoll_ctl keeps_raw_accept4

lemmas keeps_nio_rules = keeps keeps_raw keeps_impl_non_blocking keeps_impl_nio keeps_nio_buf keeps_nio_iovec keeps_nio_msghdr
  writes_keep events_keep socket_keeps

lemma keeps_nio_sleep:
  "keeps I (nio_sleep W fn_ptr secs)"
  unfolding nio_sleep_def by (intro keeps_nio_rules)

lemma keeps_nio_usleep:
  "keeps I (nio_usleep W fn_ptr microseconds)"
  unfolding nio_usleep_def by (intro keeps_nio_rules)

lemma keeps_nio_nanosleep:
  "keeps I (nio_nanosleep W fn_ptr rqtp rmtp)"
  unfolding nio_nanosleep_def einval_def by (intro keeps_nio_rules)

lemma keeps_nio_poll:
  "fn_quiet (\<lambda>f. \<forall>fds nfds timeout. quiet (f fds nfds timeout)) fn_ptr \<Longrightarrow> keeps I (nio_poll C W fn_ptr fds nfds timeout)"
  unfolding nio_poll_def by (intro keeps_nio_rules)

lemma keeps_nio_select:
  "fn_quiet (\<lambda>f. \<forall>nfds readfds writefds errorfds timeout. quiet (f nfds readfds writefds errorfds timeout)) fn_ptr \<Longrightarrow> keeps I (nio_select frame C W fn_ptr nfds readfds writefds errorfds timeout)"
  unfolding nio_select_def by (intro keeps_nio_rules)

lemma keeps_nio_socket:
  "fn_quiet (\<lambda>f. \<forall>domain ty protocol. quiet (f domain ty protocol)) fn_ptr \<Longrightarrow> keeps I (nio_socket C fn_ptr domain ty protocol)"
  unfolding nio_socket_def by (intro keeps_nio_rules)

lemma keeps_nio_listen:
  "fn_quiet (\<lambda>f. \<forall>socket backlog. quiet (f socket backlog)) fn_ptr \<Longrightarrow> keeps I (nio_listen C fn_ptr socket backlog)"
  unfolding nio_listen_def by (intro keeps_nio_rules)

lemma keeps_nio_accept:
  "fn_quiet (\<lambda>f. \<forall>socket address address_len. quiet (f socket address address_len)) fn_ptr \<Longrightarrow> keeps I (nio_accept C W fn_ptr socket address address_len)"
  unfolding nio_accept_def by (intro keeps_nio_rules)

lemma keeps_nio_connect:
  "fn_quiet (\<lambda>f. \<forall>socket address len. quiet (f socket address len)) fn_ptr \<Longrightarrow> keeps I (nio_connect C W fn_ptr socket address len)"
  unfolding nio_connect_def by (intro keeps_nio_rules)

lemma keeps_nio_shutdown:
  "fn_quiet (\<lambda>f. \<forall>socket how. quiet (f socket how)) fn_ptr \<Longrightarrow> keeps I (nio_shutdown C W fn_ptr socket how)"
  unfolding nio_shutdown_def einval_def by (intro keeps_nio_rules)

lemma keeps_nio_close:
  "fn_quiet (\<lambda>f. \<forall>fd. quiet (f fd)) fn_ptr \<Longrightarrow> keeps I (nio_close C W fn_ptr fd)"
  unfolding nio_close_def by (intro keeps_nio_rules)

lemma keeps_nio_recv:
  "fn_quiet (\<lambda>f. \<forall>socket buf len flags. quiet (f socket buf len flags)) fn_ptr \<Longrightarrow> keeps I (nio_recv C W fn_ptr socket buf len flags)"
  unfolding nio_recv_def by (intro keeps_nio_rules)

lemma keeps_nio_recvfrom:
  "fn_quiet (\<lambda>f. \<forall>socket buf len flags addr addrlen. quiet (f socket buf len flags addr addrlen)) fn_ptr \<Longrightarrow> keeps I (nio_recvfrom C W fn_ptr socket buf len flags addr addrlen)"
  unfolding nio_recvfrom_def by (intro keeps_nio_rules)

lemma keeps_nio_read:
  "fn_quiet (\<lambda>f. \<forall>fd buf cnt. quiet (f fd buf cnt)) fn_ptr \<Longrightarrow> keeps I (nio_read C W fn_ptr fd buf cnt)"
  unfolding nio_read_def by (intro keeps_nio_rules)

lemma keeps_nio_pread:
  "fn_quiet (\<lambda>f. \<forall>fd buf cnt offset. quiet (f fd buf cnt offset)) fn_ptr \<Longrightarrow> keeps I (nio_pread C W fn_ptr fd buf cnt offset)"
  unfolding nio_pread_def by (intro keeps_nio_rules)

lemma keeps_nio_readv:
  "fn_quiet (\<lambda>f. \<forall>fd iov iovcnt. quiet (f fd iov iovcnt)) fn_ptr \<Longrightarrow> keeps I (nio_readv C W fn_ptr fd iov iovcnt)"
  unfolding nio_readv_def by (intro keeps_nio_rules)

lemma keeps_nio_preadv:
  "fn_quiet (\<lambda>f. \<forall>fd iov iovcnt offset. quiet (f fd iov iovcnt offset)) fn_ptr \<Longrightarrow> keeps I (nio_preadv C W fn_ptr fd iov iovcnt offset)"
  unfolding nio_preadv_def by (intro keeps_nio_rules)

lemma keeps_nio_recvmsg:
  "fn_quiet (\<lambda>f. \<forall>fd msg flags. quiet (f fd msg flags)) fn_ptr \<Longrightarrow> keeps I (nio_recvmsg frame C W fn_ptr fd msg flags)"
  unfolding nio_recvmsg_def by (intro keeps_nio_rules)

lemma keeps_nio_send:
  "fn_quiet (\<lambda>f. \<forall>socket buf len flags. quiet (f socket buf len flags)) fn_ptr \<Longrightarrow> keeps I (nio_send C W fn_ptr socket buf len flags)"
  unfolding nio_send_def by (intro keeps_nio_rules)

lemma keeps_nio_sendto:
  "fn_quiet (\<lambda>f. \<forall>socket buf len flags addr addrlen. quiet (f socket buf len flags addr addrlen)) fn_ptr \<Longrightarrow> keeps I (nio_sendto C W fn_ptr socket buf len flags addr addrlen)"
  unfolding nio_sendto_def by (intro keeps_nio_rules)

lemma keeps_nio_write:
  "fn_quiet (\<lambda>f. \<forall>fd buf cnt. quiet (f fd buf cnt)) fn_ptr \<Longrightarrow> keeps I (nio_write C W fn_ptr fd buf cnt)"
  unfolding nio_write_def by (intro keeps_nio_rules)

lemma keeps_nio_pwrite:
  "fn_quiet (\<lambda>f. \<forall>fd buf cnt offset. quiet (f fd buf cnt offset)) fn_ptr \<Longrightarrow> keeps I (nio_pwrite C W fn_ptr fd buf cnt offset)"
  unfolding nio_pwrite_def by (intro keeps_nio_rules)

lemma keeps_nio_writev:
  "fn_quiet (\<lambda>f. \<forall>fd iov iovcnt. quiet (f fd iov iovcnt)) fn_ptr \<Longrightarrow> keeps I (nio_writev C W fn_ptr fd iov iovcnt)"
  unfolding nio_writev_def by (intro keeps_nio_rules)

lemma keeps_nio_pwritev:
  "fn_quiet (\<lambda>f. \<forall>fd iov iovcnt offset. quiet (f fd iov iovcnt offset)) fn_ptr \<Longrightarrow> keeps I (nio_pwritev C W fn_ptr fd iov iovcnt offset)"
  unfolding nio_pwritev_def by (intro keeps_nio_rules)

lemma keeps_nio_sendmsg:
  "fn_quiet (\<lambda>f. \<forall>fd msg flags. quiet (f fd msg flags)) fn_ptr \<Longrightarrow> keeps I (nio_sendmsg frame C W fn_ptr fd msg flags)"
  unfolding nio_sendmsg_def by (intro keeps_nio_rules)

lemma keeps_nio_epoll_ctl:
  "fn_quiet (\<lambda>f. \<forall>epfd op fd event. quiet (f epfd op fd event)) fn_ptr \<Longrightarrow> keeps I (nio_epoll_ctl C fn_ptr epfd op fd event)"
  unfolding nio_epoll_ctl_def by (intro keeps_nio_rules)

lemma keeps_nio_accept4:
  "fn_quiet (\<lambda>f. \<forall>fd addr len flg. quiet (f fd addr len flg)) fn_ptr \<Longrightarrow> keeps I (nio_accept4 C W fn_ptr fd addr len flg)"
  unfolding nio_accept4_def by (intro keeps_nio_rules)

end

subsection \<open>Before and after a call\<close>

text \<open>\<open>who\<close> is the name of the current coroutine, if there is one.\<close>

definition in_call :: "syscall \<Rightarrow> string option \<Rightarrow> (('k, unit, 'r, 'l) coroutine, 'z) io_scheme \<Rightarrow> bool" where
  "in_call sc who s \<longleftrightarrow>
     (case cur s of None \<Rightarrow> who = None | Some co \<Rightarrow> who = Some (co_name co) \<and> co_state co = SystemCall () sc Sys_Computing)"

definition at_rest :: "string option \<Rightarrow> (('k, unit, 'r, 'l) coroutine, 'z) io_scheme \<Rightarrow> bool" where
  "at_rest who s \<longleftrightarrow>
     (case cur s of None \<Rightarrow> who = None | Some co \<Rightarrow> who = Some (co_name co) \<and> co_state co = Running)"

definition call_balanced :: "string option \<Rightarrow> ('a, 'e, (('k, unit, 'r, 'l) coroutine, 'z) io_scheme) prog \<Rightarrow> bool" where
  "call_balanced who p \<longleftrightarrow> (\<forall>s r t. at_rest who s \<longrightarrow> p s = Some (Ok r, t) \<longrightarrow> at_rest who t)"

lemma begin_call_enters:
  assumes "at_rest who s"
  shows "\<exists>t. begin_call sc s = Some (Ok (), t) \<and> in_call sc who t"
  using assms
  by (cases "cur s")
    (simp_all add: at_rest_def in_call_def begin_call_def on_current_def syscall_init_current_def co_syscall_def
      co_state_of_def Let_def)

lemma end_call_leaves:
  assumes "in_call sc who s"
  shows "\<exists>t. end_call sc s = Some (Ok (), t) \<and> at_rest who t"
  using assms
  by (cases "cur s")
    (simp_all add: at_rest_def in_call_def end_call_def on_current_def syscall_clean_current_def co_syscall_def
      co_syscall_resume_def co_state_of_def andThen_def upd_def Let_def)

lemma change_state_balanced:
  assumes "keeps (in_call sc who) call"
  shows "call_balanced who (change_state sc call)"
  unfolding call_balanced_def
proof (intro allI impI)
  fix s r t
  assume s: "at_rest who s" and r: "change_state sc call s = Some (Ok r, t)"
  from begin_call_enters [OF s, of sc] obtain u
    where u: "begin_call sc s = Some (Ok (), u)" "in_call sc who u" by blast
  with r have "andThen call (\<lambda>r. andThen (end_call sc) (\<lambda>_. ret r)) u = Some (Ok r, t)"
    by (simp add: change_state_def andThen_def [of "begin_call sc"])
  then obtain a v where v: "call u = Some (Ok a, v)" "andThen (end_call sc) (\<lambda>_. ret a) v = Some (Ok r, t)"
    by (cases rule: andThen_SomeE) simp_all
  from keeps_Ok [OF assms u(2) v(1)] have "in_call sc who v" .
  from end_call_leaves [OF this] v(2) show "at_rest who t"
    by (auto simp: andThen_def ret_def)
qed

text \<open>A call from within another call, with a coroutine, is refused: the process panics.\<close>

lemma nested_call_panics:
  assumes "in_call sc (Some n) s" and "sc' \<noteq> sc"
  shows "\<exists>t. change_state sc' call s = Some (Panic ''change to syscall state failed !'', t)"
  using assms
  by (auto simp: in_call_def change_state_def begin_call_def on_current_def syscall_init_current_def co_syscall_def
      co_state_of_def andThen_def upd_def Let_def split: option.splits)

text \<open>
  The stack of current calls belongs to the thread, and coroutines that wait in their calls do not take turns like a
  stack: when the call that began first ends first, the stack names it as the current one and forgets the other.
\<close>

lemma interleaved_calls_swap:
  "syscall_current (syscall_clean_current (syscall_init_current b (syscall_init_current a w))) = Some a"
  by (simp add: syscall_current_def syscall_clean_current_def syscall_init_current_def front_def)

lemma in_call_layer:
  "libc_quiet C \<Longrightarrow> waits_keep (in_call sc who) W \<Longrightarrow> call_layer (in_call sc who) C W"
  by unfold_locales (auto simp: in_call_def)

lemma libc_quiet_fn:
  "libc_quiet C \<Longrightarrow> fn_quiet (\<lambda>f. \<forall>secs. quiet (f secs)) (Some (lc_sleep C))"
  "libc_quiet C \<Longrightarrow> fn_quiet (\<lambda>f. \<forall>microseconds. quiet (f microseconds)) (Some (lc_usleep C))"
  "libc_quiet C \<Longrightarrow> fn_quiet (\<lambda>f. \<forall>rqtp rmtp. quiet (f rqtp rmtp)) (Some (lc_nanosleep C))"
  "libc_quiet C \<Longrightarrow> fn_quiet (\<lambda>f. \<forall>fds nfds timeout. quiet (f fds nfds timeout)) (Some (lc_poll C))"
  "libc_quiet C \<Longrightarrow> fn_quiet (\<lambda>f. \<forall>nfds readfds writefds errorfds timeout. quiet (f nfds readfds writefds errorfds timeout)) (Some (lc_select C))"
  "libc_quiet C \<Longrightarrow> fn_quiet (\<lambda>f. \<forall>domain ty protocol. quiet (f domain ty protocol)) (Some (lc_socket C))"
  "libc_quiet C \<Longrightarrow> fn_quiet (\<lambda>f. \<forall>socket backlog. quiet (f socket backlog)) (Some (lc_listen C))"
  "libc_quiet C \<Longrightarrow> fn_quiet (\<lambda>f. \<forall>socket address address_len. quiet (f socket address address_len)) (Some (lc_accept C))"
  "libc_quiet C \<Longrightarrow> fn_quiet (\<lambda>f. \<forall>socket address len. quiet (f socket address len)) (Some (lc_connect C))"
  "libc_quiet C \<Longrightarrow> fn_quiet (\<lambda>f. \<forall>socket how. quiet (f socket how)) (Some (lc_shutdown C))"
  "libc_quiet C \<Longrightarrow> fn_quiet (\<lambda>f. \<forall>fd. quiet (f fd)) (Some (lc_close C))"
  "libc_quiet C \<Longrightarrow> fn_quiet (\<lambda>f. \<forall>socket buf len flags. quiet (f socket buf len flags)) (Some (lc_recv C))"
  "libc_quiet C \<Longrightarrow> fn_quiet (\<lambda>f. \<forall>socket buf len flags addr addrlen. quiet (f socket buf len flags addr addrlen)) (Some (lc_recvfrom C))"
  "libc_quiet C \<Longrightarrow> fn_quiet (\<lambda>f. \<forall>fd buf cnt. quiet (f fd buf cnt)) (Some (lc_read C))"
  "libc_quiet C \<Longrightarrow> fn_quiet (\<lambda>f. \<forall>fd buf cnt offset. quiet (f fd buf cnt offset)) (Some (lc_pread C))"
  "libc_quiet C \<Longrightarrow> fn_quiet (\<lambda>f. \<forall>fd iov iovcnt. quiet (f fd iov iovcnt)) (Some (lc_readv C))"
  "libc_quiet C \<Longrightarrow> fn_quiet (\<lambda>f. \<forall>fd iov iovcnt offset. quiet (f fd iov iovcnt offset)) (Some (lc_preadv C))"
  "libc_quiet C \<Longrightarrow> fn_quiet (\<lambda>f. \<forall>fd msg flags. quiet (f fd msg flags)) (Some (lc_recvmsg C))"
  "libc_quiet C \<Longrightarrow> fn_quiet (\<lambda>f. \<forall>socket buf len flags. quiet (f socket buf len flags)) (Some (lc_send C))"
  "libc_quiet C \<Longrightarrow> fn_quiet (\<lambda>f. \<forall>socket buf len flags addr addrlen. quiet (f socket buf len flags addr addrlen)) (Some (lc_sendto C))"
  "libc_quiet C \<Longrightarrow> fn_quiet (\<lambda>f. \<forall>fd buf cnt. quiet (f fd buf cnt)) (Some (lc_write C))"
  "libc_quiet C \<Longrightarrow> fn_quiet (\<lambda>f. \<forall>fd buf cnt offset. quiet (f fd buf cnt offset)) (Some (lc_pwrite C))"
  "libc_quiet C \<Longrightarrow> fn_quiet (\<lambda>f. \<forall>fd iov iovcnt. quiet (f fd iov iovcnt)) (Some (lc_writev C))"
  "libc_quiet C \<Longrightarrow> fn_quiet (\<lambda>f. \<forall>fd iov iovcnt offset. quiet (f fd iov iovcnt offset)) (Some (lc_pwritev C))"
  "libc_quiet C \<Longrightarrow> fn_quiet (\<lambda>f. \<forall>fd msg flags. quiet (f fd msg flags)) (Some (lc_sendmsg C))"
  "libc_quiet C \<Longrightarrow> fn_quiet (\<lambda>f. \<forall>epfd op fd event. quiet (f epfd op fd event)) (Some (lc_epoll_ctl C))"
  "libc_quiet C \<Longrightarrow> fn_quiet (\<lambda>f. \<forall>fd addr len flg. quiet (f fd addr len flg)) (Some (lc_accept4 C))"
  by (simp_all add: libc_quiet_def)

text \<open>The layers above the non-blocking one, and what the non-blocking layer keeps, call by call.\<close>

lemmas layer_defs =
  hook_sleep_def hook_usleep_def hook_nanosleep_def hook_poll_def hook_select_def hook_socket_def
  hook_listen_def hook_accept_def hook_connect_def hook_shutdown_def hook_recv_def hook_recvfrom_def
  hook_pread_def hook_readv_def hook_preadv_def hook_recvmsg_def hook_send_def hook_sendto_def
  hook_pwrite_def hook_writev_def hook_pwritev_def hook_sendmsg_def hook_accept4_def facade_sleep_def
  facade_usleep_def facade_nanosleep_def facade_poll_def facade_select_def facade_socket_def facade_listen_def
  facade_accept_def facade_connect_def facade_shutdown_def facade_close_def facade_recv_def facade_recvfrom_def
  facade_read_def facade_pread_def facade_readv_def facade_preadv_def facade_recvmsg_def facade_send_def
  facade_sendto_def facade_write_def facade_pwrite_def facade_writev_def facade_pwritev_def facade_sendmsg_def
  facade_epoll_ctl_def facade_accept4_def state_sleep_def state_usleep_def state_nanosleep_def state_poll_def
  state_select_def state_socket_def state_listen_def state_accept_def state_connect_def state_shutdown_def
  state_close_def state_recv_def state_recvfrom_def state_read_def state_pread_def state_readv_def
  state_preadv_def state_recvmsg_def state_send_def state_sendto_def state_write_def state_pwrite_def
  state_writev_def state_pwritev_def state_sendmsg_def state_epoll_ctl_def state_accept4_def

lemmas layer_keeps =
  call_layer.keeps_nio_sleep call_layer.keeps_nio_usleep call_layer.keeps_nio_nanosleep call_layer.keeps_nio_poll
  call_layer.keeps_nio_select call_layer.keeps_nio_socket call_layer.keeps_nio_listen call_layer.keeps_nio_accept
  call_layer.keeps_nio_connect call_layer.keeps_nio_shutdown call_layer.keeps_nio_close call_layer.keeps_nio_recv
  call_layer.keeps_nio_recvfrom call_layer.keeps_nio_read call_layer.keeps_nio_pread call_layer.keeps_nio_readv
  call_layer.keeps_nio_preadv call_layer.keeps_nio_recvmsg call_layer.keeps_nio_send call_layer.keeps_nio_sendto
  call_layer.keeps_nio_write call_layer.keeps_nio_pwrite call_layer.keeps_nio_writev call_layer.keeps_nio_pwritev
  call_layer.keeps_nio_sendmsg call_layer.keeps_nio_epoll_ctl call_layer.keeps_nio_accept4

text \<open>
  C1: Every system call of the chain gives the coroutine back as it found it. If the C library leaves the current coroutine
  alone, and the waits on the event loops give a coroutine back in the call it waits in, then each function that replaces
  one of the C library, called by a running coroutine (or by a thread without one), returns with that coroutine running.
\<close>

theorem calls_return_to_running:
  assumes libc: "libc_quiet C" and waits: "\<And>sc. waits_keep (in_call sc who) W"
  shows
   "(\<forall>secs. call_balanced who (hook_sleep W (lc_sleep C) secs)) \<and>
    (\<forall>microseconds. call_balanced who (hook_usleep W (lc_usleep C) microseconds)) \<and>
    (\<forall>rqtp rmtp. call_balanced who (hook_nanosleep W (lc_nanosleep C) rqtp rmtp)) \<and>
    (\<forall>fds nfds timeout. call_balanced who (hook_poll C W (lc_poll C) fds nfds timeout)) \<and>
    (\<forall>frame nfds readfds writefds errorfds timeout. call_balanced who (hook_select frame C W (lc_select C) nfds readfds writefds errorfds timeout)) \<and>
    (\<forall>domain ty protocol. call_balanced who (hook_socket C (lc_socket C) domain ty protocol)) \<and>
    (\<forall>socket backlog. call_balanced who (hook_listen C (lc_listen C) socket backlog)) \<and>
    (\<forall>socket address address_len. call_balanced who (hook_accept C W (lc_accept C) socket address address_len)) \<and>
    (\<forall>socket address len. call_balanced who (hook_connect C W (lc_connect C) socket address len)) \<and>
    (\<forall>socket how. call_balanced who (hook_shutdown C W (lc_shutdown C) socket how)) \<and>
    (\<forall>fd. call_balanced who (facade_close C W None fd)) \<and>
    (\<forall>socket buf len flags. call_balanced who (hook_recv C W (lc_recv C) socket buf len flags)) \<and>
    (\<forall>socket buf len flags addr addrlen. call_balanced who (hook_recvfrom C W (lc_recvfrom C) socket buf len flags addr addrlen)) \<and>
    (\<forall>fd buf cnt. call_balanced who (facade_read C W None fd buf cnt)) \<and>
    (\<forall>fd buf cnt offset. call_balanced who (hook_pread C W (lc_pread C) fd buf cnt offset)) \<and>
    (\<forall>fd iov iovcnt. call_balanced who (hook_readv C W (lc_readv C) fd iov iovcnt)) \<and>
    (\<forall>fd iov iovcnt offset. call_balanced who (hook_preadv C W (lc_preadv C) fd iov iovcnt offset)) \<and>
    (\<forall>frame fd msg flags. call_balanced who (hook_recvmsg frame C W (lc_recvmsg C) fd msg flags)) \<and>
    (\<forall>socket buf len flags. call_balanced who (hook_send C W (lc_send C) socket buf len flags)) \<and>
    (\<forall>socket buf len flags addr addrlen. call_balanced who (hook_sendto C W (lc_sendto C) socket buf len flags addr addrlen)) \<and>
    (\<forall>fd buf cnt. call_balanced who (facade_write C W None fd buf cnt)) \<and>
    (\<forall>fd buf cnt offset. call_balanced who (hook_pwrite C W (lc_pwrite C) fd buf cnt offset)) \<and>
    (\<forall>fd iov iovcnt. call_balanced who (hook_writev C W (lc_writev C) fd iov iovcnt)) \<and>
    (\<forall>fd iov iovcnt offset. call_balanced who (hook_pwritev C W (lc_pwritev C) fd iov iovcnt offset)) \<and>
    (\<forall>frame fd msg flags. call_balanced who (hook_sendmsg frame C W (lc_sendmsg C) fd msg flags)) \<and>
    (\<forall>epfd op fd event. call_balanced who (facade_epoll_ctl C None epfd op fd event)) \<and>
    (\<forall>fd addr len flg. call_balanced who (hook_accept4 C W (lc_accept4 C) fd addr len flg))"
  unfolding layer_defs
  by (intro conjI allI change_state_balanced;
      (rule layer_keeps; (rule in_call_layer [OF libc waits] libc_quiet_fn [OF libc] fn_quiet_simps)))

end
