(* ===== verification/BlockingMode.thy ===== *)
theory BlockingMode
  imports NioClaims CallState
begin

text \<open>
  The blocking mode of a descriptor during and after a system call, and \<open>connect\<close>. The locale \<open>fcntl_modes\<close> says what
  \<^verbatim>\<open>fcntl\<close> is documented to do: \<^verbatim>\<open>F_GETFL\<close> gives the flags of an open descriptor, \<^verbatim>\<open>F_SETFL\<close> changes
  \<^verbatim>\<open>O_NONBLOCK\<close> among them.
\<close>

unbundle bit_operations_syntax

lemma bit_O_NONBLOCK: "bit O_NONBLOCK n \<longleftrightarrow> n = 11"
proof -
  have eq: "O_NONBLOCK = 2 ^ 11" by (simp add: O_NONBLOCK_def)
  have "bit (2 ^ 11 :: c_int) n \<longleftrightarrow> n < 32 \<and> 11 = n" unfolding bit_exp_iff by (simp add: possible_bit_word)
  then show ?thesis unfolding eq by auto
qed

lemma non_blocking_iff: "f AND O_NONBLOCK = 0 \<longleftrightarrow> \<not> bit f 11"
proof
  assume "f AND O_NONBLOCK = 0"
  then have "\<not> bit (f AND O_NONBLOCK) 11" by simp
  then show "\<not> bit f 11" by (simp only: bit_and_iff bit_O_NONBLOCK simp_thms)
next
  assume "\<not> bit f 11"
  then show "f AND O_NONBLOCK = 0" by (intro bit_word_eqI) (auto simp only: bit_and_iff bit_O_NONBLOCK bit_0_eq bot_apply bot_bool_def)
qed

lemma or_NONBLOCK_id: "f AND O_NONBLOCK \<noteq> 0 \<Longrightarrow> f OR O_NONBLOCK = f"
  unfolding non_blocking_iff by (intro bit_word_eqI) (auto simp only: bit_or_iff bit_O_NONBLOCK)

lemma clear_NONBLOCK:
  assumes "f AND O_NONBLOCK = 0"
  shows "(f OR O_NONBLOCK) AND NOT O_NONBLOCK = f"
proof (rule bit_word_eqI)
  fix n assume "n < LENGTH(32)"
  then have "bit (NOT O_NONBLOCK) n \<longleftrightarrow> n \<noteq> 11" by (simp only: bit_not_iff bit_O_NONBLOCK possible_bit_word simp_thms)
  then show "bit ((f OR O_NONBLOCK) AND NOT O_NONBLOCK) n = bit f n"
    using assms unfolding non_blocking_iff by (auto simp only: bit_and_iff bit_or_iff bit_O_NONBLOCK)
qed

locale fcntl_modes =
  fixes C :: "'s libc_ops"
    and mode :: "'s \<Rightarrow> c_int \<Rightarrow> c_int option"
  assumes getfl: "mode s fd = Some f \<Longrightarrow> fst (lc_fcntl_getfl C fd s) = f \<and> \<not> f <s 0"
    and getfl_keeps: "mode (snd (lc_fcntl_getfl C fd s)) = mode s"
    and setfl: "mode s fd = Some f \<Longrightarrow> v = f OR O_NONBLOCK \<or> v = f AND NOT O_NONBLOCK \<Longrightarrow>
      fst (lc_fcntl_setfl C fd v s) = 0 \<and> mode (snd (lc_fcntl_setfl C fd v s)) = (mode s)(fd \<mapsto> v)"
begin

lemma is_blocking_spec:
  assumes "mode s fd = Some f"
  shows "fst (is_blocking C fd s) = (f AND O_NONBLOCK = 0)" "mode (snd (is_blocking C fd s)) = mode s"
  using getfl [OF assms] by (simp_all add: is_blocking_def is_non_blocking_def case_prod_beta getfl_keeps)

lemma set_flag_spec:
  assumes "mode s fd = Some f"
  shows "fst (set_non_blocking_flag C fd on s)"
    "mode (snd (set_non_blocking_flag C fd on s)) =
      (mode s)(fd \<mapsto> if on then f OR O_NONBLOCK else f AND NOT O_NONBLOCK)"
proof -
  let ?s = "snd (lc_fcntl_getfl C fd s)" and ?v = "if on then f OR O_NONBLOCK else f AND NOT O_NONBLOCK"
  have "mode ?s fd = Some f" using assms by (simp add: getfl_keeps)
  from setfl [OF this, of ?v] have
    "fst (lc_fcntl_setfl C fd ?v ?s) = 0" "mode (snd (lc_fcntl_setfl C fd ?v ?s)) = (mode s)(fd \<mapsto> ?v)"
    by (auto simp: getfl_keeps)
  with getfl [OF assms] show "fst (set_non_blocking_flag C fd on s)"
    "mode (snd (set_non_blocking_flag C fd on s)) = (mode s)(fd \<mapsto> ?v)"
    by (cases on; simp add: set_non_blocking_flag_def case_prod_beta)+
qed

text \<open>Where the block of the macro starts, and what follows it.\<close>

lemma impl_non_blocking_enters:
  assumes "mode s fd = Some f"
  shows "\<exists>t. mode t fd = Some (f OR O_NONBLOCK) \<and>
    impl_non_blocking C fd impls s =
      andThen impls (\<lambda>res. case res of Inl r \<Rightarrow> ret r
        | Inr r \<Rightarrow> andThen (if f AND O_NONBLOCK = 0 then set_blocking C fd else ret ()) (\<lambda>_. ret r)) t"
proof -
  let ?s = "snd (is_blocking C fd s)"
  note b = is_blocking_spec [OF assms]
  have m: "mode ?s fd = Some f" using assms b by simp
  show ?thesis
  proof (cases "f AND O_NONBLOCK = 0")
    case True
    with b set_flag_spec [OF m, of True] show ?thesis
      by (intro exI [of _ "snd (set_non_blocking_flag C fd True ?s)"])
        (simp add: impl_non_blocking_def set_non_blocking_def andThen_assoc)
  next
    case False
    with b m show ?thesis
      by (intro exI [of _ ?s]) (simp add: impl_non_blocking_def or_NONBLOCK_id)
  qed
qed

lemma restore_mode:
  assumes "mode t fd = Some (f OR O_NONBLOCK)"
  shows "\<exists>t'. andThen (if f AND O_NONBLOCK = 0 then set_blocking C fd else ret ()) (\<lambda>_. ret r) t = Some (Ok r, t') \<and>
    mode t' fd = Some f"
proof (cases "f AND O_NONBLOCK = 0")
  case True
  with set_flag_spec [OF assms, of False] show ?thesis
    by (intro exI [of _ "snd (set_non_blocking_flag C fd False t)"])
      (simp add: set_blocking_def andThen_assoc clear_NONBLOCK ret_def)
next
  case False
  with assms show ?thesis by (simp add: or_NONBLOCK_id ret_def)
qed

end

lemma impl_nio_enters:
  assumes "fcntl_modes C mode" and "mode s fd = Some f"
  obtains t where "mode t fd = Some (f OR O_NONBLOCK)"
    "impl_nio C wait fd call s =
      andThen (nio_loop (\<lambda>added. wait fd added (Some (10 * ms))) call False)
        (\<lambda>r. andThen (if f AND O_NONBLOCK = 0 then set_blocking C fd else ret ()) (\<lambda>_. ret r)) t"
proof -
  let ?loop = "nio_loop (\<lambda>added. wait fd added (Some (10 * ms))) call False"
  from fcntl_modes.impl_non_blocking_enters [OF assms, of "andThen ?loop (\<lambda>r. ret (Inr r))"] that show thesis
    unfolding impl_nio_def by (auto simp: andThen_assoc)
qed

text \<open>
  C13: A system call of the non-blocking layer runs on a non-blocking descriptor and leaves the descriptor in the mode it
  found it in. If neither the call nor the waits change the mode, then the loop runs in a state in which the descriptor is
  non-blocking; when the loop returns, the whole call returns the same value; and whenever the whole call returns, the flags
  are what they were before it.
\<close>

theorem blocking_mode_restored:
  assumes "fcntl_modes C mode" and "mode s fd = Some f"
    and "\<And>m. keeps (\<lambda>s. mode s fd = m) call" and "\<And>m b d. keeps (\<lambda>s. mode s fd = m) (wait fd b d)"
    and "\<And>s. mode (reset_errno s) fd = mode s fd"
  shows "\<exists>t. mode t fd = Some (f OR O_NONBLOCK) \<and>
    (\<forall>r t'. nio_loop (\<lambda>added. wait fd added (Some (10 * ms))) call False t = Some (Ok r, t') \<longrightarrow>
      (\<exists>s'. impl_nio C wait fd call s = Some (Ok r, s'))) \<and>
    (\<forall>r s'. impl_nio C wait fd call s = Some (Ok r, s') \<longrightarrow> mode s' fd = Some f)"
proof -
  let ?loop = "nio_loop (\<lambda>added. wait fd added (Some (10 * ms))) call False"
  from impl_nio_enters [OF assms(1,2)] obtain t where t: "mode t fd = Some (f OR O_NONBLOCK)"
    "impl_nio C wait fd call s =
      andThen ?loop (\<lambda>r. andThen (if f AND O_NONBLOCK = 0 then set_blocking C fd else ret ()) (\<lambda>_. ret r)) t" .
  have "keeps (\<lambda>s. mode s fd = m) ?loop" for m by (intro keeps_nio_loop assms) (simp add: assms(5))
  from keeps_Ok [OF this] t(1) have loop: "mode t' fd = Some (f OR O_NONBLOCK)" if "?loop t = Some (Ok r, t')" for r t'
    using that by blast
  have whole: "\<exists>s'. impl_nio C wait fd call s = Some (Ok r, s') \<and> mode s' fd = Some f"
    if "?loop t = Some (Ok r, t')" for r t'
    using fcntl_modes.restore_mode [OF assms(1) loop [OF that], of r] that t(2) by (simp add: andThen_def [of ?loop])
  have "mode s' fd = Some f" if "impl_nio C wait fd call s = Some (Ok r, s')" for r s'
  proof -
    from that [unfolded t(2)] obtain a t' where "?loop t = Some (Ok a, t')"
      by (cases rule: andThen_SomeE) simp_all
    from whole [OF this] that show ?thesis by auto
  qed
  with whole t(1) show ?thesis by blast
qed

text \<open>
  The other way out of the macro: when \<open>connect\<close> succeeds at once, the code returns from inside the block, and a blocking
  socket stays non-blocking.
\<close>

lemma connect_leaves_non_blocking:
  assumes "fcntl_modes C mode" and "mode s fd = Some f" and "\<And>t. mode (reset_errno t) = mode t"
    and "\<And>t. \<exists>t'. raw_connect C fn_ptr fd address len t = Some (Ok 0, t') \<and> mode t' = mode t"
  shows "\<exists>s'. nio_connect C W fn_ptr fd address len s = Some (Ok 0, s') \<and> mode s' fd = Some (f OR O_NONBLOCK)"
proof -
  let ?impls = "andThen (raw_connect C fn_ptr fd address len) (\<lambda>r.
          if r = 0 then andThen (upd reset_errno) (\<lambda>_. ret (Inl r))
          else
            andThen (connect_loop C W fd False) (\<lambda>r.
            andThen (gets errno) (\<lambda>e.
            andThen (if r = - 1 \<and> e = ETIMEDOUT then upd (set_errno EINPROGRESS) else ret ()) (\<lambda>_.
            ret (Inr r)))))"
  obtain t where t: "mode t fd = Some (f OR O_NONBLOCK)"
    "nio_connect C W fn_ptr fd address len s =
      andThen ?impls (\<lambda>res. case res of Inl r \<Rightarrow> ret r
        | Inr r \<Rightarrow> andThen (if f AND O_NONBLOCK = 0 then set_blocking C fd else ret ()) (\<lambda>_. ret r)) t"
    using fcntl_modes.impl_non_blocking_enters [OF assms(1,2), of ?impls] unfolding nio_connect_def by blast
  obtain t' where "raw_connect C fn_ptr fd address len t = Some (Ok 0, t')" "mode t' = mode t" using assms(4) [of t] by blast
  with t assms(3) show ?thesis
    by (intro exI [of _ "reset_errno t'"])
      (simp add: andThen_assoc andThen_def [of "raw_connect C fn_ptr fd address len"] ret_def)
qed

text \<open>When \<open>connect\<close> is interrupted by a signal, the loop turns for ever: nothing in it changes \<open>errno\<close>.\<close>

lemma connect_loop_spins:
  assumes "errno s = EINTR"
  shows "connect_loop C W socket added s = None"
proof (rule ccontr)
  assume "connect_loop C W socket added s \<noteq> None"
  then obtain y where "connect_loop C W socket added s = Some y" by blast
  then have "errno s \<noteq> EINTR"
  proof (rule connect_loop.raw_induct [where P = "\<lambda>C W socket added s y. errno s \<noteq> EINTR", rotated], goal_cases)
    case (1 loop C W socket added s y)
    show ?case
    proof
      assume e: "errno s = EINTR"
      with 1(2) have "loop C W socket added s = Some y" by (simp add: errnos)
      from 1(1) [OF this] e show False by simp
    qed
  qed
  with assms show False by simp
qed

end
