(* ===== verification/LoopClaims.thy ===== *)
theory LoopClaims
  imports EventLoops CallState
begin

text \<open>
  What the event loops promise to the system calls: a coroutine that waits in a call on the loops comes back in that call.
  The other threads and coroutines that run while it waits are the parameter \<open>yield\<close>, of which the contract of the
  scheduler is assumed: a suspended coroutine is resumed in its call, by an event or by its deadline.
\<close>

subsection \<open>Moving between the states of a call\<close>

definition at_call :: "syscall \<Rightarrow> (syscall_state \<Rightarrow> bool) \<Rightarrow> string \<Rightarrow> (('k, unit, 'r, 'l) coroutine, 'z) io_scheme \<Rightarrow> bool" where
  "at_call sc Q n s \<longleftrightarrow>
     (case cur s of
        None \<Rightarrow> False
      | Some co \<Rightarrow> n = co_name co \<and> (case co_state co of SystemCall _ sc' st \<Rightarrow> sc' = sc \<and> Q st | _ \<Rightarrow> False))"

lemma at_callE:
  assumes "at_call sc Q n s"
  obtains co st where "cur s = Some co" "co_name co = n" "co_state co = SystemCall () sc st" "Q st"
  using assms unfolding at_call_def by (auto split: option.splits coroutine_state.splits)

lemma in_call_at: "in_call sc (Some n) s \<longleftrightarrow> at_call sc (\<lambda>st. st = Sys_Computing) n s"
  by (auto simp: in_call_def at_call_def split: option.splits coroutine_state.splits)

lemma at_call_mono: "at_call sc Q n s \<Longrightarrow> (\<And>st. Q st \<Longrightarrow> Q' st) \<Longrightarrow> at_call sc Q' n s"
  by (auto simp: at_call_def split: option.splits coroutine_state.splits)

lemma at_call_cur: "cur t = cur s \<Longrightarrow> at_call sc Q n t = at_call sc Q n s"
  by (simp add: at_call_def)

text \<open>\<open>moves I p J\<close>: started in \<open>I\<close>, the program ends with a value in \<open>J\<close> or it panics.\<close>

definition moves :: "('s \<Rightarrow> bool) \<Rightarrow> ('a, 'e, 's) prog \<Rightarrow> ('s \<Rightarrow> bool) \<Rightarrow> bool" where
  "moves I p J \<longleftrightarrow> (\<forall>s r t. I s \<longrightarrow> p s = Some (r, t) \<longrightarrow> (case r of Ok _ \<Rightarrow> J t | Err _ \<Rightarrow> False | Panic _ \<Rightarrow> True))"

definition ends :: "('s \<Rightarrow> bool) \<Rightarrow> ('a, 'e, 's) prog \<Rightarrow> ('s \<Rightarrow> bool) \<Rightarrow> bool" where
  "ends I p J \<longleftrightarrow> (\<forall>s y. I s \<longrightarrow> p s = Some y \<longrightarrow> left_in J y)"

lemma keeps_ends: "keeps I p \<longleftrightarrow> ends I p I"
  by (simp add: keeps_def ends_def)

lemma ends_andThen:
  assumes "moves I p J" and "\<And>a. ends J (k a) K"
  shows "ends I (andThen p k) K"
  using assms unfolding moves_def ends_def
  by (fastforce simp: andThen_def split: option.splits outcome.splits)

lemma moves_andThen:
  assumes "moves I p J" and "\<And>a. moves J (k a) K"
  shows "moves I (andThen p k) K"
  using assms unfolding moves_def
  by (fastforce simp: andThen_def split: option.splits outcome.splits)

lemma ends_case_prod: "(\<And>a b. ends I (p a b) K) \<Longrightarrow> ends I (case x of (a, b) \<Rightarrow> p a b) K"
  by (cases x) simp

lemma moves_upd: "(\<And>s. I s \<Longrightarrow> J (f s)) \<Longrightarrow> moves I (upd f) J"
  by (simp add: moves_def upd_def)

lemma moves_ret: "(\<And>s. I s \<Longrightarrow> J s) \<Longrightarrow> moves I (ret a) J"
  by (simp add: moves_def ret_def)

abbreviation el_in :: "('w \<Rightarrow> bool) \<Rightarrow> 'x \<times> 'w \<Rightarrow> bool" where
  "el_in I \<equiv> (\<lambda>(x, w). I w)"

lemma moves_set_call_state:
  assumes "\<And>st'. Q st' \<Longrightarrow> expected sc st'"
  shows "moves (el_in (at_call sc Q n)) (on_thread (set_call_state expected running st)) (el_in (at_call sc (\<lambda>x. x = st) n))"
  using assms
  by (auto simp: moves_def on_thread_def set_call_state_def co_syscall_def co_state_of_def at_call_def Let_def
      split: option.splits coroutine_state.splits prod.splits if_splits)

subsection \<open>What is assumed of the scheduler and the pool\<close>

definition resumes :: "('el \<times> (('k, unit, 'r, 'l) coroutine, 'z) io_scheme \<Rightarrow> 'el \<times> (('k, unit, 'r, 'l) coroutine, 'z) io_scheme) \<Rightarrow> bool" where
  "resumes yield \<longleftrightarrow>
     (\<forall>e w sc n ts. at_call sc (\<lambda>st. st = Sys_Suspend ts) n w \<longrightarrow>
        at_call sc (\<lambda>st. st = Sys_Computing \<or> st = Sys_Timeout) n (snd (yield (e, w))))"

lemma resumesD:
  "resumes yield \<Longrightarrow> at_call sc (\<lambda>st. st = Sys_Suspend ts) n w \<Longrightarrow> yield (e, w) = (e', w') \<Longrightarrow>
    at_call sc (\<lambda>st. st = Sys_Computing \<or> st = Sys_Timeout) n w'"
  unfolding resumes_def by (metis snd_conv)

definition resume_quiet where
  "resume_quiet PO \<longleftrightarrow>
     (\<forall>nm p w. cur (snd (leave (snd (po_try_resume PO nm (enter p w))))) = cur w)"

lemma cur_leave_enter [simp]: "cur (snd (leave (enter p w))) = cur w"
  by (cases w) (simp add: leave_def enter_def pool.defs tls.defs)

lemma cur_tls_more: "tls.more s = tls.more t \<Longrightarrow> cur s = cur t"
  by (cases s, cases t) simp

lemma cur_leave_more: "pool.more s = pool.more t \<Longrightarrow> cur (snd (leave s)) = cur (snd (leave t))"
  by (rule cur_tls_more) (simp add: leave_def pool.defs tls.defs)

text \<open>The pool of the development has that property: it does not look beyond its own state.\<close>

lemma pool_try_resume_more: "pool.more (snd (pool_try_resume Q D nm s)) = pool.more s"
  by (auto simp: pool_try_resume_def try_resume_def push_ready_def Let_def
      split: prod.splits option.splits coroutine_state.splits outcome.splits)

lemma model_pool_resume_quiet: "resume_quiet (model_pool T Q D L E V f alloc page_size uuid worker local_default run others)"
  by (simp add: resume_quiet_def model_pool_def Let_def cur_leave_more [OF pool_try_resume_more])

subsection \<open>Waiting on one loop\<close>

lemma cur_delay_with [simp]: "cur (delay_with d w) = cur w"
  by (simp add: delay_with_def until_with_def get_timeout_time_def now_def Let_def split: option.splits)

lemma moves_timeout_after: "moves (el_in (at_call sc Q n)) (on_thread (timeout_after d)) (el_in (at_call sc Q n))"
  by (auto simp: moves_def on_thread_def timeout_after_def state_of_def get_timeout_time_def now_def at_call_def Let_def
      split: option.splits prod.splits)

lemma moves_suspend_call:
  assumes "resumes yield"
  shows "moves (el_in (at_call sc Q n)) (suspend_call yield time)
           (el_in (at_call sc (\<lambda>st. st = Sys_Computing \<or> st = Sys_Timeout) n))"
  unfolding suspend_call_def
proof (intro moves_andThen [OF moves_timeout_after] moves_andThen [OF moves_set_call_state] moves_upd)
  fix ts and s :: "'a \<times> (('b, unit, unit, 'c) coroutine, 'd) io_scheme"
  assume "el_in (at_call sc (\<lambda>x. x = Sys_Suspend ts) n) s"
  then have "at_call sc (\<lambda>x. x = Sys_Suspend ts) n (delay_with time (snd s))"
    by (cases s) (simp add: at_call_def)
  with assms show "el_in (at_call sc (\<lambda>st. st = Sys_Computing \<or> st = Sys_Timeout) n)
      (case s of (e, w) \<Rightarrow> yield (e, delay_with time w))"
    by (cases s) (auto intro: resumesD split: prod.splits)
qed simp

lemma keeps_resume_names:
  assumes "resume_quiet PO"
  shows "keeps (el_in (at_call sc Q n)) (resume_names PO events)"
proof (rule keepsI)
  fix s y
  assume "el_in (at_call sc Q n) s" and "resume_names PO events s = Some y"
  then show "left_in (el_in (at_call sc Q n)) y"
  proof (induction events arbitrary: s)
    case Nil
    then show ?case by auto
  next
    case (Cons event events)
    obtain e w where s: "s = (e, w)" by fastforce
    show ?case
    proof (cases "map_name (ev_key event) w")
      case None
      with Cons.IH [of "(e, w)"] Cons.prems s show ?thesis by simp
    next
      case (Some nm)
      obtain r t where t: "po_try_resume PO nm (enter (el_pool e) w) = (r, t)" by fastforce
      with assms have "cur (snd (leave t)) = cur w" unfolding resume_quiet_def by (metis snd_conv)
      from at_call_cur [OF this, of sc Q n] Cons.prems(1) s have "at_call sc Q n (snd (leave t))" by simp
      moreover obtain p w' where p: "leave t = (p, w')" by fastforce
      ultimately have w': "at_call sc Q n w'" by simp
      show ?thesis
      proof (cases r)
        case (Ok u)
        with Cons.prems(2) s Some t p have "resume_names PO events (e\<lparr>el_pool := p\<rparr>, w') = Some y" by simp
        with w' show ?thesis by (intro Cons.IH) simp_all
      qed (use Cons.prems(2) s Some t p in auto)
    qed
  qed
qed

lemma cur_deliver_all: "cur (fold (sel_deliver M) events w) = cur w"
  by (induction events arbitrary: w) (simp_all add: sel_deliver_def Let_def split: prod.splits)

lemma moves_poll_events:
  "moves (el_in (at_call sc Q n)) (poll_events M P timeout) (el_in (at_call sc Q n))"
  by (auto simp: moves_def poll_events_def sel_select_def at_call_def cur_deliver_all split: prod.splits)

lemma moves_gets: "moves I (gets f) I"
  by (simp add: moves_def gets_def)

lemma keeps_wait_just:
  assumes "resumes yield" and "resume_quiet PO"
  shows "keeps (el_in (in_call sc (Some n))) (wait_just M P PO yield timeout)"
proof -
  let ?I = "el_in (at_call sc (\<lambda>st. st = Sys_Computing) n)"
  let ?J = "el_in (at_call sc (\<lambda>st. st = Sys_Computing \<or> st = Sys_Timeout) n)"
  let ?K = "el_in (at_call sc (\<lambda>st. st = Sys_Calling Sys_epoll_wait) n)"
  have wait: "moves ?I (case timeout of
      Some time \<Rightarrow> if a \<and> b then andThen (suspend_call yield time) (\<lambda>_. ret (Some 0)) else ret timeout
    | None \<Rightarrow> ret timeout) ?J" for a b
    by (auto intro!: moves_andThen [OF moves_suspend_call [OF assms(1)]] moves_ret split: option.splits elim: at_call_mono)
  have rest: "ends ?I (case result of
      Ok n \<Rightarrow> andThen (if n > 0 then resume_names PO events else ret ()) (\<lambda>_. ret n)
    | Err x \<Rightarrow> fail (Io x) | Panic m \<Rightarrow> panic m) ?I" for result :: "(usize, 'x) outcome" and events
    unfolding keeps_ends [symmetric] by (intro keeps keeps_resume_names assms)
  have calling: "moves ?J (on_thread (set_call_state (\<lambda>_ st. st = Sys_Computing \<or> st = Sys_Timeout) None
      (Sys_Calling Sys_epoll_wait))) ?K" by (rule moves_set_call_state) simp
  have returns: "moves ?K (on_thread (set_call_state (\<lambda>_ st. case st of Sys_Calling _ \<Rightarrow> True | _ \<Rightarrow> False) None Sys_Computing)) ?I"
    by (rule moves_set_call_state) simp
  show ?thesis
    unfolding in_call_at keeps_ends wait_just_def
    by (rule ends_andThen [OF moves_gets] ends_case_prod ends_andThen [OF wait] ends_andThen [OF calling]
        ends_andThen [OF moves_poll_events] ends_andThen [OF returns] rest)+
qed

lemma keeps_el_wait_event:
  assumes "resumes yield" and "resume_quiet PO"
  shows "keeps (el_in (in_call sc (Some n))) (el_wait_event M P PO yield timeout)"
proof (rule keepsI)
  fix s y
  assume s: "el_in (in_call sc (Some n)) s" and y: "el_wait_event M P PO yield timeout s = Some y"
  then have "wait_just M P PO yield timeout s = Some y"
    by (auto simp: el_wait_event_def in_call_def split: option.splits)
  with keeps_wait_just [OF assms] s show "left_in (el_in (in_call sc (Some n))) y" by (rule keepsD)
qed

subsection \<open>Registrations\<close>

text \<open>The operations of the selector touch the poller and the tables only.\<close>

lemma left_inI: "I t \<Longrightarrow> left_in I (r, t)"
  by (cases r) simp_all

lemma keeps_on_poller [keeps]: "keeps (el_in I) (on_poller f)"
  by (auto simp: keeps_def on_poller_def intro: left_inI split: prod.splits)

lemma keeps_Err: "keeps I p \<Longrightarrow> I s \<Longrightarrow> p s = Some (Err e, t) \<Longrightarrow> I t"
  using keepsD [of I p s "(Err e, t)"] by simp

lemma keeps_or_eager [keeps]:
  assumes "keeps I p" and "keeps I q"
  shows "keeps I (or_eager p q)"
proof (rule keepsI)
  fix s y
  assume s: "I s" and y: "or_eager p q s = Some y"
  have "keeps I (attempt q (\<lambda>_. ret ()))" using assms(2) by (intro keeps)
  with assms s y show "left_in I y"
    by (auto simp: or_eager_def split: option.splits prod.splits outcome.splits intro: keepsD keeps_Ok keeps_Err)
qed

lemma in_call_cur: "cur t = cur s \<Longrightarrow> in_call sc who s \<Longrightarrow> in_call sc who t"
  by (simp add: in_call_def)

lemma keeps_tables:
  assumes "\<And>p w. cur (snd (f (p, w))) = cur w"
  shows "keeps (el_in (in_call sc who)) (upd f)"
proof (rule keeps_upd)
  fix s :: "'a \<times> (('b, unit, 'c, 'd) coroutine, 'e) io_scheme"
  assume "el_in (in_call sc who) s"
  with in_call_cur [OF assms, of sc who "snd s" "fst s"] show "el_in (in_call sc who) (f s)"
    by (simp add: case_prod_beta)
qed

lemma keeps_register [keeps]:
  "keeps (el_in (in_call sc who)) (register M P fd t e)"
  "keeps (el_in (in_call sc who)) (reregister M P fd t e)"
  "keeps (el_in (in_call sc who)) (deregister M P fd t)"
  unfolding register_def reregister_def deregister_def insert_token_fd_def
  by (intro keeps keeps_tables; simp)+

lemma keeps_add_event [keeps]:
  "keeps (el_in (in_call sc who)) (add_read_event M P fd t)" "keeps (el_in (in_call sc who)) (add_write_event M P fd t)"
  unfolding add_read_event_def add_write_event_def
  by (intro keeps keeps_tables; simp)+

lemma keeps_sel_del_event [keeps]: "keeps (el_in (in_call sc who)) (sel_del_event M P fd)"
  unfolding sel_del_event_def
  by (intro keeps keeps_tables; auto simp: remove_tokens_def in_call_def Let_def split: prod.splits)

lemma keeps_clean [keeps]:
  "keeps (el_in (in_call sc who)) (clean_readable M fd)" "keeps (el_in (in_call sc who)) (clean_writable M fd)"
  by (auto simp: keeps_def clean_readable_def clean_writable_def in_call_def Let_def split: prod.splits if_splits)

lemma keeps_sel_del_one [keeps]:
  "keeps (el_in (in_call sc who)) (sel_del_read_event M P fd)" "keeps (el_in (in_call sc who)) (sel_del_write_event M P fd)"
  unfolding sel_del_read_event_def sel_del_write_event_def by (intro keeps)+

lemma keeps_on_selector [keeps]: "keeps (el_in I) q \<Longrightarrow> keeps (el_in I) (on_selector q)"
  by (fastforce simp: keeps_def on_selector_def split: option.splits prod.splits outcome.splits)

lemma keeps_with_token [keeps]:
  assumes "\<And>t. keeps (el_in (in_call sc who)) (f t)"
  shows "keeps (el_in (in_call sc who)) (with_token malloc pthread_self f)"
proof -
  have "keeps (el_in (in_call sc who)) (\<lambda>(e, w). case token malloc pthread_self w of Some (r, w) \<Rightarrow> Some (r, (e, w)) | None \<Rightarrow> None)"
    by (auto simp: keeps_def token_def leak_cstring_def in_call_def Let_def split: option.splits prod.splits if_splits)
  then show ?thesis unfolding with_token_def by (intro keeps assms)
qed

subsection \<open>The loops of the process\<close>

lemma keeps_on_loop [keeps]:
  assumes "keeps (el_in (in_call sc who)) q"
  shows "keeps (in_call sc who) (on_loop i q)"
proof (rule keepsI)
  fix w y
  assume w: "in_call sc who w" and y: "on_loop i q w = Some y"
  then obtain r e w' where q: "q (EVENT_LOOPS w ! i, w) = Some (r, (e, w'))"
    and y': "y = (r, w'\<lparr>EVENT_LOOPS := (EVENT_LOOPS w')[i := e]\<rparr>)"
    by (auto simp: on_loop_def split: option.splits)
  from keepsD [OF assms _ q] w have "left_in (el_in (in_call sc who)) (r, (e, w'))" by simp
  then show "left_in (in_call sc who) y" unfolding y' by (cases r) (simp_all add: in_call_def)
qed

lemma keeps_loops_next [keeps]: "keeps (in_call sc who) (loops_next preemptive skip)"
  by (auto simp: keeps_def loops_next_def in_call_def Let_def split: if_splits)

lemma keeps_each_next [keeps]:
  assumes "\<And>i. keeps (in_call sc who) (f i)"
  shows "keeps (in_call sc who) (each_next preemptive skip f n)"
  by (induction n) (auto intro!: keeps assms)

lemma keeps_for_each_loop [keeps]:
  "(\<And>i. keeps (in_call sc who) (f i)) \<Longrightarrow> keeps (in_call sc who) (for_each_loop preemptive skip f)"
  unfolding for_each_loop_def by (intro keeps)

lemma loops_give_back:
  assumes "resumes yield" and "resume_quiet PO"
  shows "waits_keep (in_call sc (Some n)) (loops_events preemptive M P PO yield malloc pthread_self)"
  unfolding waits_keep_def loops_events_def event_ops.simps loops_wait_event_def loops_wait_read_event_def
    loops_wait_write_event_def loops_del_event_def loops_del_read_event_def loops_del_write_event_def
    el_add_read_event_def el_add_write_event_def el_del_event_def el_del_read_event_def el_del_write_event_def
  by (intro conjI allI keeps keeps_el_wait_event assms)

text \<open>
  C2: A coroutine that waits on the event loops inside a system call comes back in that call. Whether it waits for an event, for
  a descriptor (with the registration that goes with it) or removes a descriptor, and whatever the loop and the poller
  answer: if the wait returns, the same coroutine is current and is computing in the same call, given that the scheduler
  resumes a suspended coroutine in its call and that the pool leaves the current coroutine alone when it wakes another.
\<close>

theorem loops_give_calls_back:
  assumes "resumes yield" and "resume_quiet PO"
  shows "waits_keep (in_call sc (Some n)) (loops_events preemptive M P PO yield malloc pthread_self)"
  using assms by (rule loops_give_back)

end
