(* ===== verification/SelectorClaims.thy ===== *)
theory SelectorClaims
  imports Selector
begin

text \<open>
  The tables of the selector and the poller agree. The locale \<open>poller\<close> states what the poller is documented to do (a
  source is added once, only an added source is modified or deleted, waiting in edge or level mode keeps the
  interest); the locale \<open>selector\<close> adds the maps. \<open>list_poller\<close> is a poller that keeps the promise.
\<close>

locale poller =
  fixes P :: "('po, 'x) poller_ops"
    and interest :: "'po \<Rightarrow> c_int \<rightharpoonup> bool \<times> bool"
  assumes add: "(case pr_add_with_mode P fd e m p of (r, p') \<Rightarrow>
      r = Ok () \<and> interest p fd = None \<and> interest p' = (interest p)(fd \<mapsto> (ev_readable e, ev_writable e)) \<or>
      (\<exists>x. r = Err x) \<and> interest p' = interest p)"
    and modify: "(case pr_modify_with_mode P fd e m p of (r, p') \<Rightarrow>
      r = Ok () \<and> interest p fd \<noteq> None \<and> interest p' = (interest p)(fd \<mapsto> (ev_readable e, ev_writable e)) \<or>
      (\<exists>x. r = Err x) \<and> interest p' = interest p)"
    and delete: "(case pr_delete P fd p of (r, p') \<Rightarrow>
      r = Ok () \<and> interest p fd \<noteq> None \<and> interest p' = (interest p)(fd := None) \<or>
      (\<exists>x. r = Err x) \<and> interest p' = interest p)"
    and wait: "interest (snd (pr_wait P t p)) = interest p"

locale selector = poller P interest
    + fdm: dash_map "nm_fd M" look_fd ok_fd + set: dash_map "nm_set M" look_set ok_set
    + tok: dash_map "nm_token M" look_tok ok_tok
  for P :: "('po, 'x) poller_ops" and interest
    and M :: "('tf, 'ds, 'dt) net_maps" and look_fd ok_fd look_set ok_set look_tok ok_tok

text \<open>The tables, read through the maps' abstraction.\<close>

definition tables_ok where
  "tables_ok look_set ok_fd ok_set look_tok ok_tok w \<longleftrightarrow>
     ok_fd (TOKEN_FD w) \<and> ok_set (READABLE_RECORDS w) \<and> ok_set (WRITABLE_RECORDS w) \<and>
     ok_tok (READABLE_TOKEN_RECORDS w) \<and> ok_tok (WRITABLE_TOKEN_RECORDS w) \<and>
     dom (look_tok (READABLE_TOKEN_RECORDS w)) \<subseteq> dom (look_set (READABLE_RECORDS w)) \<and>
     dom (look_tok (WRITABLE_TOKEN_RECORDS w)) \<subseteq> dom (look_set (WRITABLE_RECORDS w))"

definition registered :: "bool \<Rightarrow> bool \<Rightarrow> (bool \<times> bool) option" where
  "registered r w = (if r \<or> w then Some (r, w) else None)"

definition agree where
  "agree interest look_set ok_fd ok_set look_tok ok_tok = (\<lambda>(p, w).
     tables_ok look_set ok_fd ok_set look_tok ok_tok w \<and>
     (\<forall>fd. interest p fd =
        registered (fd \<in> dom (look_set (READABLE_RECORDS w))) (fd \<in> dom (look_set (WRITABLE_RECORDS w)))))"

text \<open>The operations of a selector as commands.\<close>

datatype sel_op =
    Add_read c_int usize | Add_write c_int usize | Del c_int | Del_read c_int | Del_write c_int
  | Select "duration option"

fun run_op where
  "run_op M P (Add_read fd token) = add_read_event M P fd token"
| "run_op M P (Add_write fd token) = add_write_event M P fd token"
| "run_op M P (Del fd) = sel_del_event M P fd"
| "run_op M P (Del_read fd) = sel_del_read_event M P fd"
| "run_op M P (Del_write fd) = sel_del_write_event M P fd"
| "run_op M P (Select timeout) = andThen (state_of (sel_select M P timeout)) (\<lambda>_. ret ())"

fun run_ops where
  "run_ops M P [] s = s"
| "run_ops M P (x # xs) s = run_ops M P xs (case run_op M P x s of None \<Rightarrow> s | Some (r, s') \<Rightarrow> s')"

context selector
begin

abbreviation "tables \<equiv> tables_ok look_set ok_fd ok_set look_tok ok_tok"
abbreviation "agrees \<equiv> agree interest look_set ok_fd ok_set look_tok ok_tok"

text \<open>Only \<open>TOKEN_FD\<close> changes in a registration, and it plays no part in the agreement.\<close>

definition same_tables where
  "same_tables w w' \<longleftrightarrow> tables w' \<and> READABLE_RECORDS w' = READABLE_RECORDS w \<and> WRITABLE_RECORDS w' = WRITABLE_RECORDS w \<and>
     READABLE_TOKEN_RECORDS w' = READABLE_TOKEN_RECORDS w \<and> WRITABLE_TOKEN_RECORDS w' = WRITABLE_TOKEN_RECORDS w"

lemma same_tables_token_fd: "tables w \<Longrightarrow> same_tables w (w\<lparr>TOKEN_FD := snd (dm_insert (nm_fd M) token fd (TOKEN_FD w))\<rparr>)"
  by (simp add: same_tables_def tables_ok_def fdm.insert_ok)

lemma register_cases:
  assumes "tables w"
  obtains (ok) p' w' where "register M P fd token e (p, w) = Some (Ok (), (p', w'))" "same_tables w w'"
      "interest p fd = None" "interest p' = (interest p)(fd \<mapsto> (ev_readable e, ev_writable e))"
    | (err) x p' where "register M P fd token e (p, w) = Some (Err x, (p', w))" "interest p' = interest p"
proof -
  obtain r p' where r: "pr_add_with_mode P fd e (get_mode P p) p = (r, p')" by (rule prod.exhaust)
  from add [where fd = fd and e = e and m = "get_mode P p" and p = p] r consider
      "r = Ok ()" "interest p fd = None" "interest p' = (interest p)(fd \<mapsto> (ev_readable e, ev_writable e))"
    | x where "r = Err x" "interest p' = interest p" by auto
  then show thesis
  proof cases
    case 1
    with r same_tables_token_fd [OF assms, of token fd] show thesis
      by (intro ok) (auto simp: register_def on_poller_def andThen_def insert_token_fd_def upd_def)
  next
    case 2
    with r show thesis by (intro err [of x p']) (auto simp: register_def on_poller_def andThen_def)
  qed
qed

lemma reregister_cases:
  assumes "tables w"
  obtains (ok) p' w' where "reregister M P fd token e (p, w) = Some (Ok (), (p', w'))" "same_tables w w'"
      "interest p fd \<noteq> None" "interest p' = (interest p)(fd \<mapsto> (ev_readable e, ev_writable e))"
    | (err) x p' where "reregister M P fd token e (p, w) = Some (Err x, (p', w))" "interest p' = interest p"
proof -
  obtain r p' where r: "pr_modify_with_mode P fd e (get_mode P p) p = (r, p')" by (rule prod.exhaust)
  from modify [where fd = fd and e = e and m = "get_mode P p" and p = p] r consider
      "r = Ok ()" "interest p fd \<noteq> None" "interest p' = (interest p)(fd \<mapsto> (ev_readable e, ev_writable e))"
    | x where "r = Err x" "interest p' = interest p" by auto
  then show thesis
  proof cases
    case 1
    with r same_tables_token_fd [OF assms, of token fd] show thesis
      by (intro ok) (auto simp: reregister_def on_poller_def andThen_def insert_token_fd_def upd_def)
  next
    case 2
    with r show thesis by (intro err [of x p']) (auto simp: reregister_def on_poller_def andThen_def)
  qed
qed

text \<open>Registering a descriptor that is registered already, as the eager \<^verbatim>\<open>or\<close> does, has no effect.\<close>

lemma or_eager_cases:
  assumes "tables w" "interest p fd \<noteq> None"
  obtains (ok) p' w' where "or_eager (reregister M P fd token e) (register M P fd token e) (p, w) = Some (Ok (), (p', w'))"
      "same_tables w w'" "interest p' = (interest p)(fd \<mapsto> (ev_readable e, ev_writable e))"
    | (err) x p' where "or_eager (reregister M P fd token e) (register M P fd token e) (p, w) = Some (Err x, (p', w))"
      "interest p' = interest p"
proof (rule reregister_cases [OF assms(1), of fd token e p], goal_cases)
  case (1 p1 w1)
  then have "tables w1" "interest p1 fd \<noteq> None" by (simp_all add: same_tables_def)
  with register_cases [OF \<open>tables w1\<close>, of fd token e p1]
  obtain x p2 where "register M P fd token e (p1, w1) = Some (Err x, (p2, w1))" "interest p2 = interest p1"
    by metis
  with 1 show thesis by (intro ok [of p2 w1]) (simp_all add: or_eager_def attempt_def ret_def)
next
  case (2 x p1)
  with assms have "interest p1 fd \<noteq> None" by simp
  with register_cases [OF assms(1), of fd token e p1]
  obtain y p2 where "register M P fd token e (p1, w) = Some (Err y, (p2, w))" "interest p2 = interest p1"
    by metis
  with 2 show thesis by (intro err [of y p2]) (simp_all add: or_eager_def)
qed

lemma agreesD:
  assumes "agrees (p, w)"
  shows "tables w" "interest p fd = registered (look_set (READABLE_RECORDS w) fd \<noteq> None) (look_set (WRITABLE_RECORDS w) fd \<noteq> None)"
  using assms by (auto simp: agree_def dom_def)

lemma agrees_same: "agrees (p, w) \<Longrightarrow> interest p' = interest p \<Longrightarrow> agrees (p', w)"
  by (simp add: agree_def)

lemma contains:
  assumes "tables w"
  shows "dm_get (nm_set M) fd (READABLE_RECORDS w) = look_set (READABLE_RECORDS w) fd"
    "dm_get (nm_set M) fd (WRITABLE_RECORDS w) = look_set (WRITABLE_RECORDS w) fd"
  using assms by (simp_all add: tables_ok_def set.get_look)

text \<open>After a registration of \<open>fd\<close> for reading, the tables are brought up to date.\<close>

lemma agrees_insert_read:
  assumes "agrees (p, w)" "same_tables w w'"
    and "interest p' = (interest p)(fd \<mapsto> (True, look_set (WRITABLE_RECORDS w) fd \<noteq> None))"
  shows "agrees (p', w'\<lparr>READABLE_RECORDS := snd (dm_insert (nm_set M) fd () (READABLE_RECORDS w')),
           READABLE_TOKEN_RECORDS := snd (dm_insert (nm_token M) fd token (READABLE_TOKEN_RECORDS w'))\<rparr>)"
  using assms by (auto simp: agree_def same_tables_def tables_ok_def set.insert_ok set.insert_look tok.insert_ok
      tok.insert_look registered_def)

lemma agrees_insert_write:
  assumes "agrees (p, w)" "same_tables w w'"
    and "interest p' = (interest p)(fd \<mapsto> (look_set (READABLE_RECORDS w) fd \<noteq> None, True))"
  shows "agrees (p', w'\<lparr>WRITABLE_RECORDS := snd (dm_insert (nm_set M) fd () (WRITABLE_RECORDS w')),
           WRITABLE_TOKEN_RECORDS := snd (dm_insert (nm_token M) fd token (WRITABLE_TOKEN_RECORDS w'))\<rparr>)"
  using assms by (auto simp: agree_def same_tables_def tables_ok_def set.insert_ok set.insert_look tok.insert_ok
      tok.insert_look registered_def)

definition keeps_agreement where
  "keeps_agreement q \<longleftrightarrow> (\<forall>s. agrees s \<longrightarrow> (\<exists>r s'. q s = Some (r, s') \<and> agrees s'))"

lemma add_read_event_agrees:
  assumes "agrees (p, w)"
  shows "\<exists>r s'. add_read_event M P fd token (p, w) = Some (r, s') \<and> agrees s'"
proof -
  note t = agreesD(1) [OF assms]
  consider "look_set (READABLE_RECORDS w) fd \<noteq> None"
    | "look_set (READABLE_RECORDS w) fd = None" "look_set (WRITABLE_RECORDS w) fd \<noteq> None"
    | "look_set (READABLE_RECORDS w) fd = None" "look_set (WRITABLE_RECORDS w) fd = None" by blast
  then show ?thesis
  proof cases
    case 1
    with assms t show ?thesis by (simp add: add_read_event_def contains ret_def)
  next
    case 2
    then have "interest p fd \<noteq> None" using agreesD(2) [OF assms, of fd] by (auto simp: registered_def)
    with t show ?thesis
    proof (cases rule: or_eager_cases [of w p fd token "Event_all token"])
      case (ok p' w')
      with 2 t agrees_insert_read [OF assms ok(2), of p' fd] show ?thesis
        by (simp add: add_read_event_def contains andThen_def [of "or_eager _ _"] upd_def Event_all_def)
    next
      case (err x p')
      with 2 t agrees_same [OF assms err(2)] show ?thesis
        by (simp add: add_read_event_def contains andThen_def [of "or_eager _ _"])
    qed
  next
    case 3
    from t show ?thesis
    proof (cases rule: register_cases [of w fd token "Event_readable token" p])
      case (ok p' w')
      with 3 t agrees_insert_read [OF assms ok(2), of p' fd] show ?thesis
        by (simp add: add_read_event_def contains andThen_def [of "register _ _ _ _ _"] upd_def Event_readable_def)
    next
      case (err x p')
      with 3 t agrees_same [OF assms err(2)] show ?thesis
        by (simp add: add_read_event_def contains andThen_def [of "register _ _ _ _ _"])
    qed
  qed
qed

lemma add_write_event_agrees:
  assumes "agrees (p, w)"
  shows "\<exists>r s'. add_write_event M P fd token (p, w) = Some (r, s') \<and> agrees s'"
proof -
  note t = agreesD(1) [OF assms]
  consider "look_set (WRITABLE_RECORDS w) fd \<noteq> None"
    | "look_set (WRITABLE_RECORDS w) fd = None" "look_set (READABLE_RECORDS w) fd \<noteq> None"
    | "look_set (WRITABLE_RECORDS w) fd = None" "look_set (READABLE_RECORDS w) fd = None" by blast
  then show ?thesis
  proof cases
    case 1
    with assms t show ?thesis by (simp add: add_write_event_def contains ret_def)
  next
    case 2
    then have "interest p fd \<noteq> None" using agreesD(2) [OF assms, of fd] by (auto simp: registered_def)
    with t show ?thesis
    proof (cases rule: or_eager_cases [of w p fd token "Event_all token"])
      case (ok p' w')
      with 2 t agrees_insert_write [OF assms ok(2), of p' fd] show ?thesis
        by (simp add: add_write_event_def contains andThen_def [of "or_eager _ _"] upd_def Event_all_def)
    next
      case (err x p')
      with 2 t agrees_same [OF assms err(2)] show ?thesis
        by (simp add: add_write_event_def contains andThen_def [of "or_eager _ _"])
    qed
  next
    case 3
    from t show ?thesis
    proof (cases rule: register_cases [of w fd token "Event_writable token" p])
      case (ok p' w')
      with 3 t agrees_insert_write [OF assms ok(2), of p' fd] show ?thesis
        by (simp add: add_write_event_def contains andThen_def [of "register _ _ _ _ _"] upd_def Event_writable_def)
    next
      case (err x p')
      with 3 t agrees_same [OF assms err(2)] show ?thesis
        by (simp add: add_write_event_def contains andThen_def [of "register _ _ _ _ _"])
    qed
  qed
qed

text \<open>Deleting. The tokens go in any case; the records only when the poller has let go of the descriptor.\<close>

lemma remove_tokens_agrees:
  assumes "agrees (p, w)"
  shows "\<exists>token w'. remove_tokens M fd (p, w) = (token, (p, w')) \<and> agrees (p, w') \<and>
    look_tok (READABLE_TOKEN_RECORDS w') fd = None \<and> look_tok (WRITABLE_TOKEN_RECORDS w') fd = None"
  using assms by (auto simp: remove_tokens_def case_prod_beta agree_def tables_ok_def tok.remove_ok tok.remove_look)

lemma deregister_eq:
  "pr_delete P fd p = (Ok (), p') \<Longrightarrow> deregister M P fd token (p, w) =
    Some (Ok (), (p', w\<lparr>TOKEN_FD := snd (dm_remove (nm_fd M) token (TOKEN_FD w))\<rparr>))"
  "pr_delete P fd p = (Err x, p') \<Longrightarrow> deregister M P fd token (p, w) = Some (Err x, (p', w))"
  by (simp_all add: deregister_def on_poller_def andThen_def upd_def)

lemma agrees_delete:
  assumes "agrees (p, w)" "look_tok (READABLE_TOKEN_RECORDS w) fd = None" "look_tok (WRITABLE_TOKEN_RECORDS w) fd = None"
    and "interest p' = (interest p)(fd := None)"
  shows "agrees (p', w\<lparr>TOKEN_FD := snd (dm_remove (nm_fd M) token (TOKEN_FD w)),
        READABLE_RECORDS := snd (dm_remove (nm_set M) fd (READABLE_RECORDS w)),
        WRITABLE_RECORDS := snd (dm_remove (nm_set M) fd (WRITABLE_RECORDS w))\<rparr>)"
  using assms by (auto simp: agree_def tables_ok_def set.remove_ok set.remove_look fdm.remove_ok registered_def)

lemma sel_del_event_agrees:
  assumes "agrees (p, w)"
  shows "\<exists>r s'. sel_del_event M P fd (p, w) = Some (r, s') \<and> agrees s'"
proof (cases "look_set (READABLE_RECORDS w) fd \<noteq> None \<or> look_set (WRITABLE_RECORDS w) fd \<noteq> None")
  case False
  with assms agreesD(1) [OF assms] show ?thesis by (simp add: sel_del_event_def contains ret_def)
next
  case True
  obtain token w' where w': "remove_tokens M fd (p, w) = (token, (p, w'))" "agrees (p, w')"
    "look_tok (READABLE_TOKEN_RECORDS w') fd = None" "look_tok (WRITABLE_TOKEN_RECORDS w') fd = None"
    using remove_tokens_agrees [OF assms, of fd] by blast
  obtain r p' where r: "pr_delete P fd p = (r, p')" by (rule prod.exhaust)
  from delete [where fd = fd and p = p] r consider
      "r = Ok ()" "interest p' = (interest p)(fd := None)" | x where "r = Err x" "interest p' = interest p" by auto
  then show ?thesis
  proof cases
    case 1
    with True agreesD(1) [OF assms] w'(1) r agrees_delete [OF w'(2-4) 1(2), of token] show ?thesis
      by (simp add: sel_del_event_def contains andThen_def [of "deregister _ _ _ _"] deregister_eq upd_def)
  next
    case 2
    with True agreesD(1) [OF assms] w'(1) r agrees_same [OF w'(2) 2(2)] show ?thesis
      by (simp add: sel_del_event_def contains andThen_def [of "deregister _ _ _ _"] deregister_eq)
  qed
qed

text \<open>The assertions may fail, but the tables agree with the poller even then.\<close>

lemma clean_readable_agrees:
  assumes "agrees (p, w)" "same_tables w w'"
    and "look_set (READABLE_RECORDS w) fd \<noteq> None" "look_set (WRITABLE_RECORDS w) fd \<noteq> None"
    and "interest p' = (interest p)(fd \<mapsto> (False, True))"
  shows "\<exists>r s'. clean_readable M fd (p', w') = Some (r, s') \<and> agrees s'"
  using assms by (auto simp: clean_readable_def case_prod_beta Let_def agree_def same_tables_def tables_ok_def set.remove_old
      set.remove_ok set.remove_look tok.remove_old tok.remove_ok tok.remove_look registered_def)

lemma clean_writable_agrees:
  assumes "agrees (p, w)" "same_tables w w'"
    and "look_set (READABLE_RECORDS w) fd \<noteq> None" "look_set (WRITABLE_RECORDS w) fd \<noteq> None"
    and "interest p' = (interest p)(fd \<mapsto> (True, False))"
  shows "\<exists>r s'. clean_writable M fd (p', w') = Some (r, s') \<and> agrees s'"
  using assms by (auto simp: clean_writable_def case_prod_beta Let_def agree_def same_tables_def tables_ok_def set.remove_old
      set.remove_ok set.remove_look tok.remove_old tok.remove_ok tok.remove_look registered_def)

lemma sel_del_read_event_agrees:
  assumes "agrees (p, w)"
  shows "\<exists>r s'. sel_del_read_event M P fd (p, w) = Some (r, s') \<and> agrees s'"
proof (cases "look_set (READABLE_RECORDS w) fd \<noteq> None \<and> look_set (WRITABLE_RECORDS w) fd \<noteq> None")
  case False
  with assms agreesD(1) [OF assms] sel_del_event_agrees [OF assms, of fd] show ?thesis
    by (auto simp: sel_del_read_event_def contains ret_def)
next
  case True
  let ?token = "case dm_get (nm_token M) fd (WRITABLE_TOKEN_RECORDS w) of None \<Rightarrow> 0 | Some token \<Rightarrow> token"
  have eq: "sel_del_read_event M P fd (p, w) =
      andThen (reregister M P fd ?token (Event_writable ?token)) (\<lambda>_. clean_readable M fd) (p, w)"
    using True agreesD(1) [OF assms] by (simp add: sel_del_read_event_def contains Let_def)
  from agreesD(1) [OF assms] show ?thesis
  proof (cases rule: reregister_cases [of w fd ?token "Event_writable ?token" p])
    case (ok p' w')
    then have "interest p' = (interest p)(fd \<mapsto> (False, True))" by (simp add: Event_writable_def)
    from clean_readable_agrees [OF assms ok(2) _ _ this] True show ?thesis
      unfolding eq by (simp add: andThen_def [of "reregister _ _ _ _ _"] ok(1))
  next
    case (err x p')
    with agrees_same [OF assms err(2)] show ?thesis
      unfolding eq by (simp add: andThen_def [of "reregister _ _ _ _ _"])
  qed
qed

lemma sel_del_write_event_agrees:
  assumes "agrees (p, w)"
  shows "\<exists>r s'. sel_del_write_event M P fd (p, w) = Some (r, s') \<and> agrees s'"
proof (cases "look_set (READABLE_RECORDS w) fd \<noteq> None \<and> look_set (WRITABLE_RECORDS w) fd \<noteq> None")
  case False
  with assms agreesD(1) [OF assms] sel_del_event_agrees [OF assms, of fd] show ?thesis
    by (auto simp: sel_del_write_event_def contains ret_def)
next
  case True
  let ?token = "case dm_get (nm_token M) fd (READABLE_TOKEN_RECORDS w) of None \<Rightarrow> 0 | Some token \<Rightarrow> token"
  have eq: "sel_del_write_event M P fd (p, w) =
      andThen (reregister M P fd ?token (Event_readable ?token)) (\<lambda>_. clean_writable M fd) (p, w)"
    using True agreesD(1) [OF assms] by (simp add: sel_del_write_event_def contains Let_def)
  from agreesD(1) [OF assms] show ?thesis
  proof (cases rule: reregister_cases [of w fd ?token "Event_readable ?token" p])
    case (ok p' w')
    then have "interest p' = (interest p)(fd \<mapsto> (True, False))" by (simp add: Event_readable_def)
    from clean_writable_agrees [OF assms ok(2) _ _ this] True show ?thesis
      unfolding eq by (simp add: andThen_def [of "reregister _ _ _ _ _"] ok(1))
  next
    case (err x p')
    with agrees_same [OF assms err(2)] show ?thesis
      unfolding eq by (simp add: andThen_def [of "reregister _ _ _ _ _"])
  qed
qed

lemma sel_deliver_agrees: "agrees (p, w) \<Longrightarrow> agrees (p, sel_deliver M e w)"
  by (auto simp: sel_deliver_def case_prod_beta Let_def agree_def tables_ok_def fdm.remove_ok tok.remove_ok tok.remove_look
      split: if_splits)

lemma deliver_all_agrees: "agrees (p, w) \<Longrightarrow> agrees (p, fold (sel_deliver M) es w)"
  by (induction es arbitrary: w) (simp_all add: sel_deliver_agrees)

lemma sel_select_agrees:
  assumes "agrees (p, w)"
  shows "agrees (snd (sel_select M P timeout (p, w)))"
proof -
  obtain es r p' where eq: "pr_wait P timeout p = ((es, r), p')" by (metis prod.collapse)
  then have "interest p' = interest p" using wait [where t = timeout and p = p] by simp
  from agrees_same [OF deliver_all_agrees [OF assms] this] eq show ?thesis by (simp add: sel_select_def)
qed

lemma run_op_agrees:
  assumes "agrees s"
  shows "\<exists>r s'. run_op M P x s = Some (r, s') \<and> agrees s'"
proof -
  obtain p w where s: "s = (p, w)" by (rule prod.exhaust)
  show ?thesis
  proof (cases x)
    case (Select t)
    with assms show ?thesis by (simp add: s ret_def sel_select_agrees del: andThen_ret)
  qed (use assms add_read_event_agrees add_write_event_agrees sel_del_event_agrees sel_del_read_event_agrees
      sel_del_write_event_agrees in \<open>simp_all add: s\<close>)
qed

lemma run_ops_agrees: "agrees s \<Longrightarrow> agrees (run_ops M P xs s)"
proof (induction xs arbitrary: s)
  case (Cons x xs)
  obtain r s' where "run_op M P x s = Some (r, s')" "agrees s'" using run_op_agrees [OF Cons.prems] by blast
  with Cons.IH show ?case by simp
qed simp

end

subsection \<open>A poller that keeps the promise\<close>

text \<open>It holds the interests and the batches of events still to be reported.\<close>

type_synonym ref_poller = "(c_int \<times> (bool \<times> bool)) list \<times> pevent list list"

definition list_poller :: "(ref_poller, unit) poller_ops" where
  "list_poller =
     \<lparr>pr_new = Ok ([], []), pr_supports_edge = (\<lambda>_. True),
      pr_add_with_mode = (\<lambda>fd e m (l, q). if map_of l fd = None
        then (Ok (), (AList.update fd (ev_readable e, ev_writable e) l, q)) else (Err (), (l, q))),
      pr_modify_with_mode = (\<lambda>fd e m (l, q). if map_of l fd = None then (Err (), (l, q))
        else (Ok (), (AList.update fd (ev_readable e, ev_writable e) l, q))),
      pr_delete = (\<lambda>fd (l, q). if map_of l fd = None then (Err (), (l, q)) else (Ok (), (AList.delete fd l, q))),
      pr_wait = (\<lambda>t (l, q). case q of [] \<Rightarrow> (([], Ok 0), (l, q)) | es # q \<Rightarrow> ((es, Ok (of_nat (length es))), (l, q)))\<rparr>"

definition ref_interest :: "ref_poller \<Rightarrow> c_int \<rightharpoonup> bool \<times> bool" where
  "ref_interest p = map_of (fst p)"

definition ref_maps :: "((usize \<times> c_int) list, (c_int \<times> unit) list, (c_int \<times> usize) list) net_maps" where
  "ref_maps = \<lparr>nm_fd = alist_map, nm_set = alist_map, nm_token = alist_map\<rparr>"

lemma ref_maps_simps [simp]: "nm_fd ref_maps = alist_map" "nm_set ref_maps = alist_map" "nm_token ref_maps = alist_map"
  by (simp_all add: ref_maps_def)

interpretation ref_selector: selector list_poller ref_interest ref_maps map_of alist_ok map_of alist_ok map_of alist_ok
proof unfold_locales
  fix fd e m and p :: ref_poller
  show "case pr_add_with_mode list_poller fd e m p of (r, p') \<Rightarrow>
      r = Ok () \<and> ref_interest p fd = None \<and> ref_interest p' = (ref_interest p)(fd \<mapsto> (ev_readable e, ev_writable e)) \<or>
      (\<exists>x. r = Err x) \<and> ref_interest p' = ref_interest p"
    by (cases p) (simp add: list_poller_def ref_interest_def update_conv')
  show "case pr_modify_with_mode list_poller fd e m p of (r, p') \<Rightarrow>
      r = Ok () \<and> ref_interest p fd \<noteq> None \<and> ref_interest p' = (ref_interest p)(fd \<mapsto> (ev_readable e, ev_writable e)) \<or>
      (\<exists>x. r = Err x) \<and> ref_interest p' = ref_interest p"
    by (cases p) (simp add: list_poller_def ref_interest_def update_conv')
  show "case pr_delete list_poller fd p of (r, p') \<Rightarrow>
      r = Ok () \<and> ref_interest p fd \<noteq> None \<and> ref_interest p' = (ref_interest p)(fd := None) \<or>
      (\<exists>x. r = Err x) \<and> ref_interest p' = ref_interest p"
    by (cases p) (simp add: list_poller_def ref_interest_def delete_conv')
  show "ref_interest (snd (pr_wait list_poller t p)) = ref_interest p" for t
    by (cases p) (simp add: list_poller_def ref_interest_def split: list.splits)
qed (simp_all add: alist.new_ok alist.insert_ok alist.insert_look alist.insert_old alist.get_look alist.remove_ok
    alist.remove_look alist.remove_old alist.len_look alist.finite_look)

type_synonym 'co ref_net = "('co, (usize \<times> c_int) list, (c_int \<times> unit) list, (c_int \<times> usize) list) net"

definition ref_net :: "'co ref_net" where
  "ref_net = \<lparr>clk = (\<lambda>n. n), reads = 0, TIMESTAMP = [], COROUTINE = [], SUSPENDER = [], SYSCALL = [], SCHEDULER = [],
     COROUTINE_POOL = [], TRAP_HANDLER_INITED = False, signal_handlers = [], errno = 0, cur = None,
     mem_timespec = (\<lambda>_. \<lparr>ts_sec = 0, ts_nsec = 0\<rparr>), mem_timeval = (\<lambda>_. \<lparr>tv_sec = 0, tv_usec = 0\<rparr>), mem_fd_set = (\<lambda>_. 0),
     mem_iovec = (\<lambda>_. \<lparr>iov_base = 0, iov_len = 0\<rparr>),
     mem_msghdr = (\<lambda>_. \<lparr>msg_name = 0, msg_namelen = 0, msg_iov = 0, msg_iovlen = 0, msg_control = 0,
       msg_controllen = 0, msg_flags = 0\<rparr>),
     freed = [], TOKEN_FD = [], READABLE_RECORDS = [], READABLE_TOKEN_RECORDS = [], WRITABLE_RECORDS = [],
     WRITABLE_TOKEN_RECORDS = [], CSTRINGS = [], EVENT_LOOP_STOP = 0\<rparr>"



lemma ref_net_agrees: "agree ref_interest map_of alist_ok alist_ok map_of alist_ok (([], q), ref_net)"
  by (simp add: agree_def tables_ok_def ref_net_def ref_interest_def registered_def alist_ok_def)


text \<open>
  A delivered event takes the token out of the tables but leaves the descriptor recorded. So a later registration under
  another token is ignored, and deleting one of two interests after its event ends with a panic.
\<close>

lemma recorded_ignores_token:
  "set_contains M fd (READABLE_RECORDS w) \<Longrightarrow> add_read_event M P fd token (p, w) = Some (Ok (), (p, w))"
  "set_contains M fd (WRITABLE_RECORDS w) \<Longrightarrow> add_write_event M P fd token (p, w) = Some (Ok (), (p, w))"
  by (simp_all add: add_read_event_def add_write_event_def ret_def)

lemma delivered_event_breaks_deletion:
  "map_option fst (run_op ref_maps list_poller (Del_read 3)
     (run_ops ref_maps list_poller [Add_read 3 70, Add_write 3 80, Select None]
       (([], [[Event_readable 80]]), ref_net :: unit ref_net))) =
   Some (Panic ''Clean READABLE_TOKEN_RECORDS failed !'')"
  by code_simp

end
