(* ===== verification/LoopsReach.thy ===== *)
theory LoopsReach
  imports EventLoops SelectorClaims
begin

text \<open>
  Which loops are reached. \<open>next\<close> goes round the loops with a counter, and an operation on all loops is that many calls of
  \<open>next\<close>: it is shown here that these calls do reach every loop (every loop but the monitor's, when that one is skipped), so
  that stopping stops all of them and closing a descriptor removes it from whatever loop it was registered with.
\<close>

subsection \<open>Going round\<close>

text \<open>The loops \<open>n\<close> calls of \<open>next\<close> choose out of \<open>len\<close>, from the counter \<open>k\<close> on.\<close>

primrec chosen :: "bool \<Rightarrow> nat \<Rightarrow> nat \<Rightarrow> nat \<Rightarrow> nat set" where
  "chosen skip len k 0 = {}"
| "chosen skip len k (Suc n) =
     (if skip \<and> k mod len = 0 then insert 1 (chosen skip len 1 n) else insert (k mod len) (chosen skip len (Suc k) n))"

lemma chosen_round: "chosen False len k n = (\<lambda>i. i mod len) ` {k..<k + n}"
proof (induction n arbitrary: k)
  case (Suc n)
  have "{k..<k + Suc n} = insert k {Suc k..<Suc k + n}" by auto
  then show ?case by (simp add: Suc.IH)
qed simp

lemma chosen_all:
  assumes "0 < len"
  shows "chosen False len k len = {..<len}"
proof -
  have "i \<in> (\<lambda>i. i mod len) ` {k..<k + len}" if "i < len" for i
  proof -
    let ?j = "k + (i + len - k mod len) mod len"
    have "k mod len < len" using assms by simp
    then have "?j mod len = (k mod len + (i + len - k mod len)) mod len" by (metis mod_add_eq mod_mod_trivial)
    also have "k mod len + (i + len - k mod len) = i + len" using \<open>k mod len < len\<close> by linarith
    also have "(i + len) mod len = i" using that by simp
    finally have "?j mod len = i" .
    moreover have "?j \<in> {k..<k + len}" using assms by simp
    ultimately show ?thesis by (metis image_eqI)
  qed
  then show ?thesis using assms unfolding chosen_round by auto
qed

text \<open>Without the first loop: the rest of the round, then again from the second loop on.\<close>

lemma chosen_rest:
  assumes "k mod len \<noteq> 0" and "n \<le> len - k mod len"
  shows "{k mod len..<k mod len + n} \<subseteq> chosen True len k n"
  using assms
proof (induction n arbitrary: k)
  case (Suc n)
  have lt: "k mod len < len" using Suc.prems by (cases "len = 0") auto
  show ?case
  proof (cases "Suc (k mod len) < len")
    case True
    then have m: "Suc k mod len = Suc (k mod len)" by (simp add: mod_Suc)
    have "{k mod len..<k mod len + Suc n} = insert (k mod len) {Suc k mod len..<Suc k mod len + n}"
      by (auto simp: m)
    moreover have "{Suc k mod len..<Suc k mod len + n} \<subseteq> chosen True len (Suc k) n"
      using Suc.prems True by (intro Suc.IH) (simp_all add: m)
    ultimately show ?thesis using Suc.prems(1) by auto
  next
    case False
    with lt Suc.prems have "n = 0" by simp
    with Suc.prems show ?thesis by simp
  qed
qed simp

lemma chosen_append:
  assumes "k mod len \<noteq> 0" and "m \<le> len - k mod len"
  shows "chosen True len k (m + n) = chosen True len k m \<union> chosen True len (k + m) n"
  using assms
proof (induction m arbitrary: k)
  case (Suc m)
  have lt: "k mod len < len" using Suc.prems by (cases "len = 0") auto
  show ?case
  proof (cases "m = 0")
    case True
    with Suc.prems(1) show ?thesis by simp
  next
    case False
    with Suc.prems lt have s: "Suc k mod len = Suc (k mod len)" by (simp add: mod_Suc)
    with Suc.IH [of "Suc k"] Suc.prems show ?thesis by auto
  qed
qed simp

lemma chosen_workers:
  assumes "1 < len"
  shows "{1..<len} \<subseteq> chosen True len k len"
proof (cases "k mod len = 0")
  case True
  have one: "1 mod len = 1" using assms by simp
  obtain n where n: "len = Suc n" using assms by (cases len) auto
  have "{1 mod len..<1 mod len + n} \<subseteq> chosen True len 1 n"
    using one n by (intro chosen_rest) simp_all
  with True n one show ?thesis by auto
next
  case False
  let ?m = "len - k mod len" and ?r = "k mod len"
  have lt: "?r < len" using assms by simp
  have "?m + ?r = len" using lt by simp
  with chosen_append [OF False, of ?m ?r] have "chosen True len k len = chosen True len k ?m \<union> chosen True len (k + ?m) ?r"
    by simp
  moreover have "{?r..<len} \<subseteq> chosen True len k ?m"
    using chosen_rest [OF False, of ?m] lt by simp
  moreover have "{1..<?r} \<subseteq> chosen True len (k + ?m) ?r"
  proof -
    have "(k + ?m) mod len = (?r + ?m) mod len" by (metis mod_add_left_eq)
    then have "(k + ?m) mod len = 0" using lt by simp
    moreover obtain n where n: "?r = Suc n" using False by (cases ?r) auto
    moreover have "{1 mod len..<1 mod len + n} \<subseteq> chosen True len 1 n"
      using assms lt n by (intro chosen_rest) simp_all
    ultimately show ?thesis using assms by auto
  qed
  moreover have "{1..<len} \<subseteq> {?r..<len} \<union> {1..<?r}" by auto
  ultimately show ?thesis by blast
qed

subsection \<open>Operations on all loops\<close>

text \<open>
  What is done to the chosen loops: \<open>J\<close> holds all the time, every turn on a loop \<open>i\<close> returns with \<open>Q i\<close>, and no turn undoes
  what another has done.
\<close>

definition does :: "nat \<Rightarrow> (nat \<Rightarrow> ('a, 'x, ('co, 'tf, 'ds, 'dt, 'p, 'po, 'z) world_scheme) prog)
    \<Rightarrow> (('co, 'tf, 'ds, 'dt, 'p, 'po, 'z) world_scheme \<Rightarrow> bool)
    \<Rightarrow> (nat \<Rightarrow> ('co, 'tf, 'ds, 'dt, 'p, 'po, 'z) world_scheme \<Rightarrow> bool) \<Rightarrow> bool" where
  "does len f J Q \<longleftrightarrow>
     (\<forall>w k. J w \<longrightarrow> J (w\<lparr>INDEX := k\<rparr>)) \<and> (\<forall>i w k. Q i (w\<lparr>INDEX := k\<rparr>) = Q i w) \<and>
     (\<forall>w. J w \<longrightarrow> length (EVENT_LOOPS w) = len) \<and>
     (\<forall>i w. i < len \<and> J w \<longrightarrow> (\<exists>r w'. f i w = Some (r, w') \<and> (\<forall>m. r \<noteq> Panic m) \<and> J w' \<and> INDEX w' = INDEX w \<and>
        Q i w' \<and> (\<forall>j. Q j w \<longrightarrow> Q j w')))"

lemma doesD:
  assumes "does len f J Q"
  shows "J w \<Longrightarrow> J (w\<lparr>INDEX := k\<rparr>)" and "Q i (w\<lparr>INDEX := k\<rparr>) = Q i w" and "J w \<Longrightarrow> length (EVENT_LOOPS w) = len"
    and "i < len \<Longrightarrow> J w \<Longrightarrow> \<exists>r w'. f i w = Some (r, w') \<and> (\<forall>m. r \<noteq> Panic m) \<and> J w' \<and> INDEX w' = INDEX w \<and>
        Q i w' \<and> (\<forall>j. Q j w \<longrightarrow> Q j w')"
  using assms unfolding does_def by blast+

lemma loops_next_eq:
  assumes "length (EVENT_LOOPS w) = len" and "1 < len"
  shows "\<exists>b. (loops_next preemptive skip :: (nat \<times> bool, unit, _) prog) w =
    Some (Ok (if (preemptive \<and> skip) \<and> unat (INDEX w) mod len = 0 then 1 else unat (INDEX w) mod len, b),
      w\<lparr>INDEX := if (preemptive \<and> skip) \<and> unat (INDEX w) mod len = 0 then 1 else INDEX w + 1\<rparr>)"
proof (cases "(preemptive \<and> skip) \<and> unat (INDEX w) mod len = 0")
  case True
  with assms have "(loops_next preemptive skip :: (nat \<times> bool, unit, _) prog) w = Some (Ok (1, False), w\<lparr>INDEX := 1\<rparr>)"
    unfolding loops_next_def Let_def MONITOR_CPU_def assms(1) by simp
  with True show ?thesis by (simp only: if_True simp_thms) blast
next
  case False
  with assms have "(loops_next preemptive skip :: (nat \<times> bool, unit, _) prog) w =
      Some (Ok (unat (INDEX w) mod len, preemptive \<and> 0 = unat (INDEX w) mod len), w\<lparr>INDEX := INDEX w + 1\<rparr>)"
    unfolding loops_next_def Let_def MONITOR_CPU_def assms(1) by (simp only: if_False) simp
  with False show ?thesis by (simp only: if_False) blast
qed

lemma each_next_does:
  assumes f: "does len f J Q" and "1 < len" and "J w" and "unat (INDEX w) + n < 2 ^ 64"
  shows "\<exists>w'. each_next preemptive skip f n w = Some (Ok (), w') \<and> J w' \<and>
    (\<forall>i \<in> chosen (preemptive \<and> skip) len (unat (INDEX w)) n. Q i w') \<and> (\<forall>j. Q j w \<longrightarrow> Q j w')"
  using assms(3,4)
proof (induction n arbitrary: w)
  case 0
  then show ?case by (simp add: ret_def)
next
  case (Suc n)
  let ?k = "unat (INDEX w)" and ?skip = "preemptive \<and> skip"
  let ?i = "if ?skip \<and> ?k mod len = 0 then 1 else ?k mod len"
  let ?w = "w\<lparr>INDEX := if ?skip \<and> ?k mod len = 0 then 1 else INDEX w + 1\<rparr>"
  have len: "length (EVENT_LOOPS w) = len" using doesD(3) [OF f Suc.prems(1)] .
  from loops_next_eq [OF this assms(2)] obtain b where nx: "(loops_next preemptive skip :: (nat \<times> bool, unit, _) prog) w = Some (Ok (?i, b), ?w)" by blast
  have J: "J ?w" using doesD(1) [OF f Suc.prems(1)] .
  have "?i < len" using assms(2) by simp
  from doesD(4) [OF f this J] obtain r w1 where r: "f ?i ?w = Some (r, w1)" "\<forall>m. r \<noteq> Panic m" "J w1" "INDEX w1 = INDEX ?w" "Q ?i w1"
    "\<forall>j. Q j ?w \<longrightarrow> Q j w1" by blast
  have Q: "Q j w \<longrightarrow> Q j w1" for j using r(6) by (simp add: doesD(2) [OF f])
  have idx: "unat (INDEX ?w) = (if ?skip \<and> ?k mod len = 0 then 1 else Suc ?k)"
    using Suc.prems(2) by (simp add: unat_plus_if_size word_size)
  have "unat (INDEX w1) + n < 2 ^ 64"
    using Suc.prems(2) idx unfolding r(4) by (auto split: if_splits)
  from Suc.IH [OF r(3) this] obtain w' where w': "each_next preemptive skip f n w1 = Some (Ok (), w')" "J w'"
    "\<forall>i \<in> chosen ?skip len (unat (INDEX w1)) n. Q i w'" "\<forall>j. Q j w1 \<longrightarrow> Q j w'" by blast
  have "each_next preemptive skip f (Suc n) w = Some (Ok (), w')"
    using nx r(1,2) w'(1) by (cases r) (simp_all add: andThen_def attempt_def)
  moreover have "\<forall>i \<in> chosen ?skip len ?k (Suc n). Q i w'"
    using w'(3,4) r(5) idx unfolding r(4) by (auto split: if_splits)
  ultimately show ?case using w'(2,4) Q by blast
qed

subsection \<open>Stopping\<close>

text \<open>The pool can be told to stop without waiting: it returns, and it leaves the loops of the process alone.\<close>

definition stops_quietly where
  "stops_quietly PO \<longleftrightarrow>
     (\<forall>p w. case po_stop PO 0 (enter p w) of
        None \<Rightarrow> False
      | Some (r, s) \<Rightarrow> (\<forall>m. r \<noteq> Panic m) \<and> EVENT_LOOPS (snd (leave s)) = EVENT_LOOPS w \<and> INDEX (snd (leave s)) = INDEX w)"

lemma on_pool_stop:
  assumes "stops_quietly PO"
  shows "\<exists>a p w'. on_pool (attempt (po_stop PO 0) ret) (e, w) = Some (Ok a, (e\<lparr>el_pool := p\<rparr>, w')) \<and>
    EVENT_LOOPS w' = EVENT_LOOPS w \<and> INDEX w' = INDEX w"
proof -
  obtain r s where s: "po_stop PO 0 (enter (el_pool e) w) = Some (r, s)" "\<forall>m. r \<noteq> Panic m"
    "EVENT_LOOPS (snd (leave s)) = EVENT_LOOPS w" "INDEX (snd (leave s)) = INDEX w"
    using assms unfolding stops_quietly_def by (fastforce split: option.splits)
  obtain p w' where "leave s = (p, w')" by fastforce
  with s show ?thesis by (cases r) (auto simp: on_pool_def attempt_def ret_def)
qed

lemma el_stop_now:
  fixes P :: "('po, 'x) poller_ops"
  assumes "stops_quietly PO" and "\<not> el_stop_pending e"
  shows "\<exists>r e' w'. el_stop M P PO yield others 0 (e, w) = Some (r, (e', w')) \<and> (\<forall>m. r \<noteq> Panic m) \<and>
    EVENT_LOOPS w' = EVENT_LOOPS w \<and> INDEX w' = INDEX w \<and> \<not> el_stop_pending e' \<and>
    (el_get_state e \<in> {Pool_Running, Pool_Stopped} \<longrightarrow> el_get_state e' = Pool_Stopped)"
proof (cases "el_get_state e = Pool_Stopped")
  case True
  with assms(2) show ?thesis by (simp add: el_stop_def)
next
  case False
  from on_pool_stop [OF assms(1), of e w] obtain a p w'
    where a: "(on_pool (attempt (po_stop PO 0) ret) :: (_, 'x el_error, _) prog) (e, w) = Some (Ok a, (e\<lparr>el_pool := p\<rparr>, w'))"
      "EVENT_LOOPS w' = EVENT_LOOPS w" "INDEX w' = INDEX w" by blast
  from False a assms(2) show ?thesis
    by (auto simp: el_stop_def andThen_def await_thread_def take_turns.simps el_change_state_def el_get_state_def
        pool_change_state_def pool_get_state_def Let_def split: prod.splits)
qed


subsection \<open>Closing a descriptor\<close>

text \<open>The pollers that always let go of a descriptor they have.\<close>

locale deleting_selector = selector P interest M look_fd ok_fd look_set ok_set look_tok ok_tok
  for P :: "('po, 'x) poller_ops" and interest and M :: "('tf, 'ds, 'dt) net_maps"
    and look_fd ok_fd look_set ok_set look_tok ok_tok +
  assumes delete_ok: "interest p fd \<noteq> None \<Longrightarrow> fst (pr_delete P fd p) = Ok ()"

definition maps_ok where
  "maps_ok ok_fd ok_set ok_tok w \<longleftrightarrow>
     ok_fd (TOKEN_FD w) \<and> ok_set (READABLE_RECORDS w) \<and> ok_set (WRITABLE_RECORDS w) \<and>
     ok_tok (READABLE_TOKEN_RECORDS w) \<and> ok_tok (WRITABLE_TOKEN_RECORDS w)"

definition recorded where
  "recorded look_set fd w \<longleftrightarrow> look_set (READABLE_RECORDS w) fd \<noteq> None \<or> look_set (WRITABLE_RECORDS w) fd \<noteq> None"

context deleting_selector
begin

lemma sel_del_event_effect:
  fixes w :: "('co, 'tf, 'ds, 'dt, 'p, 'po, 'z) world_scheme"
  assumes ok: "maps_ok ok_fd ok_set ok_tok w"
  shows "\<exists>r p' w'. sel_del_event M P fd (p, w) = Some (r, (p', w')) \<and> (\<forall>m. r \<noteq> Panic m) \<and> maps_ok ok_fd ok_set ok_tok w' \<and>
    EVENT_LOOPS w' = EVENT_LOOPS w \<and> INDEX w' = INDEX w \<and>
    (if recorded look_set fd w \<and> interest p fd \<noteq> None then interest p' fd = None \<and> \<not> recorded look_set fd w'
     else interest p' fd = interest p fd \<and> recorded look_set fd w' = recorded look_set fd w)"
proof (cases "recorded look_set fd w")
  case False
  with ok show ?thesis by (auto simp: sel_del_event_def recorded_def maps_ok_def set.get_look ret_def)
next
  case True
  obtain t w1 where t: "remove_tokens M fd (p, w) = (t, (p, w1))" by (simp add: remove_tokens_def case_prod_beta)
  then have w1: "maps_ok ok_fd ok_set ok_tok w1" "recorded look_set fd w1" "EVENT_LOOPS w1 = EVENT_LOOPS w" "INDEX w1 = INDEX w"
    using ok True by (auto simp: remove_tokens_def case_prod_beta maps_ok_def recorded_def tok.remove_ok)
  obtain r p' where r: "pr_delete P fd p = (r, p')" by (rule prod.exhaust)
  have step: "sel_del_event M P fd (p, w) = andThen (deregister M P fd t) (\<lambda>_.
      upd (\<lambda>(p, w). (p, w\<lparr>READABLE_RECORDS := snd (dm_remove (nm_set M) fd (READABLE_RECORDS w)),
        WRITABLE_RECORDS := snd (dm_remove (nm_set M) fd (WRITABLE_RECORDS w))\<rparr>))) (p, w1)"
    using True ok t by (simp add: sel_del_event_def recorded_def maps_ok_def set.get_look)
  from delete [where fd = fd and p = p] r consider
      "r = Ok ()" "interest p fd \<noteq> None" "interest p' = (interest p)(fd := None)"
    | x where "r = Err x" "interest p' = interest p" by auto
  then show ?thesis
  proof cases
    case 1
    with w1 r True show ?thesis
      by (auto simp: step andThen_def deregister_eq upd_def maps_ok_def recorded_def set.remove_ok set.remove_look fdm.remove_ok)
  next
    case 2
    with delete_ok [of p fd] r have "interest p fd = None" by (cases "interest p fd") auto
    with 2 w1 r True show ?thesis by (auto simp: step andThen_def deregister_eq)
  qed
qed

end

text \<open>
  C21: Closing a descriptor removes it from the loop it is registered with. Whichever loop that is, after
  \<open>EventLoops::del_event\<close> no poller is interested in the descriptor and the records no longer have it: the loops before it
  fail to remove it and keep the record, so that the search goes on. (The counter must not reach its limit on the way.)
\<close>

theorem close_removes_descriptor:
  fixes w :: "('co, 'tf, 'ds, 'dt, 'p, 'po, 'z) world_scheme"
  assumes sel: "deleting_selector P interest M look_fd ok_fd look_set ok_set look_tok ok_tok"
    and "length (EVENT_LOOPS w) = len" and "1 < len" and "unat (INDEX w) + len < 2 ^ 64"
    and "maps_ok ok_fd ok_set ok_tok w" and "owner < len"
    and "\<forall>i < len. i \<noteq> owner \<longrightarrow> interest (el_poller (EVENT_LOOPS w ! i)) fd = None"
    and "recorded look_set fd w \<longleftrightarrow> interest (el_poller (EVENT_LOOPS w ! owner)) fd \<noteq> None"
  shows "\<exists>w'. loops_del_event preemptive M P fd w = Some (Ok (), w') \<and>
    (\<forall>i < len. interest (el_poller (EVENT_LOOPS w' ! i)) fd = None) \<and> \<not> recorded look_set fd w'"
proof -
  let ?f = "\<lambda>i. on_loop i (el_del_event M P fd)"
  let ?int = "\<lambda>i w. interest (el_poller (EVENT_LOOPS w ! i)) fd"
  let ?J = "\<lambda>w. length (EVENT_LOOPS w) = len \<and> maps_ok ok_fd ok_set ok_tok w \<and> (\<forall>i < len. i \<noteq> owner \<longrightarrow> ?int i w = None) \<and>
    (recorded look_set fd w \<longleftrightarrow> ?int owner w \<noteq> None)"
  let ?Q = "\<lambda>i w. i = owner \<longrightarrow> ?int owner w = None"
  have d: "does len (?f :: _ \<Rightarrow> (_, _, ('co, 'tf, 'ds, 'dt, 'p, 'po, 'z) world_scheme) prog) ?J ?Q"
    unfolding does_def
  proof (intro conjI allI impI)
    fix i and w :: "('co, 'tf, 'ds, 'dt, 'p, 'po, 'z) world_scheme"
    assume a: "i < len \<and> ?J w"
    let ?e = "EVENT_LOOPS w ! i"
    from a deleting_selector.sel_del_event_effect [OF sel, of w fd "el_poller ?e"] obtain r p' w'
      where e: "sel_del_event M P fd (el_poller ?e, w) = Some (r, (p', w'))" "\<forall>m. r \<noteq> Panic m"
        "maps_ok ok_fd ok_set ok_tok w'" "EVENT_LOOPS w' = EVENT_LOOPS w" "INDEX w' = INDEX w"
        "if recorded look_set fd w \<and> interest (el_poller ?e) fd \<noteq> None then interest p' fd = None \<and> \<not> recorded look_set fd w'
         else interest p' fd = interest (el_poller ?e) fd \<and> recorded look_set fd w' = recorded look_set fd w" by blast
    let ?w = "w'\<lparr>EVENT_LOOPS := (EVENT_LOOPS w)[i := ?e\<lparr>el_poller := p'\<rparr>]\<rparr>"
    have "\<exists>r. ?f i w = Some (r, ?w) \<and> (\<forall>m. r \<noteq> Panic m)"
      using e by (cases r) (simp_all add: on_loop_def el_del_event_def on_selector_def)
    moreover have int: "?int j ?w = (if i = j \<and> j < len then interest p' fd else ?int j w)" for j
      using a by (simp add: nth_list_update)
    have rec: "recorded look_set fd ?w = recorded look_set fd w'" by (simp add: recorded_def)
    have "maps_ok ok_fd ok_set ok_tok ?w" using e(3) by (simp add: maps_ok_def)
    with a e(6) assms(6) have "?J ?w" unfolding int rec by (auto split: if_splits)
    moreover have "\<forall>j. ?Q j w \<longrightarrow> ?Q j ?w" "?Q i ?w" using a e(6) assms(6) unfolding int by (auto split: if_splits)
    ultimately show "\<exists>r w'. ?f i w = Some (r, w') \<and> (\<forall>m. r \<noteq> Panic m) \<and> ?J w' \<and> INDEX w' = INDEX w \<and> ?Q i w' \<and>
        (\<forall>j. ?Q j w \<longrightarrow> ?Q j w')" using e(5) by fastforce
  qed (auto simp: maps_ok_def recorded_def)
  have "?J w" using assms(2,5,7,8) by blast
  from each_next_does [OF d assms(3) this assms(4), of preemptive False, unfolded simp_thms]
  obtain w1 where w1: "each_next preemptive False ?f len w = Some (Ok (), w1)" "?J w1"
    "\<forall>i \<in> chosen False len (unat (INDEX w)) len. ?Q i w1" by blast
  have "?int owner w1 = None" using w1(3) assms(3,6) chosen_all [of len "unat (INDEX w)"] by simp
  with w1(2) have "\<forall>i < len. ?int i w1 = None" "\<not> recorded look_set fd w1" by auto
  with w1(1) assms(2) show ?thesis by (auto simp: loops_del_event_def for_each_loop_def)
qed

end
