(* ===== verification/RefKernel.thy ===== *)
theory RefKernel
  imports BlockingMode LoopClaims LoopsReach PoolClaims
begin

text \<open>
  A reference for the parameters of the system calls: a C library whose descriptors have flags and whose calls answer from a
  list of prepared replies, and the resumption of a coroutine by an event. The interfaces of the system calls are
  interpreted on it, together with the event loops and the pool of the development, and the theorems about the calls
  are applied to it.
\<close>

unbundle bit_operations_syntax

record ('co, 'tf, 'ds, 'dt, 'p, 'po) kernel = "('co, 'tf, 'ds, 'dt, 'p, 'po) world" +
  k_flags :: "(c_int \<times> c_int) list"
  k_replies :: "(int \<times> c_int) list"
  k_waited :: nat

text \<open>A reply is a value and, for the value -1, the error.\<close>

definition reply :: "('co, 'tf, 'ds, 'dt, 'p, 'po, 'z) kernel_scheme
    \<Rightarrow> 'w::len word \<times> ('co, 'tf, 'ds, 'dt, 'p, 'po, 'z) kernel_scheme" where
  "reply s =
     (case k_replies s of
        [] \<Rightarrow> (0, s)
      | (v, e) # rs \<Rightarrow> (of_int v, s\<lparr>k_replies := rs, errno := if v = - 1 then e else errno s\<rparr>))"

definition k_mode :: "('co, 'tf, 'ds, 'dt, 'p, 'po, 'z) kernel_scheme \<Rightarrow> c_int \<Rightarrow> c_int option" where
  "k_mode s fd =
     (case map_of (k_flags s) fd of None \<Rightarrow> None | Some f \<Rightarrow> if bit f 31 then None else Some f)"

definition k_getfl :: "c_int \<Rightarrow> ('co, 'tf, 'ds, 'dt, 'p, 'po, 'z) kernel_scheme
    \<Rightarrow> c_int \<times> ('co, 'tf, 'ds, 'dt, 'p, 'po, 'z) kernel_scheme" where
  "k_getfl fd s = (case k_mode s fd of None \<Rightarrow> (- 1, s) | Some f \<Rightarrow> (f, s))"

definition k_setfl :: "c_int \<Rightarrow> c_int \<Rightarrow> ('co, 'tf, 'ds, 'dt, 'p, 'po, 'z) kernel_scheme
    \<Rightarrow> c_int \<times> ('co, 'tf, 'ds, 'dt, 'p, 'po, 'z) kernel_scheme" where
  "k_setfl fd v s = (case k_mode s fd of None \<Rightarrow> (- 1, s) | Some _ \<Rightarrow> (0, s\<lparr>k_flags := (fd, v) # k_flags s\<rparr>))"

definition kernel_libc :: "('co, 'tf, 'ds, 'dt, 'p, 'po, 'z) kernel_scheme libc_ops" where
  "kernel_libc =
     \<lparr>lc_fcntl_getfl = k_getfl, lc_fcntl_setfl = k_setfl,
      lc_getsockopt_error = (\<lambda>fd e n s. ((0, 0), s)), lc_getpeername = (\<lambda>fd. reply),
      lc_sleep = (\<lambda>_. reply), lc_usleep = (\<lambda>_. reply), lc_nanosleep = (\<lambda>_ _. reply),
      lc_poll = (\<lambda>_ _ _. reply), lc_select = (\<lambda>_ _ _ _ _. reply), lc_socket = (\<lambda>_ _ _. reply),
      lc_listen = (\<lambda>_ _. reply), lc_accept = (\<lambda>_ _ _. reply), lc_connect = (\<lambda>_ _ _. reply),
      lc_shutdown = (\<lambda>_ _. reply), lc_close = (\<lambda>_. reply), lc_recv = (\<lambda>_ _ _ _. reply),
      lc_recvfrom = (\<lambda>_ _ _ _ _ _. reply), lc_read = (\<lambda>_ _ _. reply), lc_pread = (\<lambda>_ _ _ _. reply),
      lc_readv = (\<lambda>_ _ _. reply), lc_preadv = (\<lambda>_ _ _ _. reply), lc_recvmsg = (\<lambda>_ _ _. reply),
      lc_send = (\<lambda>_ _ _ _. reply), lc_sendto = (\<lambda>_ _ _ _ _ _. reply), lc_write = (\<lambda>_ _ _. reply),
      lc_pwrite = (\<lambda>_ _ _ _. reply), lc_writev = (\<lambda>_ _ _. reply), lc_pwritev = (\<lambda>_ _ _ _. reply),
      lc_sendmsg = (\<lambda>_ _ _. reply), lc_epoll_ctl = (\<lambda>_ _ _ _. reply), lc_accept4 = (\<lambda>_ _ _ _. reply)\<rparr>"

lemma reply_view [simp]: "cur (snd (reply s)) = cur s" "SYSCALL (snd (reply s)) = SYSCALL s" "k_flags (snd (reply s)) = k_flags s"
  by (simp_all add: reply_def split: list.splits prod.splits)

lemma kernel_libc_quiet: "libc_quiet kernel_libc"
  by (simp add: libc_quiet_def quiet_def kernel_libc_def k_getfl_def k_setfl_def split: option.splits)

lemma nonneg_iff_bit: "\<not> (f :: c_int) <s 0 \<longleftrightarrow> \<not> bit f 31"
  by (simp add: word_sless_alt sint_uint signed_take_bit_negative_iff bit_uint_iff)

lemma k_mode_cong: "k_flags t = k_flags s \<Longrightarrow> k_mode t = k_mode s"
  by (simp add: k_mode_def fun_eq_iff)

lemma k_modeD: "k_mode s fd = Some f \<Longrightarrow> map_of (k_flags s) fd = Some f \<and> \<not> bit f 31"
  by (simp add: k_mode_def split: option.splits if_splits)

lemma not_bit_31:
  assumes "\<not> bit (f :: c_int) 31"
  shows "\<not> bit (f OR O_NONBLOCK) 31" "\<not> bit (f AND NOT O_NONBLOCK) 31"
  using assms by (simp_all add: bit_or_iff bit_and_iff bit_O_NONBLOCK)

interpretation kernel: fcntl_modes kernel_libc k_mode
proof (unfold_locales, goal_cases)
  case (1 s fd f)
  then show ?case using nonneg_iff_bit [of f] by (simp add: kernel_libc_def k_getfl_def k_modeD)
next
  case (2 fd s)
  show ?case by (simp add: kernel_libc_def k_getfl_def split: option.splits)
next
  case (3 s fd f v)
  then have "\<not> bit v 31" using not_bit_31 k_modeD [OF 3(1)] by auto
  with 3 show ?case by (auto simp: kernel_libc_def k_setfl_def k_mode_def fun_eq_iff)
qed

subsection \<open>The calls on the event loops\<close>

text \<open>The resumption of a waiting coroutine by an event.\<close>

definition event_yield :: "'el \<times> (('k, unit, 'r, 'l) coroutine, 'z) io_scheme
    \<Rightarrow> 'el \<times> (('k, unit, 'r, 'l) coroutine, 'z) io_scheme" where
  "event_yield = (\<lambda>(e, w). (e, w\<lparr>cur := map_option (\<lambda>co.
     case co_state co of SystemCall u sc (Sys_Suspend _) \<Rightarrow> co\<lparr>co_state := SystemCall u sc Sys_Computing\<rparr> | _ \<Rightarrow> co) (cur w)\<rparr>))"

lemma event_yield_resumes: "resumes event_yield"
  by (auto simp: resumes_def event_yield_def at_call_def split: option.splits coroutine_state.splits)

text \<open>
  The interface \<open>call_layer\<close> holds of the development's own event loops and pool: for every call and every coroutine.
\<close>

interpretation chain: call_layer "in_call sc (Some n)" kernel_libc
    "loops_events preemptive M P (model_pool T Q D L E V f alloc page_size uuid worker local_default run others) event_yield
       malloc pthread_self"
  by (rule in_call_layer [OF kernel_libc_quiet loops_give_back [OF event_yield_resumes model_pool_resume_quiet]])

subsection \<open>A process\<close>

text \<open>Two event loops with pools that have nothing to do, and one running coroutine with a socket.\<close>

definition still_pool :: "('s, nat) pool_ops" where
  "still_pool =
     \<lparr>po_schedule = (\<lambda>t. ret 0), po_try_resume = (\<lambda>_ s. (Ok (), s)), po_try_get_result = (\<lambda>_ s. (None, s)),
      po_wait_result = (\<lambda>_ _. fail Wait_timeout), po_size = (\<lambda>_. 0), po_stop = (\<lambda>_. ret ()),
      po_submit_raw = (\<lambda>t s. (Ok (tk_name t), s)), po_pop = ret None\<rparr>"

lemma still_pool_quiet: "resume_quiet still_pool"
  by (simp add: resume_quiet_def still_pool_def)

type_synonym ref_coroutine = "(unit, unit, unit, unit) coroutine"
type_synonym ref_process = "(ref_coroutine, (usize \<times> c_int) list, (c_int \<times> unit) list, (c_int \<times> usize) list, ref_pool, ref_poller) kernel"

definition ref_loop :: "nat \<Rightarrow> (ref_pool, ref_poller) event_loop" where
  "ref_loop i = \<lparr>el_cpu = i, el_pool = ref_pool Pool_Running [] [] [] 0, el_poller = ([], []), el_stop_pending = False\<rparr>"

definition ref_process :: "(int \<times> c_int) list \<Rightarrow> ref_process" where
  "ref_process replies =
     world.extend (net.extend
       (ref_net\<lparr>cur := Some \<lparr>co_name = ''c'', co_inner = \<lparr>in_started = True, in_done = False, in_cont = ()\<rparr>,
           co_state = Running, co_local = ()\<rparr>, SUSPENDER := [''s'']\<rparr>)
       (world.fields [ref_loop 0, ref_loop 1] 5)) (kernel.fields [(3, 2)] replies 0)"

definition ref_events :: "(unit el_error, ref_process) event_ops" where
  "ref_events = loops_events True ref_maps list_poller still_pool event_yield (\<lambda>l. 1000 + of_nat (length l)) 0"

lemma ref_process_eqs [simp]:
  "cur (ref_process rs) = Some \<lparr>co_name = ''c'', co_inner = \<lparr>in_started = True, in_done = False, in_cont = ()\<rparr>,
     co_state = Running, co_local = ()\<rparr>"
  "clk (ref_process rs) = (\<lambda>n. n)" "reads (ref_process rs) = 0"
  "EVENT_LOOPS (ref_process rs) = [ref_loop 0, ref_loop 1]" "INDEX (ref_process rs) = 5"
  "k_flags (ref_process rs) = [(3, 2)]" "k_replies (ref_process rs) = rs" "k_waited (ref_process rs) = 0"
  by (simp_all add: ref_process_def net.defs world.defs kernel.defs ref_net_def)

lemma ref_flags [simp]: "\<not> (2 :: c_int) <s 0" "\<not> (2050 :: c_int) <s 0"
  by (simp_all add: word_sless_alt)

lemmas blocking_defs = impl_non_blocking_def is_blocking_def is_non_blocking_def set_non_blocking_def set_blocking_def
  set_non_blocking_flag_def k_getfl_def k_setfl_def k_mode_def O_NONBLOCK_def

lemmas step_defs = andThen_def gets_def state_of_def upd_def ret_def reset_errno_def set_errno_def c_call_def reply_def Let_def

lemmas chain_defs = change_state_def begin_call_def end_call_def on_current_def co_syscall_def co_syscall_resume_def
  co_state_of_def syscall_init_current_def syscall_clean_current_def

lemma ref_recv_returns:
  "\<exists>t. hook_recv kernel_libc ref_events (lc_recv kernel_libc) 3 0 8 0 (ref_process [(5, 0)]) = Some (Ok 5, t)"
  by (simp add: hook_recv_def facade_recv_def state_recv_def nio_recv_def impl_read_nio_buf_def impl_nio_buf_def
      nio_buf_loop.simps wait_or_break_def raw_recv_def kernel_libc_def chain_defs blocking_defs step_defs)

text \<open>Event loops on which nothing happens, that count the time of the waits.\<close>

definition idle_events :: "(unit, ref_process) event_ops" where
  "idle_events =
     \<lparr>ev_wait = (\<lambda>d s. Some (Ok 0, s\<lparr>k_waited := k_waited s + (case d of None \<Rightarrow> 0 | Some t \<Rightarrow> t)\<rparr>)),
      ev_wait_read = (\<lambda>_ _ _. ret 0), ev_wait_write = (\<lambda>_ _ _. ret 0),
      ev_del = (\<lambda>_. ret ()), ev_del_read = (\<lambda>_. ret ()), ev_del_write = (\<lambda>_. ret ())\<rparr>"

lemma ref_read_returns:
  "\<exists>t. impl_nio kernel_libc (ev_wait_read idle_events) 3 (raw_read kernel_libc None 3 0 8) (ref_process [(5, 0)]) = Some (Ok 5, t)"
  by (simp add: impl_nio_def nio_loop.simps raw_read_def kernel_libc_def blocking_defs step_defs)

subsection \<open>The theorems on the reference\<close>

theorem loops_give_calls_back_witness:
  "waits_keep (in_call Sys_recv (Some ''c'')) ref_events \<and>
   in_call Sys_recv (Some ''c'') ((ref_process [])\<lparr>cur := Some \<lparr>co_name = ''c'', co_inner = \<lparr>in_started = True, in_done = False, in_cont = ()\<rparr>,
     co_state = SystemCall () Sys_recv Sys_Computing, co_local = ()\<rparr>\<rparr>)"
  unfolding ref_events_def
  using loops_give_calls_back [OF event_yield_resumes still_pool_quiet] by (simp add: in_call_def)

theorem calls_return_to_running_witness:
  "\<exists>t. hook_recv kernel_libc ref_events (lc_recv kernel_libc) 3 0 8 0 (ref_process [(5, 0)]) = Some (Ok 5, t) \<and>
     at_rest (Some ''c'') (ref_process [(5, 0)]) \<and> at_rest (Some ''c'') t"
proof -
  have "waits_keep (in_call sc (Some ''c'')) ref_events" for sc
    unfolding ref_events_def by (rule loops_give_back [OF event_yield_resumes still_pool_quiet])
  from calls_return_to_running [OF kernel_libc_quiet this]
  have "call_balanced (Some ''c'') (hook_recv kernel_libc ref_events (lc_recv kernel_libc) 3 0 8 0)" by simp
  moreover have "at_rest (Some ''c'') (ref_process [(5, 0)])" by (simp add: at_rest_def)
  ultimately show ?thesis using ref_recv_returns unfolding call_balanced_def by blast
qed

theorem blocking_mode_restored_witness:
  "\<exists>s'. impl_nio kernel_libc (ev_wait_read idle_events) 3 (raw_read kernel_libc None 3 0 8) (ref_process [(5, 0)]) = Some (Ok 5, s') \<and>
     k_mode (ref_process [(5, 0)]) 3 = Some 2 \<and> k_mode s' 3 = Some 2"
proof -
  have call: "keeps (\<lambda>s :: ref_process. k_mode s 3 = m) (raw_read kernel_libc None 3 0 8)" for m
    unfolding raw_read_def kernel_libc_def c_call_def by (simp add: keeps_state_of k_mode_def)
  have wait: "keeps (\<lambda>s :: ref_process. k_mode s 3 = m) (ev_wait_read idle_events 3 b d)" for m b d
    unfolding idle_events_def by (simp add: keeps)
  have m: "k_mode (ref_process [(5, 0)]) 3 = Some 2" by (simp add: k_mode_def)
  have "k_mode (reset_errno s) 3 = k_mode s 3" for s :: ref_process
    by (simp add: k_mode_def reset_errno_def set_errno_def)
  from blocking_mode_restored [where wait = "ev_wait_read idle_events", OF kernel.fcntl_modes_axioms m call wait this]
    m ref_read_returns show ?thesis by blast
qed

theorem vector_transfer_is_one_call_witness:
  "let s = (ref_process [])\<lparr>mem_iovec := (\<lambda>p. \<lparr>iov_base = p, iov_len = if p = 16 then 0 else 4\<rparr>)\<rparr> in
   nio_iovec_block (ev_wait_read idle_events) True 3 (\<lambda>p n. ret 4) 16 2 s =
     andThen (nio_loop (\<lambda>added. ev_wait_read idle_events 3 added (Some (10 * ms))) (ret 4) False)
       (\<lambda>r. andThen (upd (\<lambda>s. s\<lparr>freed := 16 # freed s\<rparr>)) (\<lambda>_. ret (Inr r))) s"
proof -
  let ?s = "(ref_process [])\<lparr>mem_iovec := (\<lambda>p. \<lparr>iov_base = p, iov_len = if p = 16 then 0 else 4\<rparr>)\<rparr>"
  have vs: "iovecs 16 2 ?s = [\<lparr>iov_base = 16, iov_len = 0\<rparr>, \<lparr>iov_base = 32, iov_len = 4\<rparr>]"
    by (simp add: iovecs_def iovec_at_def upt_rec)
  show ?thesis
    unfolding Let_def
    using vector_transfer_is_one_call [of 16 2 ?s 1 "ev_wait_read idle_events" True 3 "\<lambda>p n. ret 4"] by (simp add: vs)
qed

theorem sleep_returns_after_deadline_witness:
  "\<exists>s' k. nio_sleep idle_events None 1 (ref_process []) = Some (Ok 0, s') \<and> errno s' = 0 \<and> k < reads s' \<and> 1000000000 \<le> k"
proof -
  have "waits_return idle_events" by (simp add: waits_return_def idle_events_def)
  moreover have "unat (fst (now (ref_process []))) = 0" by (simp add: now_def u64_try_from_def)
  moreover have "\<forall>t. \<exists>K. t \<le> clk (ref_process []) K" by auto
  ultimately show ?thesis
    using sleep_returns_after_deadline [of idle_events "ref_process []" None 1] by (auto simp: mono_def)
qed


theorem select_waits_thousandfold_witness:
  "\<exists>s'. nio_select 64 kernel_libc idle_events (Some (\<lambda>_ _ _ _ _ s. (0, s))) 1 0 0 0 8
        ((ref_process [])\<lparr>mem_timeval := (\<lambda>_. \<lparr>tv_sec = 0, tv_usec = 5000\<rparr>)\<rparr>) = Some (Ok 0, s') \<and> k_waited s' = 5000000000"
proof -
  let ?s = "(ref_process [])\<lparr>mem_timeval := (\<lambda>_. \<lparr>tv_sec = 0, tv_usec = 5000\<rparr>)\<rparr>"
  have "records_waits idle_events k_waited" by (simp add: records_waits_def idle_events_def)
  moreover have "finds_nothing (raw_select kernel_libc (Some (\<lambda>_ _ _ _ _ s. (0, s))) 1 0 0 0 64) (k_waited :: ref_process \<Rightarrow> nat)"
    by (simp add: finds_nothing_def raw_select_def c_call_def state_of_def)
  ultimately show ?thesis
    using select_waits_thousandfold [of idle_events k_waited kernel_libc "Some (\<lambda>_ _ _ _ _ s. (0, s))" 1 0 0 0 64 8
        "\<lparr>tv_sec = 0, tv_usec = 5000\<rparr>" ?s 5000] by simp
qed

interpretation ref_deleting: deleting_selector list_poller ref_interest ref_maps map_of alist_ok map_of alist_ok map_of alist_ok
  by unfold_locales (auto simp: list_poller_def ref_interest_def split: prod.splits)

text \<open>The process with the socket registered on its second loop.\<close>

definition ref_registered :: ref_process where
  "ref_registered = (ref_process [])
     \<lparr>EVENT_LOOPS := [ref_loop 0, (ref_loop 1)\<lparr>el_poller := ([(3, (True, False))], [])\<rparr>], INDEX := 0,
      TOKEN_FD := [(70, 3)], READABLE_RECORDS := [(3, ())], READABLE_TOKEN_RECORDS := [(3, 70)]\<rparr>"

lemma ref_registered_eqs [simp]:
  "EVENT_LOOPS ref_registered = [ref_loop 0, (ref_loop 1)\<lparr>el_poller := ([(3, (True, False))], [])\<rparr>]" "INDEX ref_registered = 0"
  "TOKEN_FD ref_registered = [(70, 3)]" "READABLE_RECORDS ref_registered = [(3, ())]"
  "READABLE_TOKEN_RECORDS ref_registered = [(3, 70)]" "WRITABLE_RECORDS ref_registered = []" "WRITABLE_TOKEN_RECORDS ref_registered = []"
  by (simp_all add: ref_registered_def ref_process_def net.defs world.defs kernel.defs ref_net_def)

theorem close_removes_descriptor_witness:
  "\<exists>w'. loops_del_event True ref_maps list_poller 3 ref_registered = Some (Ok (), w') \<and>
     ref_interest (el_poller (EVENT_LOOPS w' ! 1)) 3 = None \<and> recorded map_of 3 ref_registered \<and> \<not> recorded map_of 3 w'"
proof -
  have "maps_ok alist_ok alist_ok alist_ok ref_registered" by (simp add: maps_ok_def alist_ok_def)
  moreover have "recorded map_of 3 ref_registered" by (simp add: recorded_def)
  ultimately show ?thesis
    using close_removes_descriptor [OF ref_deleting.deleting_selector_axioms, where w = ref_registered and len = 2 and
        owner = 1 and fd = 3 and preemptive = True]
    by (fastforce simp: ref_interest_def ref_loop_def less_2_cases_iff)
qed

text \<open>The token of the descriptor stays behind when the search did not begin with its loop.\<close>

lemma close_leaks_token:
  "map_option (\<lambda>(r, w). TOKEN_FD w) (loops_del_event True ref_maps list_poller 3 ref_registered) = Some [(70, 3)]"
  by (simp add: loops_del_event_def for_each_loop_def loops_next_def MONITOR_CPU_def on_loop_def el_del_event_def
      on_selector_def sel_del_event_def remove_tokens_def deregister_def on_poller_def ref_loop_def list_poller_def
      alist_map_def andThen_def attempt_def gets_def state_of_def upd_def ret_def Let_def)

lemma loops_leave_enter [simp]:
  "EVENT_LOOPS (snd (leave (enter p w))) = EVENT_LOOPS w" "INDEX (snd (leave (enter p w))) = INDEX w"
  by (cases w; simp add: leave_def enter_def pool.defs tls.defs)+


end
