(* ===== verification/RefPool.thy ===== *)
theory RefPool
  imports StopClaims SchedulerClaims
begin

text \<open>
  Pools for which the terms of \<open>WorkerSpec\<close> and \<open>WorkerClaims\<close> hold: the work stealing queue, the association list maps, the
  \<^verbatim>\<open>DelayBlocker\<close>, and tasks that add a number to their parameter or that suspend a number of times; with them, the claims about
  the workers of a pool are applied.
\<close>

subsection \<open>Blocker and names\<close>

lemma delay_block_suspends:
  "suspender_current s \<noteq> None \<Longrightarrow> \<exists>s'. delay_block b d s = (True, s') \<and> quiet s s' \<and> same_client s s'"
  by (auto simp: delay_block_def delay_with_def until_with_def get_timeout_time_def now_def quiet_def same_places_def
      advances_def same_client_def Let_def split: option.splits prod.splits)

text \<open>A suffix that is longer than all names in use.\<close>

definition longer_suffix :: "('k, 'l) event \<Rightarrow> (('k, 'l) sched_co ref_queue, (string \<times> ('k, 'l) sched_co) list, 'k, 'l, 'li, 'w) sched_scheme \<Rightarrow> string" where
  "longer_suffix e s = replicate (length (co_name (event_co e)) + \<Sum>\<^sub># (image_mset length (names ref_items map_of s))) CHR ''x''"

lemma longer_suffix_fresh: "sc_name s @ ''|'' @ longer_suffix e s \<notin># add_mset (co_name (event_co e)) (names ref_items map_of s)"
proof
  let ?N = "names ref_items map_of s" and ?n = "sc_name s @ ''|'' @ longer_suffix e s"
  assume "?n \<in># add_mset (co_name (event_co e)) ?N"
  then have "length ?n \<le> \<Sum>\<^sub># (image_mset length (add_mset (co_name (event_co e)) ?N))"
    by (metis (no_types, lifting) image_mset_add_mset le_add1 multi_member_split sum_mset.add_mset)
  then show False by (simp add: longer_suffix_def)
qed

subsection \<open>Tasks that run to their end\<close>

definition between_tasks :: "'t worker_at \<Rightarrow> bool \<Rightarrow> bool" where
  "between_tasks k in_call = (case k of Looping _ \<Rightarrow> \<not> in_call | Blocked _ \<Rightarrow> \<not> in_call | _ \<Rightarrow> False)"

definition add_end :: "nat \<times> usize option \<Rightarrow> task_end" where
  "add_end t = (case t of (n, None) \<Rightarrow> Panicked None | (n, Some v) \<Rightarrow> Gives (Some (v + of_nat n)))"

definition add_run where
  "add_run t co s = (case add_end t of Gives v \<Rightarrow> Returns v | Panicked m \<Rightarrow> Panics m, t, co, s)"

interpretation adding: task_pool ref_ops ref_items ref_ok alist_map map_of alist_ok between_tasks list_task_queue fst snd
  alist_map alist_map Pair add_run delay_block "\<lambda>_. True" 4096 longer_suffix "()" "()" "\<lambda>l e s. s" map_of alist_ok add_end
  by (intro task_pool.intro pool_setting.intro scheduler.intro ref_queue.ready_queue_axioms alist.dash_map_axioms
      ref_tasks.task_queue_axioms pool_setting_axioms.intro task_pool_axioms.intro delay_block_suspends longer_suffix_fresh)
    (simp_all add: between_tasks_def add_run_def same_places_def)

text \<open>An idle pool, with a queue of tasks.\<close>

type_synonym ('f, 't) ref_task_pool = "(('t worker_at, unit) sched_co ref_queue, (string \<times> ('t worker_at, unit) sched_co) list,
    't worker_at, unit, unit, 'f task list \<times> nat, unit, (string \<times> task_result) list, (string \<times> bool) list) pool"

definition idle_pool :: "'f task list \<Rightarrow> ('f, 't) ref_task_pool" where
  "idle_pool ts = \<lparr>clk = (\<lambda>i. 10 * i), reads = 1, TIMESTAMP = [], COROUTINE = [], SUSPENDER = [], SYSCALL = [],
     SCHEDULER = [], COROUTINE_POOL = [], TRAP_HANDLER_INITED = True, signal_handlers = [],
     sc_name = ''p'', sc_stack_size = 0,
     sc_ready = (lq_new 0 \<lparr>one = 1, two = 2\<rparr>,
       \<lparr>shared_queue = ([], 1), wsq_len = 0, local_queues = [(2, [])], wsq_index = 1,
        seed_generator = \<lparr>gen_state = \<lparr>one = 1, two = 2\<rparr>\<rparr>\<rparr>),
     sc_suspend = [], sc_syscall = [], sc_syscall_suspend = [], sc_listeners = [()],
     pl_cpu = 1, pl_state = Pool_Created, pl_task_queue = (ts, 0), pl_scheduling = False, pl_running = 0,
     pl_pop_fail_times = 0, pl_min_size = 0, pl_max_size = 4, pl_keep_alive_time = 0, pl_blocker = (),
     pl_results = [], pl_waits = [], pl_stop_pending = True\<rparr>"

lemma idle_pool_names: "owned ref_items map_of (idle_pool ts) = {#}" "names ref_items map_of (idle_pool ts) = {#}"
  by (simp_all add: names_def owned_def idle_pool_def ref_items_def ws_items_def map_vals_def)

lemma idle_pool_inv: "sched_inv ref_items ref_ok map_of alist_ok okk (idle_pool ts) {#}"
  unfolding sched_inv_def idle_pool_names
  by (simp add: idle_pool_def ref_ok_def ref_items_def ws_items_def ws_inv_def handle_ok_def lq_new_def list_worker_ok_def tl_inv_def
      alist_ok_def mono_def)

lemma idle_pool_ready:
  "\<not> pl_scheduling (idle_pool ts)" "sc_name (idle_pool ts) @ ''|'' @ uuid \<notin># names ref_items map_of (idle_pool ts)"
  "unat (1000 :: u64) \<le> clk (idle_pool ts) 100" "alist_ok (pl_results (idle_pool ts))"
  unfolding idle_pool_names by (simp_all add: idle_pool_def alist_ok_def)

text \<open>Two tasks, the second of which panics.\<close>

definition two_tasks :: "(nat, nat \<times> usize option) ref_task_pool" where
  "two_tasks = idle_pool [task_new ''t'' 2 (Some 40), task_new ''w'' 3 None]"

lemma two_tasks_books:
  "distinct (map tk_name (fst (pl_task_queue two_tasks)))"
  "\<forall>t \<in> set (fst (pl_task_queue two_tasks)). map_of (pl_results two_tasks) (tk_name t) = None"
  "map_of (pl_results two_tasks) ++ map_of (due (\<lambda>f p. add_end (f, p)) (fst (pl_task_queue two_tasks))) =
     [''t'' \<mapsto> Ok (Some 42), ''w'' \<mapsto> Err ''task failed without message'']"
  by (auto simp: two_tasks_def idle_pool_def task_new_def add_end_def result_of_def)

theorem pool_runs_all_tasks_witness:
  "\<exists>left s'. pool_try_timeout_schedule list_task_queue ref_ops alist_map
      (pool_listener list_task_queue ref_ops (\<lambda>_. True) 4096 longer_suffix () () (\<lambda>l e s. s))
      (worker_fn list_task_queue alist_map alist_map Pair add_run delay_block) (\<lambda>_. True) 4096 ''u'' Looping () 1000
      two_tasks = Some (Ok left, s') \<and>
    map_of (pl_results s') ++ map_of (due (\<lambda>f p. add_end (f, p)) (fst (pl_task_queue s'))) =
      [''t'' \<mapsto> Ok (Some 42), ''w'' \<mapsto> Err ''task failed without message''] \<and>
    (left \<noteq> 0 \<longrightarrow> fst (pl_task_queue s') = [])"
proof -
  have f: "\<not> stopping (pl_state two_tasks)" "pl_running two_tasks < pl_max_size two_tasks"
    by (simp_all add: two_tasks_def idle_pool_def stopping_def word_less_nat_alt)
  from pool_runs_all_tasks [where alloc = "\<lambda>_. True" and uuid = "''u''" and page_size = 4096 and local_default = "()" and creator = "()"
      and V = alist_map and start = Pair, OF adding.task_pool_axioms, of two_tasks, unfolded two_tasks_def,
      OF idle_pool_ready(1) idle_pool_inv idle_pool_ready(2,3) TrueI idle_pool_ready(4), folded two_tasks_def, OF two_tasks_books(1,2)]
  show ?thesis unfolding two_tasks_books(3) using f ref_queue.ready_queue_quiet_axioms by blast
qed

text \<open>Stopping the same pool.\<close>

theorem stop_runs_all_tasks_witness:
  "\<exists>s'. pool_stop list_task_queue (pool_try_timeout_schedule list_task_queue ref_ops alist_map
      (pool_listener list_task_queue ref_ops (\<lambda>_. True) 4096 longer_suffix () () (\<lambda>l e s. s))
      (worker_fn list_task_queue alist_map alist_map Pair add_run delay_block) (\<lambda>_. True) 4096 ''u'' Looping ()) (\<lambda>d s. s) 1000
      two_tasks = Some (Ok (), s') \<and> pl_state s' = Pool_Stopped \<and> pl_running s' = 0 \<and> fst (pl_task_queue s') = [] \<and>
    map_of (pl_results s') = [''t'' \<mapsto> Ok (Some 42), ''w'' \<mapsto> Err ''task failed without message'']"
proof -
  have pre: "pl_state two_tasks = Pool_Created" "\<not> pl_scheduling two_tasks"
    "sched_inv ref_items ref_ok map_of alist_ok between_tasks two_tasks {#}"
    "sc_name two_tasks @ ''|'' @ ''u'' \<notin># names ref_items map_of two_tasks" "pl_running two_tasks = 0" "0 < pl_max_size two_tasks"
    "alist_ok (pl_results two_tasks)"
    unfolding two_tasks_def using idle_pool_ready idle_pool_inv by (simp_all add: idle_pool_def)
  have time: "\<forall>i. reads two_tasks \<le> i \<and> i \<le> reads two_tasks + 3 + 0 * length (sc_listeners two_tasks) \<longrightarrow>
      clk two_tasks (Suc i) < min (clk two_tasks i + 1000) (2 ^ 64 - 1)" "2 ^ 64 - 1 \<le> clk two_tasks (2 ^ 64)"
    by (simp_all add: two_tasks_def idle_pool_def)
  from stop_runs_all_tasks [where alloc = "\<lambda>_. True" and c = 0 and page_size = 4096 and local_default = "()" and creator = "()"
      and V = alist_map and start = Pair, OF adding.task_pool_axioms pre(1-6) ref_queue.ready_queue_quiet_axioms TrueI _ pre(7)
      two_tasks_books(1,2) time]
  show ?thesis unfolding two_tasks_books(3) by simp
qed

subsection \<open>Tasks that suspend\<close>

definition worker_places :: "'t worker_at \<Rightarrow> bool \<Rightarrow> bool" where
  "worker_places k in_call =
     (case k of Looping _ \<Rightarrow> \<not> in_call | Blocked _ \<Rightarrow> \<not> in_call | In_task _ _ _ \<Rightarrow> True | Ended \<Rightarrow> False)"

definition yield_run where
  "yield_run t co s =
     (case t of 0 \<Rightarrow> (Returns (None :: usize option), 0, leave_syscall co, s) | Suc n \<Rightarrow> (Yields (), n, leave_syscall co, s))"

interpretation yielding: pool_worker ref_ops ref_items ref_ok alist_map map_of alist_ok worker_places list_task_queue fst snd
  alist_map alist_map "\<lambda>f p. f" yield_run delay_block "\<lambda>_. True" 4096 longer_suffix "()" "()" "\<lambda>l e s. s"
  by (intro pool_worker.intro pool_setting.intro scheduler.intro ref_queue.ready_queue_axioms alist.dash_map_axioms
      ref_tasks.task_queue_axioms pool_setting_axioms.intro pool_worker_axioms.intro delay_block_suspends longer_suffix_fresh)
    (auto simp: worker_places_def yield_run_def same_places_def leave_syscall_spec split: nat.splits)

abbreviation nat_tasks :: "(nat task list \<times> nat, nat task) task_queue_ops" where
  "nat_tasks \<equiv> list_task_queue"

text \<open>The scheduler of such a pool, with the pool's workers as its coroutines and the pool's listeners.\<close>

interpretation worker_sched: scheduling ref_ops ref_items ref_ok alist_map map_of alist_ok worker_places
  "pool_listener nat_tasks ref_ops (\<lambda>_. True) 4096 longer_suffix () () (\<lambda>l e s. s)"
  "worker_fn nat_tasks alist_map alist_map (\<lambda>f p. f) yield_run delay_block"
  "\<lambda>s. COROUTINE_POOL s = [''p'']" "\<lambda>s. COROUTINE_POOL s = [''p'']" True
  by (rule yielding.workers_scheduling) simp

theorem pool_schedule_returns_witness:
  "\<exists>left s'. pool_try_timeout_schedule list_task_queue ref_ops alist_map
      (pool_listener list_task_queue ref_ops (\<lambda>_. True) 4096 longer_suffix () () (\<lambda>l e s. s))
      (worker_fn list_task_queue alist_map alist_map (\<lambda>f p. f) yield_run delay_block) (\<lambda>_. True) 4096 ''u'' Looping () 1000
      (idle_pool [task_new ''t'' (3 :: nat) None, task_new ''w'' 0 None]) = Some (Ok left, s') \<and>
    \<not> pl_scheduling s' \<and> COROUTINE_POOL s' = [] \<and> SCHEDULER s' = []"
proof -
  let ?s = "idle_pool [task_new ''t'' (3 :: nat) None, task_new ''w'' 0 None]"
  have c: "COROUTINE_POOL ?s = []" "SCHEDULER ?s = []" by (simp_all add: idle_pool_def)
  from pool_schedule_returns [where alloc = "\<lambda>_. True" and uuid = "''u''" and page_size = 4096 and local_default = "()" and creator = "()"
      and s = ?s and E = alist_map and V = alist_map and start = "\<lambda>f p. f", OF yielding.pool_worker_axioms idle_pool_ready(1) idle_pool_inv idle_pool_ready(2,3)
      TrueI]
  show ?thesis unfolding c by blast
qed

text \<open>Two workers, one of which may end.\<close>

theorem worker_exit_keeps_min_witness:
  "\<exists>s'. worker_step list_task_queue alist_map alist_map Pair add_run delay_block (Looping 0) (ref_co ''w'' Running 0)
      ((idle_pool [] :: (nat, nat \<times> usize option) ref_task_pool)\<lparr>COROUTINE_POOL := [''p''], pl_running := 2, pl_min_size := 1\<rparr>) =
      Some (Inr (Returns (), Ended, ref_co ''w'' Running 0, s')) \<and> 1 \<le> pl_running s'"
proof -
  let ?s = "(idle_pool [] :: (nat, nat \<times> usize option) ref_task_pool)\<lparr>COROUTINE_POOL := [''p''], pl_running := 2, pl_min_size := 1\<rparr>"
  obtain s' where w: "worker_step list_task_queue alist_map alist_map Pair add_run delay_block (Looping 0) (ref_co ''w'' Running 0) ?s =
      Some (Inr (Returns (), Ended, ref_co ''w'' Running 0, s'))"
    by (simp add: worker_step_def worker_idle_def idle_pool_def pool_current_def front_def pool_pop_def pool_is_empty_def
        pool_size_def list_task_queue_def stopping_def pool_get_state_def pool_get_running_size_def
        pool_get_keep_alive_time_def pool_get_min_size_def now_def u64_try_from_def word_less_nat_alt)
  have "\<not> stopping (pl_state ?s)" "pl_min_size ?s = 1" by (simp_all add: idle_pool_def stopping_def)
  with worker_exit_keeps_min [OF ref_tasks.task_queue_axioms _ w] have "1 \<le> pl_running s'" by auto
  with w show ?thesis by blast
qed

end
