(* ===== verification/Blockers.thy ===== *)
theory Blockers
  imports EventLoops
begin

text \<open>
  The blockers of \<^verbatim>\<open>open-coroutine-core/src/common.rs\<close>: the ways in which a pool, an event loop or the monitor lets time pass
  when there is nothing to do. A blocker that works on an event loop refers to it by its place among the loops of
  the process.
\<close>

datatype blocker = DelayBlocker | SleepBlocker | CondvarBlocker | NetBlocker nat | MonitorNetBlocker nat

fun blocker_name :: "blocker \<Rightarrow> string" where
  "blocker_name DelayBlocker = ''DelayBlocker''"
| "blocker_name SleepBlocker = ''SleepBlocker''"
| "blocker_name CondvarBlocker = ''CondvarBlocker''"
| "blocker_name (NetBlocker i) = ''NetBlocker''"
| "blocker_name (MonitorNetBlocker i) = ''MonitorNetBlocker''"

definition monitor_net_blocker_new :: "(blocker, 'x, ('co, 'tf, 'ds, 'dt, 'p, 'po, 'z) world_scheme) prog" where
  "monitor_net_blocker_new = andThen monitor_loop (\<lambda>i. ret (MonitorNetBlocker i))"

text \<open>
  The monitor's blocker hands the tasks that were submitted to the monitor's own loop to the other loops; \<open>None\<close>
  when that does not end.
\<close>

partial_function (option) forward_tasks where
  "forward_tasks preemptive PO malloc i w =
     (if el_is_empty PO (EVENT_LOOPS w ! i, w) then Some (Ok () :: (unit, unit el_error) outcome, w)
      else andThen (on_loop i (el_pop PO)) (\<lambda>t.
           andThen (case t of Some task \<Rightarrow> loops_submit_raw preemptive PO malloc task | None \<Rightarrow> ret ()) (\<lambda>_.
           forward_tasks preemptive PO malloc i)) w)"

text \<open>
  \<open>suspended\<close> is everything between the suspension of the calling coroutine and its resumption, \<open>sleep\<close> and \<open>cond_wait\<close> what
  happens during \<^verbatim>\<open>std::thread::sleep\<close> and during a wait on a condition variable nobody notifies; \<open>yield\<close> as for the
  event loops.
\<close>

definition block where
  "block preemptive M P PO yield malloc suspended sleep cond_wait b dur =
     (case b of
        DelayBlocker \<Rightarrow>
          andThen (gets (\<lambda>w. suspender_current w \<noteq> None)) (\<lambda>in_co.
            if in_co then upd (\<lambda>w. suspended (delay_with dur w)) else ret ())
      | SleepBlocker \<Rightarrow> upd (sleep dur)
      | CondvarBlocker \<Rightarrow> upd (cond_wait dur)
      | NetBlocker i \<Rightarrow> attempt (on_loop i (el_wait_event M P PO yield (Some dur))) (\<lambda>_. ret ())
      | MonitorNetBlocker i \<Rightarrow>
          attempt (on_loop i (wait_just M P PO yield (Some dur))) (\<lambda>_. forward_tasks preemptive PO malloc i))"

text \<open>\<^verbatim>\<open>page_size\<close> asks the system once and keeps the answer.\<close>

definition cached_page_size :: "nat \<Rightarrow> nat \<Rightarrow> nat \<times> nat" where
  "cached_page_size sysconf cache = (let ret = (if cache = 0 then sysconf else cache) in (ret, ret))"

end
