(* ===== verification/BlockerClaims.thy ===== *)
theory BlockerClaims
  imports Blockers PoolClaims "HOL-Library.Sublist"
begin

text \<open>
  The blocker of the monitor gives the tasks of the monitor's loop to the other loops: it ends, none is lost, and every
  other loop keeps the tasks it had in front of the new ones.
\<close>

subsection \<open>Tasks of a loop\<close>

definition loop_tasks where
  "loop_tasks contents e = contents (pl_task_queue (el_pool e))"

definition all_tasks where
  "all_tasks contents w = concat (map (loop_tasks contents) (EVENT_LOOPS w))"

lemma enter_queue [simp]: "pl_task_queue (enter p w) = pl_task_queue p"
  by (simp add: enter_def pool.defs)

lemma leave_queue: "leave ((enter p w)\<lparr>pl_task_queue := q\<rparr>) = (fst (leave (enter p w))\<lparr>pl_task_queue := q\<rparr>, w)"
  by (cases w) (simp add: leave_def enter_def pool.defs tls.defs)

lemma loops_next_skips:
  assumes "1 < length (EVENT_LOOPS w)"
  shows "\<exists>i k b. 0 < i \<and> i < length (EVENT_LOOPS w) \<and> loops_next True True w = Some (Ok (i, b), w\<lparr>INDEX := k\<rparr>)"
proof (cases "unat (INDEX w) mod length (EVENT_LOOPS w) = 0")
  case True
  with assms have "loops_next True True w = Some (Ok (1, False), w\<lparr>INDEX := 1\<rparr>)"
    by (auto simp: loops_next_def Let_def MONITOR_CPU_def)
  with assms show ?thesis by (intro exI [of _ 1] exI) auto
next
  case False
  with assms have "loops_next True True w =
      Some (Ok (unat (INDEX w) mod length (EVENT_LOOPS w), False), w\<lparr>INDEX := INDEX w + 1\<rparr>)"
    by (auto simp: loops_next_def Let_def MONITOR_CPU_def)
  moreover have "unat (INDEX w) mod length (EVENT_LOOPS w) < length (EVENT_LOOPS w)" using assms by (intro mod_less_divisor) linarith
  ultimately show ?thesis using False by blast
qed

lemma pool_takes:
  assumes "task_queue T contents contention" "contents (pl_task_queue p) = t # ts"
  shows "\<exists>q. pool_pop T (enter p w) = Some (Some t, (enter p w)\<lparr>pl_task_queue := q\<rparr>) \<and> contents q = ts"
  using task_queue.pool_pop_spec [OF assms(1), of "enter p w"] assms(2) by simp

lemma loop_pops:
  assumes T: "task_queue T contents contention" and i: "i < length (EVENT_LOOPS w)" "loop_tasks contents (EVENT_LOOPS w ! i) = t # ts"
  shows "\<exists>e. on_loop i (el_pop (model_pool T Q D L E V f alloc page_size uuid worker local_default run others)) w =
      Some (Ok (Some t), w\<lparr>EVENT_LOOPS := (EVENT_LOOPS w)[i := e]\<rparr>) \<and> loop_tasks contents e = ts"
proof -
  let ?e = "EVENT_LOOPS w ! i"
  obtain q where "pool_pop T (enter (el_pool ?e) w) = Some (Some t, (enter (el_pool ?e) w)\<lparr>pl_task_queue := q\<rparr>)" "contents q = ts"
    using pool_takes [OF T i(2) [unfolded loop_tasks_def]] by blast
  then show ?thesis
    by (intro exI [of _ "?e\<lparr>el_pool := fst (leave (enter (el_pool ?e) w))\<lparr>pl_task_queue := q\<rparr>\<rparr>"])
      (simp add: on_loop_def el_pop_def on_pool_def model_pool_def Let_def leave_queue loop_tasks_def)
qed

lemma loop_accepts:
  assumes T: "task_queue T contents contention" and "CHR 0x00 \<notin> set (tk_name t)"
  shows "\<exists>e cs. on_loop i (el_submit_raw (model_pool T Q D L E V f alloc page_size uuid worker local_default run others) malloc t) w =
      Some (Ok (tk_name t), w\<lparr>CSTRINGS := cs, EVENT_LOOPS := (EVENT_LOOPS w)[i := e]\<rparr>) \<and>
    loop_tasks contents e = loop_tasks contents (EVENT_LOOPS w ! i) @ [t]"
proof -
  let ?e = "EVENT_LOOPS w ! i"
  have "contents (inj_push T t x) = contents x @ [t]" for x
    using crossbeam_injector.contents_push [OF task_queue.inj [OF T], of t x] by (simp add: injector_ops.truncate_def)
  with assms(2) show ?thesis
    by (intro exI [of _ "?e\<lparr>el_pool := fst (leave (enter (el_pool ?e) w))\<lparr>pl_task_queue := inj_push T t (pl_task_queue (el_pool ?e))\<rparr>\<rparr>"]
        exI [of _ "(malloc (CSTRINGS w), tk_name t) # CSTRINGS w"])
      (simp add: on_loop_def el_submit_raw_def el_join_handle_new_def andThen_def on_pool_def model_pool_def Let_def pool_submit_raw_def join_handle_new_def leave_queue loop_tasks_def leak_cstring_def)
qed

text \<open>From \<open>w\<close> to \<open>w'\<close>, the tasks only moved from the first loop to the ends of the others.\<close>

definition tasks_moved where
  "tasks_moved contents w w' \<longleftrightarrow> length (EVENT_LOOPS w') = length (EVENT_LOOPS w) \<and>
     mset (all_tasks contents w') = mset (all_tasks contents w) \<and>
     (\<forall>i. 0 < i \<and> i < length (EVENT_LOOPS w) \<longrightarrow>
        prefix (loop_tasks contents (EVENT_LOOPS w ! i)) (loop_tasks contents (EVENT_LOOPS w' ! i)))"

lemma tasks_moved_refl: "tasks_moved contents w w"
  by (simp add: tasks_moved_def)

lemma tasks_moved_trans: "tasks_moved contents w w1 \<Longrightarrow> tasks_moved contents w1 w2 \<Longrightarrow> tasks_moved contents w w2"
  unfolding tasks_moved_def by (auto intro: prefix_order.trans)

lemma tasks_moved_step:
  assumes "0 < j" "j < length (EVENT_LOOPS w)" "loop_tasks contents (EVENT_LOOPS w ! 0) = t # ts"
    and "EVENT_LOOPS w' = (EVENT_LOOPS w)[0 := e0, j := ej]" "loop_tasks contents e0 = ts"
    and "loop_tasks contents ej = loop_tasks contents (EVENT_LOOPS w ! j) @ [t]"
  shows "tasks_moved contents w w'"
proof -
  let ?f = "loop_tasks contents" and ?l = "EVENT_LOOPS w"
  have "mset (concat (map ?f (?l[0 := e0, j := ej]))) + mset (?f (?l ! j)) =
      mset (concat (map ?f (?l[0 := e0]))) + mset (?f ej)"
    using mset_concat_update [of j "?l[0 := e0]" ?f ej] assms(1,2) by simp
  moreover have "mset (concat (map ?f (?l[0 := e0]))) + mset (?f (?l ! 0)) = mset (concat (map ?f ?l)) + mset (?f e0)"
    using assms(2) by (intro mset_concat_update) linarith
  ultimately have "mset (all_tasks contents w') = mset (all_tasks contents w)"
    unfolding all_tasks_def assms(3-6) by (simp add: ac_simps)
  then show ?thesis
    using assms(1,2) unfolding tasks_moved_def assms(4)
    by (auto simp: nth_list_update assms(6))
qed

lemma forward_tasks_ends:
  assumes T: "task_queue T contents contention" and "1 < length (EVENT_LOOPS w)"
    and "\<forall>t \<in> set (loop_tasks contents (EVENT_LOOPS w ! 0)). CHR 0x00 \<notin> set (tk_name t)"
    and PO: "PO = model_pool T Q D L E V f alloc page_size uuid worker local_default run others"
  shows "\<exists>w'. (forward_tasks True PO malloc 0 w :: ((unit, unit el_error) outcome \<times> _) option) = Some (Ok (), w') \<and> loop_tasks contents (EVENT_LOOPS w' ! 0) = [] \<and>
    tasks_moved contents w w'"
  using assms(2,3)
proof (induction "loop_tasks contents (EVENT_LOOPS w ! 0)" arbitrary: w)
  case Nil
  then have "el_is_empty PO (EVENT_LOOPS w ! 0, w)"
    by (simp add: PO el_is_empty_def el_size_def model_pool_def Let_def pool_size_def task_queue.len_contents [OF T] loop_tasks_def)
  with Nil show ?case by (subst forward_tasks.simps) (auto intro: tasks_moved_refl)
next
  case (Cons t ts)
  note tasks = Cons.hyps(2) [symmetric]
  have busy: "\<not> el_is_empty PO (EVENT_LOOPS w ! 0, w)"
    using tasks by (simp add: PO el_is_empty_def el_size_def model_pool_def Let_def pool_size_def task_queue.len_contents [OF T]
        loop_tasks_def)
  have len: "0 < length (EVENT_LOOPS w)" using Cons.prems(1) by linarith
  from loop_pops [OF T len tasks] obtain e0 where pop: "(on_loop 0 (el_pop PO) w :: ((_, unit el_error) outcome \<times> _) option) =
      Some (Ok (Some t), w\<lparr>EVENT_LOOPS := (EVENT_LOOPS w)[0 := e0]\<rparr>)" (is "_ = Some (_, ?w)") "loop_tasks contents e0 = ts"
    unfolding PO by blast
  obtain j k b where j: "0 < j" "j < length (EVENT_LOOPS w)" "(loops_next True True ?w :: ((_, unit el_error) outcome \<times> _) option) = Some (Ok (j, b), ?w\<lparr>INDEX := k\<rparr>)"
    using loops_next_skips [of ?w] Cons.prems(1) by auto
  have "CHR 0x00 \<notin> set (tk_name t)" using Cons.prems(2) tasks by simp
  from loop_accepts [OF T this, of j _ _ _ _ _ _ _ _ _ _ _ _ _ malloc "?w\<lparr>INDEX := k\<rparr>"] obtain ej cs where
    sub: "(on_loop j (el_submit_raw PO malloc t) (?w\<lparr>INDEX := k\<rparr>) :: ((_, unit el_error) outcome \<times> _) option) =
      Some (Ok (tk_name t), ?w\<lparr>INDEX := k, CSTRINGS := cs, EVENT_LOOPS := (EVENT_LOOPS w)[0 := e0, j := ej]\<rparr>)" (is "_ = Some (_, ?w1)")
    and ej: "loop_tasks contents ej = loop_tasks contents (EVENT_LOOPS w ! j) @ [t]"
    unfolding PO using j(1) by fastforce
  have step: "(forward_tasks True PO malloc 0 w :: ((unit, unit el_error) outcome \<times> _) option) = forward_tasks True PO malloc 0 ?w1"
    using busy pop(1) j(3) sub by (subst forward_tasks.simps) (simp add: andThen_def loops_submit_raw_def ret_def)
  have "EVENT_LOOPS ?w1 ! 0 = e0" using j(1) len by simp
  with pop(2) Cons.prems tasks have "ts = loop_tasks contents (EVENT_LOOPS ?w1 ! 0)" "1 < length (EVENT_LOOPS ?w1)"
    "\<forall>t \<in> set (loop_tasks contents (EVENT_LOOPS ?w1 ! 0)). CHR 0x00 \<notin> set (tk_name t)" by simp_all
  from Cons.hyps(1) [OF this] obtain w' where
    "forward_tasks True PO malloc 0 w = Some (Ok (), w')" "loop_tasks contents (EVENT_LOOPS w' ! 0) = []" "tasks_moved contents ?w1 w'"
    unfolding step by blast
  moreover have "tasks_moved contents w ?w1"
    by (rule tasks_moved_step [OF j(1,2) tasks _ pop(2) ej]) simp
  ultimately show ?case by (blast intro: tasks_moved_trans)
qed

subsection \<open>Claims about the blockers\<close>

text \<open>
  C39: The monitor's blocker ends and hands every task that was submitted to the monitor's loop to the other loops. After it
  has waited on its loop, however that went, the loop has no task left, the tasks of all loops together are the ones
  there were, and each other loop has its own tasks in front, in their order.
\<close>

theorem monitor_blocker_forwards:
  assumes "task_queue T contents contention"
    and "PO = model_pool T Q D L E V f alloc page_size uuid worker local_default run others"
    and "on_loop 0 (wait_just M P PO yield (Some dur)) w = Some (r, w1)" and "\<forall>m. r \<noteq> Panic m"
    and "1 < length (EVENT_LOOPS w1)"
    and "\<forall>t \<in> set (loop_tasks contents (EVENT_LOOPS w1 ! 0)). CHR 0x00 \<notin> set (tk_name t)"
  shows "\<exists>w'. block True M P PO yield malloc suspended sleep cond_wait (MonitorNetBlocker 0) dur w = Some (Ok (), w') \<and>
    loop_tasks contents (EVENT_LOOPS w' ! 0) = [] \<and> tasks_moved contents w1 w'"
proof -
  obtain w' where w': "forward_tasks True PO malloc 0 w1 = Some (Ok (), w')" "loop_tasks contents (EVENT_LOOPS w' ! 0) = []"
    "tasks_moved contents w1 w'"
    using forward_tasks_ends [OF assms(1,5,6,2)] by blast
  then have "block True M P PO yield malloc suspended sleep cond_wait (MonitorNetBlocker 0) dur w = Some (Ok (), w')"
    using assms(3,4) by (cases r) (simp_all add: block_def attempt_def)
  with w' show ?thesis by blast
qed

end
