(* ===== verification/RefApp.thy ===== *)
theory RefApp
  imports RefKernel BlockerClaims CoApi
begin

text \<open>
  The reference process outside of a coroutine, with a task in the queue of the monitor's loop and with a result in the
  table of the other, and the theorems about the monitor's blocker and about \<open>join\<close> applied to it.
\<close>

definition one_task :: ref_process where
  "one_task = (ref_process [])\<lparr>cur := None,
     EVENT_LOOPS := [(ref_loop 0)\<lparr>el_pool := ref_pool Pool_Created [task_new ''t'' 2 None] [] [] 0\<rparr>, ref_loop 1]\<rparr>"

abbreviation ref_ops where
  "ref_ops \<equiv> model_pool list_task_queue counting_queue no_map (\<lambda>(_ :: unit) _ s. s) alist_map alist_map
     (\<lambda>_ k co s. (Returns (), k, co, s)) (\<lambda>_. True) 4096 ''u'' (\<lambda>_. ()) () (\<lambda>_ _ s. (Gives None, s)) (\<lambda>_ s. s)"

lemma one_task_waits:
  "on_loop 0 (wait_just ref_maps list_poller ref_ops (\<lambda>s. s) (Some 5)) one_task = Some (Ok 0, one_task)"
  by (simp add: one_task_def on_loop_def wait_just_def on_thread_def set_call_state_def poll_events_def sel_select_def
      list_poller_def ref_loop_def andThen_def gets_def ret_def)

theorem monitor_blocker_forwards_witness:
  "\<exists>w'. block True ref_maps list_poller ref_ops (\<lambda>s. s) (\<lambda>l. 1000 + of_nat (length l)) (\<lambda>w. w) (\<lambda>_ w. w) (\<lambda>_ w. w)
      (MonitorNetBlocker 0) 5 one_task = Some (Ok (), w') \<and>
    map (loop_tasks fst) (EVENT_LOOPS one_task) = [[task_new ''t'' 2 None], []] \<and>
    loop_tasks fst (EVENT_LOOPS w' ! 0) = [] \<and> mset (all_tasks fst w') = {#task_new ''t'' 2 None#}"
proof -
  have tasks: "map (loop_tasks fst) (EVENT_LOOPS one_task) = [[task_new ''t'' 2 None], []]"
    by (simp add: one_task_def loop_tasks_def ref_loop_def ref_pool_def)
  have len: "1 < length (EVENT_LOOPS one_task)" by (simp add: one_task_def)
  have names: "\<forall>t \<in> set (loop_tasks fst (EVENT_LOOPS one_task ! 0)). CHR 0x00 \<notin> set (tk_name t)"
    by (simp add: one_task_def loop_tasks_def ref_pool_def task_new_def)
  obtain w' where "block True ref_maps list_poller ref_ops (\<lambda>s. s) (\<lambda>l. 1000 + of_nat (length l)) (\<lambda>w. w) (\<lambda>_ w. w) (\<lambda>_ w. w)
      (MonitorNetBlocker 0) 5 one_task = Some (Ok (), w')" "loop_tasks fst (EVENT_LOOPS w' ! 0) = []" "tasks_moved fst one_task w'"
    using monitor_blocker_forwards [OF ref_tasks.task_queue_axioms refl one_task_waits _ len names] by blast
  then show ?thesis using tasks by (auto simp: tasks_moved_def all_tasks_def)
qed

definition one_result :: ref_process where
  "one_result = (ref_process [])\<lparr>cur := None,
     EVENT_LOOPS := [ref_loop 0, (ref_loop 1)\<lparr>el_pool := ref_pool Pool_Running [] [(''t'', Ok (Some 1000))] [] 0\<rparr>]\<rparr>"

theorem join_gives_result_witness:
  "let malloc = (\<lambda>l. 500 + 500 * of_nat (length l)); (input, h) = co_input malloc () (4 :: nat) \<lparr>ah_boxes = []\<rparr> in
   case co_main malloc (\<lambda>_ n. n * n) input h of
     (r, h) \<Rightarrow> r = Ok 1000 \<and>
       (\<exists>w'. join ref_maps list_poller ref_ops (\<lambda>s. s) (1, ''t'') h one_result = Some (Ok (Ok (Some 16)), w'))"
proof -
  let ?malloc = "\<lambda>l. 500 + 500 * of_nat (length l) :: usize" and ?e = "EVENT_LOOPS one_result ! 1"
  let ?h1 = "\<lparr>ah_boxes = [(500, Leaked_call () (4 :: nat))]\<rparr> :: (unit, nat, nat) app_heap"
  let ?h2 = "\<lparr>ah_boxes = [(1000, Leaked_result 16), (500, Leaked_call () (4 :: nat))]\<rparr> :: (unit, nat, nat) app_heap"
  have input: "co_input ?malloc () (4 :: nat) \<lparr>ah_boxes = []\<rparr> = (500, ?h1)"
    by (simp add: co_input_def leak_box_def)
  have main: "co_main ?malloc (\<lambda>_ n. n * n) 500 ?h1 = (Ok 1000, ?h2)"
    by (simp add: co_main_def leak_box_def)
  have loop: "1 < length (EVENT_LOOPS one_result)" "el_get_state ?e = Pool_Running" "alist_ok (pl_results (el_pool ?e))"
    "map_of (pl_results (el_pool ?e)) ''t'' = Some (Ok (Some 1000))" "clk one_result (reads one_result) < 2 ^ 64 - 1"
    by (simp_all add: one_result_def ref_pool_def el_get_state_def pool_get_state_def alist_ok_def)
  have "\<exists>w'. join ref_maps list_poller ref_ops (\<lambda>s. s) (1, ''t'') ?h2 one_result = Some (Ok (Ok (Some (4 * 4))), w') \<and>
      map_of (pl_results (el_pool (EVENT_LOOPS w' ! 1))) ''t'' = None"
    by (rule join_gives_result [OF alist.dash_map_axioms refl refl loop(1-4) _ loop(5) _ _ input main]) simp_all
  then show ?thesis by (auto simp: input main)
qed

end
