(* ===== verification/Spec2Isabelle.thy ===== *)
theory Spec2Isabelle
  imports QueueContract LenRace CoLocal Trap Comparisons Version SchedulerClaims PoolClaims WorkerClaims StopClaims ConfigClaims MonitorClaims MainMacro RefKernel
    RefPool RefApp
begin

text \<open>
  A verification of the open-coroutine runtime: stackful coroutines for Rust, with a work stealing scheduler, a coroutine
  pool, event loops, and hooks that turn blocking system calls into suspensions of the calling coroutine.

  \<^bold>\<open>The program.\<close> An application links \<^verbatim>\<open>open-coroutine\<close> and \<^verbatim>\<open>open-coroutine-hooks\<close>. The hooks replace the C library's
  functions (\<^verbatim>\<open>read\<close>, \<^verbatim>\<open>connect\<close>, \<^verbatim>\<open>sleep\<close>, ...). A call passes through four layers of \<^verbatim>\<open>open-coroutine-core/src/syscall\<close>: the facade, the state
  layer, which records in the coroutine that it is in a call, the non-blocking layer, which runs the call on a
  non-blocking descriptor and waits on an event loop when it would block, and the raw call. The event loops
  (\<^verbatim>\<open>net/core.rs\<close>) are chosen in turn; each (\<^verbatim>\<open>net/event_loop.rs\<close>) has a selector (\<^verbatim>\<open>net/selector.rs\<close>) and a coroutine pool (\<^verbatim>\<open>pool\<close>). A
  pool runs tasks in worker coroutines of its scheduler (\<^verbatim>\<open>scheduler\<close>), which keeps the runnable ones in a work stealing
  queue (\<^verbatim>\<open>open-coroutine-queue\<close>) and the waiting ones in timer lists (\<^verbatim>\<open>open-coroutine-timer\<close>). The monitor (\<^verbatim>\<open>monitor\<close>) interrupts
  coroutines that run too long.

  \<^bold>\<open>Theories and sources.\<close> Below, file names are relative to \<^verbatim>\<open>src/\<close>.
  \<^item> \<open>Prelude\<close>: the outcome of fallible code (\<open>Ok\<close>, \<open>Err\<close>, \<open>Panic\<close>), the machine integers and their saturating arithmetic, shared lemmas.
    \<open>StdCollections\<close>: ordered maps as sorted lists and binary search. \<open>Containers\<close>: the concurrent map of the crate
    dashmap as the locale \<open>dash_map\<close>, with a reference on association lists.
  \<^item> \<open>Timer\<close> (\<^verbatim>\<open>open-coroutine-timer/src/lib.rs\<close>): the clock, deadlines, \<open>timer_entry\<close>, \<open>timer_list\<close>; the locale \<open>timed_queue\<close>.
  \<^item> \<open>Rand\<close>, \<open>WorkSteal\<close>, \<open>QueueContract\<close>, \<open>LenRace\<close> (\<^verbatim>\<open>open-coroutine-queue/src\<close>): the generator of random numbers; the shared and
    the local queues over the locales \<open>crossbeam_injector\<close> and \<open>st3_worker\<close>; the claims; the atomic accesses of push and pop
    interleaved.
  \<^item> \<open>CoState\<close>, \<open>Coroutine\<close>, \<open>CoLocal\<close>, \<open>Trap\<close> (\<^verbatim>\<open>open-coroutine-core/src/constants.rs\<close>, \<^verbatim>\<open>coroutine\<close>): the state machine against the relation
    \<open>lifecycle\<close>, resuming, suspending and the stacks of current objects, local storage, the fault handlers (locale \<open>trap_platform\<close>, one instance per platform).
    \<open>Comparisons\<close>: the orders on coroutines and schedulers (locale \<open>rust_ord\<close>). \<open>Version\<close> (\<^verbatim>\<open>version.rs\<close>): the numbers of kernel versions.
  \<^item> \<open>Scheduler\<close>, \<open>SchedulerSpec\<close>, \<open>SchedulingLoop\<close>, \<open>SchedulerClaims\<close> (\<^verbatim>\<open>scheduler\<close>): the operations; the invariant and what each operation
    keeps of it (locale \<open>scheduler\<close>); the loop, with what it asks of coroutines and listeners (locale \<open>scheduling\<close>); the claims.
  \<^item> \<open>Pool\<close>, \<open>PoolClaims\<close> (\<^verbatim>\<open>pool\<close>): tasks, results, waiting, growing, start and stop; the locale \<open>task_queue\<close>. \<open>Worker\<close>, \<open>WorkerSpec\<close>,
    \<open>WorkerClaims\<close>, \<open>StopClaims\<close>: the closure a worker runs, in segments, and the listener that creates workers, as the coroutines and the
    listener of the scheduling loop; the locales \<open>pool_setting\<close>, \<open>pool_worker\<close> and \<open>task_pool\<close> say what is asked of the tasks.
  \<^item> \<open>Prog\<close>, \<open>Keeps\<close>: programs as functions from a state to an outcome and a state, or \<open>None\<close> for one that does not return;
    the calculus of what a program keeps.
  \<^item> \<open>Syscall\<close> (\<^verbatim>\<open>syscall/common.rs\<close>, \<^verbatim>\<open>syscall/mod.rs\<close>), \<open>Nio\<close> (\<^verbatim>\<open>syscall/nio.rs\<close>), \<open>SyscallChain\<close> (\<^verbatim>\<open>syscall/state.rs\<close>, \<^verbatim>\<open>syscall/facade.rs\<close>,
    \<^verbatim>\<open>open-coroutine-hooks/src/unix\<close>): one definition per call and layer. \<open>NioClaims\<close>, \<open>CallState\<close> (locale \<open>call_layer\<close>) and \<open>BlockingMode\<close> (locale
    \<open>fcntl_modes\<close>) hold the claims.
  \<^item> \<open>Selector\<close>, \<open>SelectorClaims\<close> (\<^verbatim>\<open>net/selector.rs\<close>): the record tables and the poller, locale \<open>selector\<close>.
  \<^item> \<open>EventLoop\<close> (\<^verbatim>\<open>net/event_loop.rs\<close>), \<open>EventLoops\<close> (\<^verbatim>\<open>net/core.rs\<close>, \<^verbatim>\<open>net/config.rs\<close>), with \<open>LoopClaims\<close>, \<open>LoopsReach\<close> (locale \<open>deleting_selector\<close>) and \<open>ConfigClaims\<close>.
  \<^item> \<open>Monitor\<close>, \<open>MonitorClaims\<close> (\<^verbatim>\<open>monitor\<close>); \<open>Blockers\<close>, \<open>BlockerClaims\<close> (\<^verbatim>\<open>common.rs\<close>).
  \<^item> \<open>CoApi\<close> (\<^verbatim>\<open>open-coroutine/src\<close>, \<^verbatim>\<open>open-coroutine-hooks/src/coroutine.rs\<close>), \<open>MainMacro\<close> (\<^verbatim>\<open>open-coroutine-macros/src/lib.rs\<close>): what an application
    calls, and the main function the attribute generates from its arguments.
  \<^item> \<open>RefKernel\<close>, \<open>RefPool\<close>, \<open>RefApp\<close>: a scripted C library, pools with their workers and a process with two event loops, on which
    the interfaces are interpreted and the claims about calls, pools, loops and joins are applied.

  \<^bold>\<open>State.\<close> Everything a thread can reach is one record, extended step by step: the clock (\<open>env\<close>), the thread-local stacks
  (\<open>tls\<close>), then either the scheduler and the pool (\<open>sched\<close>, \<open>pool\<close>) or the memory of the system calls, the selector's tables and
  the event loops (\<open>io\<close>, \<open>net\<close>, \<open>world\<close>); \<open>enter\<close> and \<open>leave\<close> pass from the second to the first. An operation returns an outcome and
  the state. Code outside the repository is a parameter: the queues of crossbeam and st3, dashmap, polling, the stack
  switch of corosensei, the C library, and what other threads do while one waits. What is assumed of it are the laws of a
  locale, and each locale is interpreted.

  \<^bold>\<open>What is proved.\<close>
  \<^item> Queues and timers lose and duplicate nothing, keep their order, and pops return; a list of timers refines stable
    insertion by deadline.
  \<^item> The state machine does exactly what the lifecycle says; resuming returns the state it leaves; local storage is a map.
  \<^item> The scheduler wakes exactly what is due, its loop returns in time and restores the stack of current schedulers; a
    turn files the coroutine again or it has ended.
  \<^item> Scheduling a pool returns in time whatever its tasks do within the rules; tasks that run to their end are all run, each
    once, and their results filed and handed out; workers stay within their bounds; stop means stopped, and
    stopping a pool that was only filled runs all its tasks and succeeds.
  \<^item> A system call gives the coroutine back running; the event loops keep the promise this needs; a descriptor's blocking mode
    is restored; transfers are equal to one plain call; sleep and poll end and wait as long as asked.
  \<^item> The selector's tables agree with the poller; closing finds the descriptor on whichever loop; stop reaches every loop.
  \<^item> The monitor watches the running coroutines and what it forgot; its blocker loses no task; a joined coroutine's value
    arrives; a configuration is taken over exactly when valid.

  Where the code does not do what it means to, the theorem states what it does (for example \<open>buffer_transfer_is_one_call\<close>,
  \<open>len_race_strands_item\<close>, \<open>stale_deadline_wakes_early\<close>), next to claims about what works.

  \<^bold>\<open>Loops.\<close> There is no fuel. Loops over data are structural recursion or have a measure; a loop that may run forever is a
  \<open>partial_function\<close> with the value \<open>None\<close> for that, and where a claim says that it returns, this is proved from what it needs
  (a clock that advances, a poller that returns).

  \<^bold>\<open>Not modelled.\<close> Logging, the Windows hooks, build scripts, examples and tests; how the crate syn finds the names and
  literals in the macro's arguments. Threads interleave at the
  granularity of operations, except in \<open>LenRace\<close>, where each atomic access is a step; memory orderings are not modelled. What the
  functions of coroutines and tasks do between two suspensions is a parameter; in \<open>Pool\<close> and \<open>EventLoop\<close>, a task that a waiting
  coroutine runs itself runs to its end.
\<close>

end
